(* ===== verification/Prelude.thy ===== *)
theory Prelude
  imports Main "HOL-Library.Word" "HOL-Library.Monad_Syntax"
begin

text \<open>
  Shared vocabulary of the development: the machine types of the target (32-bit ARM, so
  \<open>unsigned long\<close>, \<open>unsigned int\<close> and pointers are 32 bits wide), the byte order of its
  memory, results of computations that may read outside an object, and the generic
  lemmas on options, lists and words that the component theories share.
\<close>

unbundle bit_operations_syntax

type_synonym byte = "8 word"
type_synonym u16 = "16 word"
type_synonym u32 = "32 word"
type_synonym u64 = "64 word"

text \<open>Facts that unfold the small state updates of a component model.\<close>

named_theorems model_simps

text \<open>Facts that keep or establish a representation predicate.\<close>

named_theorems rep_intros

subsection \<open>Computations that may fault\<close>

text \<open>
  A C computation that reads or writes outside an object has no defined result; a model
  that must show the absence of such accesses returns \<open>Fault\<close> there.
\<close>

datatype 'a run = Done 'a | Fault

definition read_at :: "'a list \<Rightarrow> nat \<Rightarrow> 'a option" where
  "read_at xs i = (if i < length xs then Some (xs ! i) else None)"

lemma read_at_Some [simp]: "i < length xs \<Longrightarrow> read_at xs i = Some (xs ! i)"
  by (simp add: read_at_def)

lemma read_at_eq_None [simp]: "read_at xs i = None \<longleftrightarrow> length xs \<le> i"
  by (auto simp: read_at_def)

definition window :: "nat \<Rightarrow> nat \<Rightarrow> 'a list \<Rightarrow> 'a list" where
  "window off n xs = take n (drop off xs)"

lemma window_append_exact [simp]: "window (length xs) (length ys) (xs @ ys @ zs) = ys"
  by (simp add: window_def)

lemma length_window [simp]: "off + n \<le> length xs \<Longrightarrow> length (window off n xs) = n"
  by (simp add: window_def)

lemma window_0 [simp]: "window off 0 xs = []"
  by (simp add: window_def)

subsection \<open>Lists, options\<close>

definition head_of :: "'a list \<Rightarrow> 'a option" where
  "head_of xs = (case xs of [] \<Rightarrow> None | x # _ \<Rightarrow> Some x)"

lemma head_of_simps [simp]: "head_of [] = None" "head_of (x # xs) = Some x"
  by (simp_all add: head_of_def)

lemma head_of_eq_None [simp]: "head_of xs = None \<longleftrightarrow> xs = []"
  by (cases xs) auto

lemma head_of_eq_Some: "head_of xs = Some x \<longleftrightarrow> (\<exists>ys. xs = x # ys)"
  by (cases xs) auto

lemma head_of_in_set: "head_of xs = Some x \<Longrightarrow> x \<in> set xs"
  by (auto simp: head_of_eq_Some)

text \<open>A property that every assignment of a sequence keeps.\<close>

lemma let_keeps: "Q a \<Longrightarrow> (\<And>x. Q x \<Longrightarrow> Q (f x)) \<Longrightarrow> Q (let x = a in f x)"
  by simp

subsection \<open>Encodings\<close>

text \<open>
  An encoder and the decoder that takes its images back: whatever is encoded is recovered, so that
  different things have different images.
\<close>

locale encoding =
  fixes enc :: "'a \<Rightarrow> 'b" and dec :: "'b \<Rightarrow> 'a"
  assumes dec_enc: "dec (enc x) = x"
begin

lemma enc_eq_iff: "enc x = enc y \<longleftrightarrow> x = y"
  by (metis dec_enc)

lemma inj_enc: "inj enc"
  by (rule injI) (simp add: enc_eq_iff)

lemma map_dec_enc: "map dec (map enc xs) = xs"
  by (simp add: dec_enc comp_def)

end

subsection \<open>Little-endian memory images\<close>

text \<open>The bytes that \<open>memcpy\<close> copies from a 32-bit object, lowest address first.\<close>

definition le_bytes32 :: "u32 \<Rightarrow> byte list" where
  "le_bytes32 w = [ucast w, ucast (drop_bit 8 w), ucast (drop_bit 16 w), ucast (drop_bit 24 w)]"

definition le_word32 :: "byte list \<Rightarrow> u32" where
  "le_word32 bs = (case bs of
      [a, b, c, d] \<Rightarrow> ucast a OR push_bit 8 (ucast b) OR push_bit 16 (ucast c) OR push_bit 24 (ucast d)
    | _ \<Rightarrow> 0)"

lemma length_le_bytes32 [simp]: "length (le_bytes32 w) = 4"
  by (simp add: le_bytes32_def)

lemma le_word32_bytes32 [simp]: "le_word32 (le_bytes32 w) = w"
proof (rule bit_word_eqI)
  fix n assume "n < LENGTH(32)"
  then show "bit (le_word32 (le_bytes32 w)) n = bit w n"
    by (cases "n < 8"; cases "n < 16"; cases "n < 24")
      (auto simp add: le_word32_def le_bytes32_def bit_or_iff bit_push_bit_iff
        bit_unsigned_iff bit_drop_bit_eq not_less)
qed

interpretation le32: encoding le_bytes32 le_word32
  by unfold_locales (rule le_word32_bytes32)

text \<open>The words of an image.\<close>

lemma window_words:
  "i < length ws \<Longrightarrow> window (4 * i) 4 (concat (map le_bytes32 ws)) = le_bytes32 (ws ! i)"
proof (induction ws arbitrary: i)
  case (Cons w ws)
  then show ?case by (cases i) (auto simp: window_def)
qed simp

end
