(* ===== verification/Utils.thy ===== *)
theory Utils
  imports Prelude
begin

text \<open>
  \<open>src/src/utils.cpp\<close> and the conversions of the C and C++ standard libraries that the
  server applies to the fields of its messages. A call that ends the process (an uncaught
  exception, a null pointer handed to \<open>strlen\<close>) has the value \<open>None\<close>. json-c is a parameter:
  \<open>get_ex\<close> is \<open>json_object_object_get_ex\<close> (\<open>None\<close> where it returns false) and \<open>get_string\<close> is
  \<open>json_object_get_string\<close> (\<open>None\<close> where it returns \<open>NULL\<close>).
\<close>

record 'j json_lib =
  get_ex :: "'j \<Rightarrow> string \<Rightarrow> 'j option"
  get_string :: "'j \<Rightarrow> string option"

definition getStrFromJson :: "('j, 'm) json_lib_scheme \<Rightarrow> 'j \<Rightarrow> string \<Rightarrow> string \<Rightarrow> string \<Rightarrow> string option" where
  "getStrFromJson J json level1 level2 level3 =
    (case get_ex J json level1 of
       None \<Rightarrow> Some []
     | Some tmp1 \<Rightarrow>
         if level2 = [] then get_string J tmp1
         else (case get_ex J tmp1 level2 of
             None \<Rightarrow> Some []
           | Some tmp2 \<Rightarrow>
               if level3 = [] then get_string J tmp2
               else (case get_ex J tmp2 level3 of
                   None \<Rightarrow> Some []
                 | Some tmp3 \<Rightarrow> get_string J tmp3)))"

definition getFloatFromJson ::
    "('j \<Rightarrow> string \<Rightarrow> 'j option) \<Rightarrow> ('j \<Rightarrow> 'f) \<Rightarrow> 'f \<Rightarrow> 'j \<Rightarrow> string \<Rightarrow> string \<Rightarrow> string \<Rightarrow> 'f" where
  "getFloatFromJson get get_double zero json level1 level2 level3 =
    (case get json level1 of
       None \<Rightarrow> zero
     | Some tmp1 \<Rightarrow>
         if level2 = [] then get_double tmp1
         else (case get tmp1 level2 of
             None \<Rightarrow> zero
           | Some tmp2 \<Rightarrow>
               if level3 = [] then get_double tmp2
               else (case get tmp2 level3 of None \<Rightarrow> zero | Some tmp3 \<Rightarrow> get_double tmp3)))"

subsection \<open>A message is a tree\<close>

text \<open>
  The path that a call walks: the non-empty levels, up to the first empty one. Looking a
  path up in the tree and reading its end is all that both functions do.
\<close>

fun walk :: "('j \<Rightarrow> string \<Rightarrow> 'j option) \<Rightarrow> 'j \<Rightarrow> string list \<Rightarrow> 'j option" where
  "walk get j [] = Some j"
| "walk get j (k # ks) = (case get j k of None \<Rightarrow> None | Some j' \<Rightarrow> walk get j' ks)"

definition path_of :: "string \<Rightarrow> string \<Rightarrow> string \<Rightarrow> string list" where
  "path_of l1 l2 l3 = l1 # takeWhile (\<lambda>l. l \<noteq> []) [l2, l3]"

lemma getStrFromJson_walk:
  "getStrFromJson J json l1 l2 l3 =
    (case walk (get_ex J) json (path_of l1 l2 l3) of None \<Rightarrow> Some [] | Some j \<Rightarrow> get_string J j)"
  by (simp add: getStrFromJson_def path_of_def split: option.splits)

lemma getFloatFromJson_walk:
  "getFloatFromJson get get_double zero json l1 l2 l3 =
    (case walk get json (path_of l1 l2 l3) of None \<Rightarrow> zero | Some j \<Rightarrow> get_double j)"
  by (simp add: getFloatFromJson_def path_of_def split: option.splits)

subsection \<open>Decimal numbers\<close>

definition is_space :: "char \<Rightarrow> bool" where
  "is_space c = (of_char c \<in> {9::nat, 10, 11, 12, 13, 32})"

definition is_digit :: "char \<Rightarrow> bool" where
  "is_digit c = (48 \<le> (of_char c :: nat) \<and> (of_char c :: nat) \<le> 57)"

definition digits_value :: "string \<Rightarrow> nat" where
  "digits_value ds = foldl (\<lambda>n c. 10 * n + (of_char c - 48)) 0 ds"

text \<open>The subject sequence of \<open>strtol\<close> and \<open>strtoull\<close> with base 10: the sign and the digits.\<close>

definition subject_sequence :: "string \<Rightarrow> (bool \<times> string) option" where
  "subject_sequence s =
    (let t = dropWhile is_space s;
         u = (case t of c # r \<Rightarrow> if c = CHR ''-'' \<or> c = CHR ''+'' then r else t | [] \<Rightarrow> []);
         ds = takeWhile is_digit u
     in if ds = [] then None else Some (head_of t = Some (CHR ''-''), ds))"

text \<open>\<open>strtol (s, &end, 10)\<close> of a 32-bit \<open>long\<close>; \<open>None\<close> where \<open>end = s\<close>.\<close>

definition strtol10 :: "string \<Rightarrow> int option" where
  "strtol10 s = (case subject_sequence s of
      None \<Rightarrow> None
    | Some (neg, ds) \<Rightarrow>
        Some (if neg then max (- (2 ^ 31)) (- int (digits_value ds))
              else min (2 ^ 31 - 1) (int (digits_value ds))))"

text \<open>\<open>std::stoull\<close>; \<open>None\<close> where it throws \<open>invalid_argument\<close> or \<open>out_of_range\<close>.\<close>

definition stoull :: "string \<Rightarrow> u64 option" where
  "stoull s = (case subject_sequence s of
      None \<Rightarrow> None
    | Some (neg, ds) \<Rightarrow>
        if 2 ^ 64 \<le> digits_value ds then None
        else Some (if neg then - of_nat (digits_value ds) else of_nat (digits_value ds)))"

text \<open>\<open>std::stoi\<close>, likewise.\<close>

definition stoi :: "string \<Rightarrow> int option" where
  "stoi s = (case subject_sequence s of
      None \<Rightarrow> None
    | Some (neg, ds) \<Rightarrow>
        let v = (if neg then - int (digits_value ds) else int (digits_value ds))
        in if v < - (2 ^ 31) \<or> 2 ^ 31 - 1 < v then None else Some v)"

subsection \<open>What the conversions accept\<close>

text \<open>The decimal numeral of a natural number.\<close>

fun decimal :: "nat \<Rightarrow> string" where
  "decimal n = (if n < 10 then [char_of (48 + n)] else decimal (n div 10) @ [char_of (48 + n mod 10)])"

declare decimal.simps [simp del]

lemma decimal_digits: "list_all is_digit (decimal n)"
proof (induction n rule: decimal.induct)
  case (1 n)
  have d: "is_digit (char_of (48 + m))" if "m < 10" for m :: nat
    using that by (simp add: is_digit_def)
  show ?case
    using 1 d by (subst decimal.simps) simp
qed

lemma decimal_not_Nil [simp]: "decimal n \<noteq> []"
  by (subst decimal.simps) simp

lemma digits_value_snoc [simp]:
  "digits_value (ds @ [c]) = 10 * digits_value ds + (of_char c - 48)"
  by (simp add: digits_value_def)

lemma digits_value_decimal [simp]: "digits_value (decimal n) = n"
proof (induction n rule: decimal.induct)
  case (1 n)
  have d: "(of_char (char_of (48 + m) :: char) :: nat) - 48 = m" if "m < 10" for m
    using that by simp
  show ?case
  proof (cases "n < 10")
    case True
    then show ?thesis by (subst decimal.simps) (simp add: digits_value_def d)
  next
    case False
    then show ?thesis using 1 by (subst decimal.simps) (simp add: d)
  qed
qed

interpretation dec_num: encoding decimal digits_value
  by unfold_locales (rule digits_value_decimal)

lemma decimal_length: "n < 10 ^ k \<Longrightarrow> 0 < k \<Longrightarrow> length (decimal n) \<le> k"
proof (induction n arbitrary: k rule: decimal.induct)
  case (1 n)
  show ?case
  proof (cases "n < 10")
    case True
    then show ?thesis using 1 by (subst decimal.simps) simp
  next
    case False
    then obtain k' where k: "k = Suc k'" "0 < k'"
      using 1 by (cases k; cases "k - 1") auto
    then have "n div 10 < 10 ^ k'" using 1(2) by (simp add: less_mult_imp_div_less mult.commute)
    then show ?thesis using 1(1) [OF False _ k(2)] k False by (subst decimal.simps) simp
  qed
qed

lemma digit_not_space: "is_digit c \<Longrightarrow> \<not> is_space c \<and> c \<noteq> CHR ''-'' \<and> c \<noteq> CHR ''+''"
  by (auto simp: is_digit_def is_space_def)

lemma subject_sequence_decimal [simp]: "subject_sequence (decimal n) = Some (False, decimal n)"
proof -
  obtain c r where c: "decimal n = c # r" using decimal_not_Nil by (cases "decimal n") blast+
  have "is_digit c" and all: "takeWhile is_digit (c # r) = c # r"
    using decimal_digits [of n] by (auto simp: c list_all_iff takeWhile_eq_all_conv)
  then show ?thesis
    using digit_not_space [of c] unfolding c subject_sequence_def by (simp add: Let_def)
qed

lemma subject_sequence_Nil [simp]: "subject_sequence [] = None"
  by (simp add: subject_sequence_def)

lemma stoull_decimal: "n < 2 ^ 64 \<Longrightarrow> stoull (decimal n) = Some (of_nat n)"
  by (simp add: stoull_def)

lemma strtol10_decimal: "n < 2 ^ 31 \<Longrightarrow> strtol10 (decimal n) = Some (int n)"
  by (simp add: strtol10_def)

lemma conversions_of_empty [simp]: "stoull [] = None" "strtol10 [] = None" "stoi [] = None"
  by (simp_all add: stoull_def strtol10_def stoi_def)

end
