(* ===== verification/DeviceStatus.thy ===== *)
theory DeviceStatus
  imports Utils
begin

text \<open>
  \<open>src/src/device_status.cpp\<close>: the status values that messages set and that pictures carry in
  their maker note, and how numbers are printed there. A \<open>float\<close> is its 32 bits.
\<close>

record device_status =
  shutter_count :: u32
  cmos_temperature :: u32
  input_voltage :: u32
  noise_reduction_strength :: u32
  jpeg_quality_level :: u32
  shutter_mode :: u32
  software_version :: string
  internal_code :: string
  serial_number :: string

definition DeviceStatus :: device_status where
  "DeviceStatus = \<lparr>shutter_count = 55, cmos_temperature = 0x42340000, input_voltage = 0x41400000,
     noise_reduction_strength = 0, jpeg_quality_level = 2, shutter_mode = 0,
     software_version = ''0.1.2'', internal_code = ''A'', serial_number = ''feituo''\<rparr>"

text \<open>\<open>%d\<close> and \<open>std::to_string (int)\<close>.\<close>

definition show_int :: "u32 \<Rightarrow> string" where
  "show_int w = (if sint w < 0 then CHR ''-'' # decimal (nat (- sint w)) else decimal (nat (sint w)))"

text \<open>\<open>strtol\<close> takes the printed number back.\<close>

lemma strtol10_show_int: "strtol10 (show_int w) = Some (sint w)"
proof -
  have "subject_sequence (CHR ''-'' # decimal n) = Some (True, decimal n)" for n
  proof -
    have "takeWhile is_digit (decimal n) = decimal n"
      using decimal_digits [of n] by (metis list_all_iff takeWhile_eq_all_conv)
    then show ?thesis by (simp add: subject_sequence_def is_space_def Let_def del: takeWhile_eq_all_conv)
  qed
  moreover have "- (2 ^ 31) \<le> sint w" "sint w < 2 ^ 31"
    using sint_greater_eq [of w] sint_lt [of w] by simp_all
  ultimately show ?thesis by (simp add: show_int_def strtol10_def)
qed

text \<open>The characters of a string as bytes.\<close>

definition str_bytes :: "string \<Rightarrow> byte list" where
  "str_bytes s = map of_char s"

text \<open>A C string: with the terminating zero.\<close>

definition c_str :: "string \<Rightarrow> byte list" where
  "c_str s = str_bytes s @ [0]"

lemma length_str_bytes [simp]: "length (str_bytes s) = length s"
  by (simp add: str_bytes_def)

lemma length_c_str [simp]: "length (c_str s) = length s + 1"
  by (simp add: c_str_def)

end
