(* ===== verification/GpsEstone.thy ===== *)
theory GpsEstone
  imports DeviceStatus
begin

text \<open>
  \<open>src/src/gps_estone.cpp\<close>: the last 64 GPS samples and the lookup of the sample of a time.
  A \<open>float\<close> of the source is only copied, so it is its 32 bits here; \<open>strtof\<close> is a parameter
  (its bits, or \<open>None\<close> where it converts nothing), as is the clock (\<open>now\<close>, in milliseconds).
  A member that no constructor sets is \<open>None\<close> until it is written, and an operation that
  reads it before that has the result \<open>Fault\<close>.
\<close>

subsection \<open>Data\<close>

record gps_data_t =
  latitude :: u32
  longitude :: u32
  altitude :: u32
  roll :: u32
  pitch :: u32
  yaw :: u32
  time_stamp :: u64

definition GPS_BUF_LENGTH :: nat where "GPS_BUF_LENGTH = 64"

record gps_estone =
  timing_offset :: u32
  gps_rcv_tmout :: "u64 option"
  gps_data_buf :: "gps_data_t list"

definition GPSEstone :: gps_estone where
  "GPSEstone = \<lparr>timing_offset = 0, gps_rcv_tmout = None, gps_data_buf = []\<rparr>"

text \<open>The static pointer of \<open>getInstance\<close>; all callers share one object.\<close>

definition getInstance :: "gps_estone option \<Rightarrow> gps_estone \<times> gps_estone option" where
  "getInstance inst = (let g = (case inst of None \<Rightarrow> GPSEstone | Some g \<Rightarrow> g) in (g, Some g))"

definition setTimingOffset :: "u32 \<Rightarrow> gps_estone \<Rightarrow> gps_estone" where
  "setTimingOffset offset g = g\<lparr>timing_offset := offset\<rparr>"

definition getTimingOffset :: "gps_estone \<Rightarrow> u32" where
  "getTimingOffset g = timing_offset g"

text \<open>
  json-c, and \<open>push_back\<close> of \<open>boost::circular_buffer\<close>: with the capacity, the element, and the
  elements in the buffer, oldest first.
\<close>

record 'j gps_lib = "'j json_lib" +
  push_back :: "nat \<Rightarrow> gps_data_t \<Rightarrow> gps_data_t list \<Rightarrow> gps_data_t list"

text \<open>What boost documents: the element becomes the last one, and a full buffer loses its first.\<close>

definition circular :: "'j gps_lib \<Rightarrow> bool" where
  "circular J \<longleftrightarrow> (\<forall>n x xs. 0 < n \<longrightarrow> length xs \<le> n \<longrightarrow>
     push_back J n x xs = (if length xs < n then xs else tl xs) @ [x])"

subsection \<open>Incoming messages\<close>

text \<open>The result of the call and what it stores; \<open>strtol\<close> stores 0 when it converts nothing.\<close>

definition string_to_int :: "string \<Rightarrow> int \<times> u32" where
  "string_to_int str = (case strtol10 str of None \<Rightarrow> (- 1, 0) | Some v \<Rightarrow> (0, word_of_int v))"

definition string_to_float :: "(string \<Rightarrow> u32 option) \<Rightarrow> string \<Rightarrow> int \<times> u32" where
  "string_to_float strtof str = (case strtof str of None \<Rightarrow> (- 1, 0) | Some v \<Rightarrow> (0, v))"

definition validate_gps :: "u32 \<Rightarrow> u32 \<Rightarrow> u32 \<Rightarrow> u32 \<Rightarrow> u32 \<Rightarrow> u32 \<Rightarrow> int" where
  "validate_gps lat lon alt rol pit ya = 0"

text \<open>
  The fields in the order the handler reads them. \<open>None\<close>: the process ends inside the
  handler. The warning about a gap between two time stamps only logs.
\<close>

definition handleData ::
    "'j gps_lib \<Rightarrow> (string \<Rightarrow> u32 option) \<Rightarrow> u64 \<Rightarrow> 'j \<Rightarrow> gps_estone \<Rightarrow> (int \<times> gps_estone) option" where
  "handleData J strtof now json g =
    do {
      s \<leftarrow> getStrFromJson J json ''data'' ''location'' ''latitude'';
      let (e1, lat) = string_to_int s;
      if e1 \<noteq> 0 then Some (- 1, g) else do {
      s \<leftarrow> getStrFromJson J json ''data'' ''location'' ''longitude'';
      let (e2, lon) = string_to_int s;
      if e2 \<noteq> 0 then Some (- 1, g) else do {
      s \<leftarrow> getStrFromJson J json ''data'' ''location'' ''altitude'';
      let (e3, alt) = string_to_int s;
      if e3 \<noteq> 0 then Some (- 1, g) else do {
      s \<leftarrow> getStrFromJson J json ''data'' ''angles'' ''roll'';
      let (e4, rol) = string_to_float strtof s;
      if e4 \<noteq> 0 then Some (- 1, g) else do {
      s \<leftarrow> getStrFromJson J json ''data'' ''angles'' ''pitch'';
      let (e5, pit) = string_to_float strtof s;
      if e5 \<noteq> 0 then Some (- 1, g) else do {
      s \<leftarrow> getStrFromJson J json ''data'' ''angles'' ''yaw'';
      let (e6, ya) = string_to_float strtof s;
      if e6 \<noteq> 0 then Some (- 1, g)
      else if validate_gps lat lon alt rol pit ya \<noteq> 0 then Some (- 1, g) else do {
      s \<leftarrow> getStrFromJson J json ''data'' ''time_stamp'' [];
      ts \<leftarrow> stoull s;
      Some (0, g\<lparr>gps_rcv_tmout := Some now,
        gps_data_buf := push_back J GPS_BUF_LENGTH
          \<lparr>latitude = lat, longitude = lon, altitude = alt, roll = rol, pitch = pit, yaw = ya,
           time_stamp = ts\<rparr> (gps_data_buf g)\<rparr>)
      }}}}}}}"

subsection \<open>Lookup\<close>

text \<open>The \<open>float\<close> that \<open>0xffffffff\<close> converts to: \<open>2^32\<close>.\<close>

definition float_of_0xffffffff :: u32 where "float_of_0xffffffff = 0x4F800000"

text \<open>The check that the receiver went silent, applied to the copy handed out.\<close>

definition stale :: "u64 \<Rightarrow> u64 \<Rightarrow> gps_data_t \<Rightarrow> gps_data_t" where
  "stale now tmout b =
    (if tmout < now \<and> 2 * 1000 < now - tmout
     then b\<lparr>altitude := 0xffffffff, latitude := 0xffffffff, longitude := 0xffffffff,
            pitch := float_of_0xffffffff, roll := float_of_0xffffffff, yaw := float_of_0xffffffff\<rparr>
     else b)"

text \<open>
  The loop over the buffer; \<open>prev\<close> is the element before the iterator (none at the start).
  \<open>Done None\<close> is the end of a loop that found nothing.
\<close>

fun search_buf ::
    "u64 \<Rightarrow> u64 \<Rightarrow> u64 option \<Rightarrow> gps_data_t option \<Rightarrow> gps_data_t list \<Rightarrow> gps_data_t option run" where
  "search_buf ts now tmout prev [] = Done None"
| "search_buf ts now tmout prev (b # bs) =
    (if ts < time_stamp b \<and> prev \<noteq> None then Done prev
     else if ts = time_stamp b then Done (Some b)
     else if bs = [] then (case tmout of None \<Rightarrow> Fault | Some t \<Rightarrow> Done (Some (stale now t b)))
     else search_buf ts now tmout (Some b) bs)"

text \<open>The result and what is stored through \<open>data\<close> (\<open>None\<close>: nothing).\<close>

definition getGPSData :: "gps_estone \<Rightarrow> u64 \<Rightarrow> u64 \<Rightarrow> (int \<times> gps_data_t option) run" where
  "getGPSData g now ts =
    (if gps_data_buf g = [] then Done (- 1, None)
     else if ts = 0 then Done (0, Some (last (gps_data_buf g)))
     else (case search_buf ts now (gps_rcv_tmout g) None (gps_data_buf g) of
         Done d \<Rightarrow> Done (0, d)
       | Fault \<Rightarrow> Fault))"

subsection \<open>The buffer keeps the latest samples\<close>

definition latest :: "nat \<Rightarrow> 'a list \<Rightarrow> 'a list" where
  "latest n xs = drop (length xs - n) xs"

lemma latest_Nil [simp]: "latest n [] = []"
  by (simp add: latest_def)

lemma length_latest: "length (latest n xs) = min n (length xs)"
  by (simp add: latest_def)

lemma latest_eq_Nil: "0 < n \<Longrightarrow> latest n xs = [] \<longleftrightarrow> xs = []"
  by (cases xs) (simp_all add: latest_def)

lemma last_latest_snoc: "0 < n \<Longrightarrow> last (latest n (xs @ [x])) = x"
  by (simp add: latest_def)

lemma push_back_latest: "circular J \<Longrightarrow> 0 < n \<Longrightarrow> push_back J n x (latest n xs) = latest n (xs @ [x])"
  by (auto simp: circular_def latest_def tl_drop drop_Suc [symmetric] Suc_diff_le not_less
      simp flip: drop_Suc)

text \<open>
  The sample that a message carries, read off the message alone: a record of three integers and three
  floats with its time stamp, if all seven are there and are numbers.
\<close>

definition int_field :: "'j gps_lib \<Rightarrow> 'j \<Rightarrow> string \<Rightarrow> u32 option" where
  "int_field J json name = do {
     s \<leftarrow> getStrFromJson J json ''data'' ''location'' name;
     v \<leftarrow> strtol10 s;
     Some (word_of_int v) }"

definition float_field :: "'j gps_lib \<Rightarrow> (string \<Rightarrow> u32 option) \<Rightarrow> 'j \<Rightarrow> string \<Rightarrow> u32 option" where
  "float_field J strtof json name = do {
     s \<leftarrow> getStrFromJson J json ''data'' ''angles'' name;
     strtof s }"

definition message_sample :: "'j gps_lib \<Rightarrow> (string \<Rightarrow> u32 option) \<Rightarrow> 'j \<Rightarrow> gps_data_t option" where
  "message_sample J strtof json = do {
     ts \<leftarrow> getStrFromJson J json ''data'' ''time_stamp'' [];
     t \<leftarrow> stoull ts;
     lat \<leftarrow> int_field J json ''latitude'';
     lon \<leftarrow> int_field J json ''longitude'';
     alt \<leftarrow> int_field J json ''altitude'';
     rol \<leftarrow> float_field J strtof json ''roll'';
     pit \<leftarrow> float_field J strtof json ''pitch'';
     ya \<leftarrow> float_field J strtof json ''yaw'';
     Some \<lparr>latitude = lat, longitude = lon, altitude = alt, roll = rol, pitch = pit, yaw = ya, time_stamp = t\<rparr> }"

lemma message_sample_Some:
  "message_sample J strtof json = Some d \<longleftrightarrow>
    int_field J json ''latitude'' = Some (latitude d) \<and> int_field J json ''longitude'' = Some (longitude d) \<and>
    int_field J json ''altitude'' = Some (altitude d) \<and> float_field J strtof json ''roll'' = Some (roll d) \<and>
    float_field J strtof json ''pitch'' = Some (pitch d) \<and> float_field J strtof json ''yaw'' = Some (yaw d) \<and>
    Option.bind (getStrFromJson J json ''data'' ''time_stamp'' []) stoull = Some (time_stamp d)"
  by (cases d) (auto simp: message_sample_def bind_eq_Some_conv split: option.splits)

text \<open>The states of the singleton, with the samples of the messages it was given since the start.\<close>

inductive gps_reachable ::
    "'j gps_lib \<Rightarrow> (string \<Rightarrow> u32 option) \<Rightarrow> gps_data_t list \<Rightarrow> gps_estone \<Rightarrow> bool"
  for J strtof where
  gr_start: "gps_reachable J strtof [] GPSEstone"
| gr_offset: "gps_reachable J strtof h g \<Longrightarrow> gps_reachable J strtof h (setTimingOffset off g)"
| gr_handle: "gps_reachable J strtof h g \<Longrightarrow> handleData J strtof now json g = Some (r, g') \<Longrightarrow>
    gps_reachable J strtof (h @ (case message_sample J strtof json of None \<Rightarrow> [] | Some d \<Rightarrow> [d])) g'"

text \<open>The handler reads a field, and ends with -1 where the text is not a number.\<close>

lemma read_number:
  "(do { s \<leftarrow> getStrFromJson J json ''data'' ''location'' n; let (e, v) = string_to_int s;
         if e \<noteq> 0 then Some (- 1, g) else K v }) = Some x \<longleftrightarrow>
   (case int_field J json n of Some v \<Rightarrow> K v = Some x
    | None \<Rightarrow> getStrFromJson J json ''data'' ''location'' n \<noteq> None \<and> x = (- 1, g))"
  "(do { s \<leftarrow> getStrFromJson J json ''data'' ''angles'' n; let (e, v) = string_to_float strtof s;
         if e \<noteq> 0 then Some (- 1, g) else L v }) = Some x \<longleftrightarrow>
   (case float_field J strtof json n of Some v \<Rightarrow> L v = Some x
    | None \<Rightarrow> getStrFromJson J json ''data'' ''angles'' n \<noteq> None \<and> x = (- 1, g))"
  by (auto simp: int_field_def float_field_def string_to_int_def string_to_float_def
      split: option.splits bind_splits)

lemma handleData_cases:
  assumes "handleData J strtof now json g = Some (r, g')"
  obtains "message_sample J strtof json = None" "r = - 1" "g' = g"
  | d where "message_sample J strtof json = Some d" "r = 0"
    "g' = g\<lparr>gps_rcv_tmout := Some now, gps_data_buf := push_back J GPS_BUF_LENGTH d (gps_data_buf g)\<rparr>"
proof (cases "message_sample J strtof json")
  case None
  then have "r = - 1 \<and> g' = g"
    using assms unfolding handleData_def read_number validate_gps_def
    by (auto simp: message_sample_def split: option.splits bind_splits)
  with None that(1) show thesis by blast
next
  case (Some d)
  with assms have "r = 0 \<and> g' = g\<lparr>gps_rcv_tmout := Some now,
      gps_data_buf := push_back J GPS_BUF_LENGTH d (gps_data_buf g)\<rparr>"
    unfolding handleData_def read_number validate_gps_def
    by (cases d) (auto simp: message_sample_Some bind_eq_Some_conv)
  with Some that(2) show thesis by blast
qed

lemma handleData_takes:
  assumes "message_sample J strtof json = Some d"
  shows "handleData J strtof now json g =
    Some (0, g\<lparr>gps_rcv_tmout := Some now, gps_data_buf := push_back J GPS_BUF_LENGTH d (gps_data_buf g)\<rparr>)"
  using assms unfolding handleData_def read_number validate_gps_def
  by (cases d) (auto simp: message_sample_Some bind_eq_Some_conv)

definition gps_inv :: "gps_data_t list \<Rightarrow> gps_estone \<Rightarrow> bool" where
  "gps_inv h g \<longleftrightarrow> gps_data_buf g = latest GPS_BUF_LENGTH h \<and>
    (gps_rcv_tmout g = None \<longleftrightarrow> h = [])"

lemma gps_inv_reachable:
  assumes "gps_reachable J strtof h g" "circular J"
  shows "gps_inv h g"
  using assms(1)
proof (induction rule: gps_reachable.induct)
  case gr_start
  then show ?case by (simp add: gps_inv_def GPSEstone_def)
next
  case (gr_offset h g off)
  then show ?case by (auto simp: gps_inv_def setTimingOffset_def)
next
  case (gr_handle h g now json r g')
  from gr_handle.hyps(2) show ?case
  proof (cases rule: handleData_cases)
    case 1
    then show ?thesis using gr_handle.IH by simp
  next
    case (2 d)
    then show ?thesis using gr_handle.IH push_back_latest [OF assms(2)]
      by (simp add: gps_inv_def GPS_BUF_LENGTH_def last_latest_snoc latest_eq_Nil)
  qed
qed

lemma search_buf_before:
  assumes "sorted_wrt (\<lambda>a b. time_stamp a < time_stamp b) bs" "bs \<noteq> []" "ts \<le> time_stamp (last bs)"
    "\<And>p. prev = Some p \<Longrightarrow> time_stamp p < ts"
    "prev = None \<Longrightarrow> time_stamp (hd bs) \<le> ts"
  shows "search_buf ts now t prev bs =
    Done (Some (last ((case prev of None \<Rightarrow> [] | Some p \<Rightarrow> [p]) @ filter (\<lambda>b. time_stamp b \<le> ts) bs)))"
  using assms
proof (induction bs arbitrary: prev)
  case (Cons b bs)
  consider (lt) "ts < time_stamp b" | (eq) "ts = time_stamp b" | (gt) "time_stamp b < ts" by fastforce
  then show ?case
  proof cases
    case lt
    then obtain p where "prev = Some p" using Cons.prems(5) by (cases prev) auto
    moreover have "filter (\<lambda>b. time_stamp b \<le> ts) (b # bs) = []"
      using lt Cons.prems(1) by (auto simp: filter_empty_conv dest: order.strict_trans2)
    ultimately show ?thesis using lt by simp
  next
    case eq
    then have "filter (\<lambda>b. time_stamp b \<le> ts) bs = []"
      using Cons.prems(1) by (auto simp: filter_empty_conv)
    then show ?thesis using eq by simp
  next
    case gt
    then have "bs \<noteq> []" using Cons.prems(3) by auto
    then show ?thesis
      using gt Cons.prems(1,3) Cons.IH [of "Some b"] by (auto simp: not_less_iff_gr_or_eq)
  qed
qed simp

lemma search_buf_after:
  assumes "bs \<noteq> []" "list_all (\<lambda>b. time_stamp b < ts) bs"
  shows "search_buf ts now (Some t) prev bs = Done (Some (stale now t (last bs)))"
  using assms by (induction bs arbitrary: prev) auto

lemma search_buf_found: "bs \<noteq> [] \<Longrightarrow> \<exists>d. search_buf ts now (Some t) prev bs = Done (Some d)"
  by (induction bs arbitrary: prev) auto

lemma search_buf_oldest:
  assumes "ts < time_stamp b" "sorted_wrt (\<lambda>a b. time_stamp a < time_stamp b) (b # bs)" "bs \<noteq> []"
  shows "search_buf ts now t None (b # bs) = Done (Some b)"
proof -
  obtain c cs where bs: "bs = c # cs" using assms(3) by (cases bs) auto
  have "ts < time_stamp c" using assms(1,2) by (auto simp: bs)
  then show ?thesis using assms(1) by (simp add: bs)
qed

subsection \<open>Properties\<close>

text \<open>A json-c library over trees of objects and strings, to apply the theorems to.\<close>

datatype demo_json = Str string | Obj "(string \<times> demo_json) list"

definition demo_jsonc :: "demo_json gps_lib" where
  "demo_jsonc = \<lparr>get_ex = (\<lambda>j k. case j of Obj m \<Rightarrow> map_of m k | Str s \<Rightarrow> None),
               get_string = (\<lambda>j. case j of Str s \<Rightarrow> Some s | Obj m \<Rightarrow> Some ''{}''),
               push_back = (\<lambda>n x xs. (if length xs < n then xs else tl xs) @ [x])\<rparr>"

lemma demo_jsonc_circular: "circular demo_jsonc"
  by (simp add: circular_def demo_jsonc_def)

definition demo_message :: "string \<Rightarrow> string \<Rightarrow> demo_json" where
  "demo_message lat ts = Obj [(''cmd'', Str ''GPS''), (''data'', Obj [
     (''location'', Obj [(''latitude'', Str lat), (''longitude'', Str ''7''), (''altitude'', Str ''-3'')]),
     (''angles'', Obj [(''roll'', Str ''1''), (''pitch'', Str ''2''), (''yaw'', Str ''3'')]),
     (''time_stamp'', Str ts)])]"

definition demo_strtof :: "string \<Rightarrow> u32 option" where
  "demo_strtof s = (if s = [] then None else Some 0x3f800000)"

lemmas json_eval = getStrFromJson_def demo_jsonc_def demo_message_def demo_strtof_def

lemmas number_eval = strtol10_def stoull_def stoi_def subject_sequence_def is_space_def
  is_digit_def digits_value_def

text \<open>A message whose time stamp does not convert ends the process inside the handler.\<close>

lemma bad_time_stamp_ends:
  "handleData demo_jsonc demo_strtof 5000 (demo_message ''1'' []) GPSEstone = None"
  by (simp add: handleData_def json_eval number_eval string_to_int_def string_to_float_def validate_gps_def)

text \<open>
  What happens to the singleton from its creation: messages with their times of arrival, and changes of
  the timing offset. \<open>None\<close>: a message ended the process.
\<close>

datatype 'j gps_op = Gps_message u64 'j | Gps_offset u32

primrec gps_run ::
    "'j gps_lib \<Rightarrow> (string \<Rightarrow> u32 option) \<Rightarrow> 'j gps_op list \<Rightarrow> gps_estone \<Rightarrow> gps_estone option" where
  "gps_run J strtof [] g = Some g"
| "gps_run J strtof (p # ps) g =
    (case p of
       Gps_message now json \<Rightarrow>
         (case handleData J strtof now json g of None \<Rightarrow> None | Some (_, g') \<Rightarrow> gps_run J strtof ps g')
     | Gps_offset off \<Rightarrow> gps_run J strtof ps (setTimingOffset off g))"

lemma gps_run_append:
  "gps_run J strtof (ps @ qs) g = (case gps_run J strtof ps g of None \<Rightarrow> None | Some g' \<Rightarrow> gps_run J strtof qs g')"
  by (induction ps arbitrary: g) (auto split: gps_op.split option.split)

text \<open>The samples of the messages with their arrivals, and the offsets, from the inputs alone.\<close>

definition arrivals :: "'j gps_lib \<Rightarrow> (string \<Rightarrow> u32 option) \<Rightarrow> 'j gps_op list \<Rightarrow> (u64 \<times> gps_data_t) list" where
  "arrivals J strtof ps = concat (map (\<lambda>p. case p of
     Gps_message now json \<Rightarrow> (case message_sample J strtof json of None \<Rightarrow> [] | Some d \<Rightarrow> [(now, d)])
   | Gps_offset _ \<Rightarrow> []) ps)"

definition offsets :: "'j gps_op list \<Rightarrow> u32 list" where
  "offsets ps = concat (map (\<lambda>p. case p of Gps_offset off \<Rightarrow> [off] | Gps_message _ _ \<Rightarrow> []) ps)"

definition gps_holds :: "(u64 \<times> gps_data_t) list \<Rightarrow> u32 \<Rightarrow> gps_estone \<Rightarrow> bool" where
  "gps_holds as off g \<longleftrightarrow> gps_data_buf g = latest GPS_BUF_LENGTH (map snd as) \<and>
    gps_rcv_tmout g = (if as = [] then None else Some (fst (last as))) \<and> timing_offset g = off"

lemma gps_run_holds:
  assumes "circular J"
  shows "gps_run J strtof ps g = Some g' \<Longrightarrow> gps_holds as off g \<Longrightarrow>
    gps_holds (as @ arrivals J strtof ps) (last (off # offsets ps)) g'"
proof (induction ps arbitrary: g as off)
  case Nil
  then show ?case by (simp add: arrivals_def offsets_def)
next
  case (Cons p ps)
  show ?case
  proof (cases p)
    case (Gps_message now json)
    with Cons.prems(1) obtain r g1 where h: "handleData J strtof now json g = Some (r, g1)"
      "gps_run J strtof ps g1 = Some g'" by (auto split: option.splits)
    from h(1) show ?thesis
    proof (cases rule: handleData_cases)
      case 1
      then show ?thesis using Cons.IH [OF h(2)] Cons.prems(2) Gps_message
        by (simp add: arrivals_def offsets_def)
    next
      case (2 d)
      have "gps_holds (as @ [(now, d)]) off g1"
        using Cons.prems(2) push_back_latest [OF assms, of GPS_BUF_LENGTH d]
        by (simp add: gps_holds_def 2 GPS_BUF_LENGTH_def)
      with Cons.IH [OF h(2) this] 2 Gps_message show ?thesis
        by (simp add: arrivals_def offsets_def)
    qed
  next
    case (Gps_offset o1)
    then have "gps_holds as o1 (setTimingOffset o1 g)"
      using Cons.prems(2) by (simp add: gps_holds_def setTimingOffset_def)
    with Cons.IH [of "setTimingOffset o1 g" as o1] Cons.prems(1) Gps_offset show ?thesis
      by (simp add: arrivals_def offsets_def)
  qed
qed

lemma gps_run_from_start:
  assumes "circular J" "gps_run J strtof ps GPSEstone = Some g"
  shows "gps_holds (arrivals J strtof ps) (last (0 # offsets ps)) g"
  using gps_run_holds [OF assms, of "[]" 0] by (simp add: gps_holds_def GPSEstone_def)

text \<open>C27: The ring against the messages themselves. After any messages and changes of the offset
  that the process survives, the buffer holds the samples of the latest 64 messages that carry one,
  in their order of arrival and each as it is read off its message field by field
  (\<open>message_sample\<close>); the time of arrival kept is that of the last of them (none before the
  first), and the offset is the last one that was set.\<close>

theorem gps_buffer_latest:
  assumes "gps_run J strtof ps GPSEstone = Some g" "circular J"
  shows "gps_data_buf g = latest 64 (map snd (arrivals J strtof ps)) \<and>
    gps_rcv_tmout g = (if arrivals J strtof ps = [] then None else Some (fst (last (arrivals J strtof ps)))) \<and>
    getTimingOffset g = last (0 # offsets ps)"
  using gps_run_from_start [OF assms(2,1)] by (simp add: gps_holds_def GPS_BUF_LENGTH_def getTimingOffset_def)

definition demo_ops :: "demo_json gps_op list" where
  "demo_ops = [Gps_message 5000 (demo_message ''-12'' ''99''), Gps_offset 7, Gps_message 6000 (demo_message ''x'' [])]"

lemma demo_ops_run: "gps_run demo_jsonc demo_strtof demo_ops GPSEstone \<noteq> None"
  by (simp add: demo_ops_def handleData_def json_eval number_eval string_to_int_def string_to_float_def validate_gps_def)

lemma demo_ops_arrivals:
  "arrivals demo_jsonc demo_strtof demo_ops = [(5000, \<lparr>latitude = - 12, longitude = 7, altitude = - 3,
     roll = 0x3f800000, pitch = 0x3f800000, yaw = 0x3f800000, time_stamp = 99\<rparr>)]"
  by (simp add: arrivals_def demo_ops_def message_sample_def int_field_def float_field_def json_eval number_eval)

theorem gps_buffer_latest_witness:
  "\<exists>g. gps_run demo_jsonc demo_strtof demo_ops GPSEstone = Some g \<and> getTimingOffset g = 7 \<and>
     gps_rcv_tmout g = Some 5000 \<and> gps_data_buf g =
       [\<lparr>latitude = - 12, longitude = 7, altitude = - 3, roll = 0x3f800000, pitch = 0x3f800000,
         yaw = 0x3f800000, time_stamp = 99\<rparr>]"
proof -
  obtain g where "gps_run demo_jsonc demo_strtof demo_ops GPSEstone = Some g" using demo_ops_run by blast
  moreover have "offsets demo_ops = [7]" by (simp add: offsets_def demo_ops_def)
  ultimately show ?thesis using gps_buffer_latest [OF _ demo_jsonc_circular]
    by (auto simp: demo_ops_arrivals latest_def)
qed

text \<open>A message that was printed from a sample: its integers and its time stamp in decimal, its angles as
  texts that \<open>strtof\<close> reads back.\<close>

definition carries :: "'j gps_lib \<Rightarrow> (string \<Rightarrow> u32 option) \<Rightarrow> 'j \<Rightarrow> gps_data_t \<Rightarrow> bool" where
  "carries J strtof json d \<longleftrightarrow>
    getStrFromJson J json ''data'' ''location'' ''latitude'' = Some (show_int (latitude d)) \<and>
    getStrFromJson J json ''data'' ''location'' ''longitude'' = Some (show_int (longitude d)) \<and>
    getStrFromJson J json ''data'' ''location'' ''altitude'' = Some (show_int (altitude d)) \<and>
    Option.bind (getStrFromJson J json ''data'' ''angles'' ''roll'') strtof = Some (roll d) \<and>
    Option.bind (getStrFromJson J json ''data'' ''angles'' ''pitch'') strtof = Some (pitch d) \<and>
    Option.bind (getStrFromJson J json ''data'' ''angles'' ''yaw'') strtof = Some (yaw d) \<and>
    getStrFromJson J json ''data'' ''time_stamp'' [] = Some (decimal (unat (time_stamp d)))"

lemma carries_sample:
  assumes "carries J strtof json d"
  shows "message_sample J strtof json = Some d"
proof -
  have "stoull (decimal (unat (time_stamp d))) = Some (time_stamp d)"
    using unsigned_less [of "time_stamp d", where 'a = nat] by (simp add: stoull_decimal)
  then show ?thesis using assms
    by (simp add: message_sample_Some carries_def int_field_def float_field_def strtol10_show_int)
qed

lemma carried_run:
  "list_all2 (\<lambda>(now, json) d. carries J strtof json d) ms ds \<Longrightarrow>
    \<exists>g'. gps_run J strtof (map (\<lambda>(now, json). Gps_message now json) ms) g = Some g' \<and>
      map snd (arrivals J strtof (map (\<lambda>(now, json). Gps_message now json) ms)) = ds"
proof (induction arbitrary: g rule: list_all2_induct)
  case (Cons m ms d ds)
  then show ?case
    using handleData_takes [OF carries_sample]
    by (cases m) (force simp: arrivals_def carries_sample)
qed (simp add: arrivals_def)

lemma lookup_result:
  assumes "ts \<noteq> 0"
    and sorted: "sorted_wrt (\<lambda>a b. time_stamp a < time_stamp b) (gps_data_buf g)"
    and nonempty: "gps_data_buf g \<noteq> []"
    and upto: "ts \<le> time_stamp (last (gps_data_buf g))"
    and single: "1 < length (gps_data_buf g) \<or> ts = time_stamp (last (gps_data_buf g))"
  shows "getGPSData g now ts = Done (0, Some
    (case filter (\<lambda>b. time_stamp b \<le> ts) (gps_data_buf g) of
       [] \<Rightarrow> hd (gps_data_buf g)
     | b # bs \<Rightarrow> last (b # bs)))"
proof -
  obtain b bs where buf: "gps_data_buf g = b # bs" using nonempty by (cases "gps_data_buf g") auto
  show ?thesis
  proof (cases "time_stamp b \<le> ts")
    case True
    have "search_buf ts now (gps_rcv_tmout g) None (gps_data_buf g) =
        Done (Some (last ([] @ filter (\<lambda>b. time_stamp b \<le> ts) (gps_data_buf g))))"
      using search_buf_before [OF sorted nonempty upto, of None] True by (simp add: buf)
    then show ?thesis using assms(1) nonempty True by (simp add: getGPSData_def buf)
  next
    case False
    then have lt: "ts < time_stamp b" by simp
    have "bs \<noteq> []" using single lt by (auto simp: buf)
    moreover have "filter (\<lambda>b. time_stamp b \<le> ts) (gps_data_buf g) = []"
      using sorted lt by (auto simp: buf filter_empty_conv dest: order.strict_trans)
    ultimately show ?thesis
      using search_buf_oldest [OF lt] sorted assms(1) by (simp add: getGPSData_def buf)
  qed
qed

text \<open>C20: The lookup of a time in samples of increasing times, when the time is not beyond the
  newest (and not before a single one): the result is the latest sample that is not after the
  time, or the oldest one when all are after it. Nothing is read that was not written.\<close>

theorem gps_lookup:
  assumes "ts \<noteq> 0"
    and sorted: "sorted_wrt (\<lambda>a b. time_stamp a < time_stamp b) (gps_data_buf g)"
    and nonempty: "gps_data_buf g \<noteq> []"
    and upto: "ts \<le> time_stamp (last (gps_data_buf g))"
    and single: "1 < length (gps_data_buf g) \<or> ts = time_stamp (last (gps_data_buf g))"
  shows "getGPSData g now ts = Done (0, Some
    (case filter (\<lambda>b. time_stamp b \<le> ts) (gps_data_buf g) of
       [] \<Rightarrow> hd (gps_data_buf g)
     | b # bs \<Rightarrow> last (b # bs)))"
  using assms by (rule lookup_result)

text \<open>The singleton after some messages, each with the time it arrives.\<close>

fun demo_gps :: "(u64 \<times> demo_json) list \<Rightarrow> gps_estone \<Rightarrow> gps_estone" where
  "demo_gps [] g = g"
| "demo_gps ((now, m) # ms) g =
    (case handleData demo_jsonc demo_strtof now m g of None \<Rightarrow> g | Some (r, g') \<Rightarrow> demo_gps ms g')"

lemma demo_gps_reachable:
  "gps_reachable demo_jsonc demo_strtof h g \<Longrightarrow> \<exists>h'. gps_reachable demo_jsonc demo_strtof h' (demo_gps ms g)"
  by (induction ms g arbitrary: h rule: demo_gps.induct)
    (auto split: option.split dest: gr_handle)

definition demo_two :: gps_estone where
  "demo_two = demo_gps [(5000, demo_message ''1'' ''100''), (6000, demo_message ''2'' ''200'')] GPSEstone"

lemma demo_two_buf: "map time_stamp (gps_data_buf demo_two) = [100, 200]"
  by (simp add: demo_two_def handleData_def json_eval number_eval string_to_int_def
      string_to_float_def validate_gps_def demo_jsonc_def GPS_BUF_LENGTH_def GPSEstone_def)

theorem gps_lookup_witness:
  "\<exists>d. getGPSData demo_two 9000 150 = Done (0, Some d) \<and> time_stamp d = 100"
proof -
  obtain a b where ab: "gps_data_buf demo_two = [a, b]" "time_stamp a = 100" "time_stamp b = 200"
    using demo_two_buf by (auto simp: map_eq_Cons_conv)
  show ?thesis using gps_lookup [of 150 demo_two 9000] by (simp add: ab)
qed

lemma own_time_lookup:
  assumes "sorted_wrt (\<lambda>a b. time_stamp a < time_stamp b) (gps_data_buf g)" "d \<in> set (gps_data_buf g)"
    "time_stamp d \<noteq> 0"
  shows "getGPSData g now (time_stamp d) = Done (0, Some d)"
proof -
  obtain xs ys where buf: "gps_data_buf g = xs @ d # ys" using assms(2) split_list by fast
  have up: "time_stamp d \<le> time_stamp (last (gps_data_buf g))"
    using assms(1) by (cases "ys = []") (auto simp: buf sorted_wrt_append intro: less_imp_le)
  have single: "1 < length (gps_data_buf g) \<or> time_stamp d = time_stamp (last (gps_data_buf g))"
    by (cases xs; cases ys) (simp_all add: buf)
  have "filter (\<lambda>b. time_stamp b \<le> time_stamp d) xs = xs" "filter (\<lambda>b. time_stamp b \<le> time_stamp d) ys = []"
    using assms(1) by (auto simp: buf sorted_wrt_append filter_empty_conv intro!: filter_True)
  then have "filter (\<lambda>b. time_stamp b \<le> time_stamp d) (gps_data_buf g) = xs @ [d]" by (simp add: buf)
  then show ?thesis
    using lookup_result [OF assms(3,1) _ up single, of now] by (cases xs) (simp_all add: buf)
qed

text \<open>C29: Samples survive the way through the messages. When every message carries a sample (its
  integers in signed decimal, its time stamp in decimal, angles that \<open>strtof\<close> reads), the
  handler takes all of them and the process lives; the ring is then the latest 64 samples themselves, bit
  for bit, and if their time stamps increase, looking one of these up by its own time stamp gives it
  back, however late the lookup is.\<close>

theorem gps_samples_kept:
  assumes "list_all2 (\<lambda>(now, json) d. carries J strtof json d) ms ds" "circular J"
  shows "\<exists>g. gps_run J strtof (map (\<lambda>(now, json). Gps_message now json) ms) GPSEstone = Some g \<and>
    gps_data_buf g = latest 64 ds \<and>
    (sorted_wrt (\<lambda>a b. time_stamp a < time_stamp b) ds \<longrightarrow>
      (\<forall>now. \<forall>d\<in>set (latest 64 ds). time_stamp d \<noteq> 0 \<longrightarrow> getGPSData g now (time_stamp d) = Done (0, Some d)))"
proof -
  from carried_run [OF assms(1), of GPSEstone] obtain g where
    g: "gps_run J strtof (map (\<lambda>(now, json). Gps_message now json) ms) GPSEstone = Some g"
    "map snd (arrivals J strtof (map (\<lambda>(now, json). Gps_message now json) ms)) = ds" by blast
  from gps_run_from_start [OF assms(2) g(1)] have buf: "gps_data_buf g = latest 64 ds"
    by (simp add: gps_holds_def GPS_BUF_LENGTH_def g(2))
  have "sorted_wrt (\<lambda>a b. time_stamp a < time_stamp b) (latest 64 ds)"
    if "sorted_wrt (\<lambda>a b. time_stamp a < time_stamp b) ds"
    using that by (simp add: latest_def sorted_wrt_drop)
  with g(1) buf own_time_lookup [of g] show ?thesis by auto
qed

definition demo_taken :: gps_estone where
  "demo_taken = GPSEstone\<lparr>gps_rcv_tmout := Some 5000, gps_data_buf :=
     [\<lparr>latitude = - 12, longitude = 7, altitude = - 3, roll = 0x3f800000, pitch = 0x3f800000,
       yaw = 0x3f800000, time_stamp = 99\<rparr>]\<rparr>"

lemma demo_message_taken:
  "handleData demo_jsonc demo_strtof 5000 (demo_message ''-12'' ''99'') GPSEstone = Some (0, demo_taken)"
  by (simp add: handleData_def json_eval number_eval string_to_int_def string_to_float_def validate_gps_def
      demo_taken_def GPSEstone_def GPS_BUF_LENGTH_def)

theorem gps_samples_kept_witness:
  "\<exists>g d. gps_run demo_jsonc demo_strtof (map (\<lambda>(now, json). Gps_message now json)
     [(5000, demo_message ''-12'' ''99''), (6000, demo_message ''13'' ''150'')]) GPSEstone = Some g \<and>
   getGPSData g 9000 99 = Done (0, Some d) \<and> latitude d = - 12"
proof -
  define d1 d2 where "d1 = \<lparr>latitude = - 12, longitude = 7, altitude = - 3, roll = 0x3f800000,
      pitch = 0x3f800000, yaw = 0x3f800000, time_stamp = 99\<rparr>" and
    "d2 = \<lparr>latitude = 13, longitude = 7, altitude = - 3, roll = 0x3f800000,
      pitch = 0x3f800000, yaw = 0x3f800000, time_stamp = 150\<rparr>"
  have dec: "decimal 12 = ''12''" "decimal 13 = ''13''" "decimal 7 = ''7''" "decimal 3 = ''3''"
    "decimal 99 = ''99''" "decimal 150 = ''150''" by code_simp+
  have "carries demo_jsonc demo_strtof (demo_message ''-12'' ''99'') d1"
    by (simp add: carries_def json_eval d1_def show_int_def dec)
  moreover have "carries demo_jsonc demo_strtof (demo_message ''13'' ''150'') d2"
    by (simp add: carries_def json_eval d2_def show_int_def dec)
  ultimately have "list_all2 (\<lambda>(now, json) d. carries demo_jsonc demo_strtof json d)
     [(5000 :: u64, demo_message ''-12'' ''99''), (6000, demo_message ''13'' ''150'')] [d1, d2]" by simp
  from gps_samples_kept [OF this demo_jsonc_circular] show ?thesis
    by (auto simp: latest_def d1_def d2_def)
qed

text \<open>The lookup of a time after all samples: the newest sample is handed out, as it is when
  the last message arrived at most two seconds ago (or in the future), and otherwise with its
  position all ones (-1) and its angles \<open>2^32\<close>; its time stamp is kept, and so is the buffer's
  own copy.\<close>

theorem gps_silence:
  assumes "gps_reachable J strtof h g" "ts \<noteq> 0" "h \<noteq> []" "circular J"
    and "list_all (\<lambda>b. time_stamp b < ts) (gps_data_buf g)"
  shows "\<exists>t d. gps_rcv_tmout g = Some t \<and> getGPSData g now ts = Done (0, Some d) \<and>
    time_stamp d = time_stamp (last (gps_data_buf g)) \<and>
    (if unat t + 2000 < unat now
     then latitude d = - 1 \<and> longitude d = - 1 \<and> altitude d = - 1 \<and>
       roll d = 0x4F800000 \<and> pitch d = 0x4F800000 \<and> yaw d = 0x4F800000
     else d = last (gps_data_buf g))"
proof -
  have "gps_data_buf g \<noteq> []" "gps_rcv_tmout g \<noteq> None"
    using gps_inv_reachable [OF assms(1,4)] assms(3)
    by (auto simp: gps_inv_def GPS_BUF_LENGTH_def latest_eq_Nil)
  then obtain t where t: "gps_rcv_tmout g = Some t" by blast
  have get: "getGPSData g now ts = Done (0, Some (stale now t (last (gps_data_buf g))))"
    using assms(2,5) \<open>gps_data_buf g \<noteq> []\<close> by (simp add: getGPSData_def search_buf_after t)
  have cond: "t < now \<and> 2000 < now - t \<longleftrightarrow> unat t + 2000 < unat now"
    by (auto simp: word_less_nat_alt unat_sub_if_size word_le_nat_alt)
  have "time_stamp (stale now t (last (gps_data_buf g))) = time_stamp (last (gps_data_buf g))"
    by (simp add: stale_def)
  then show ?thesis
    using get t by (auto simp: stale_def cond float_of_0xffffffff_def)
qed

theorem gps_silence_witness:
  "(\<exists>d. getGPSData demo_two 9000 300 = Done (0, Some d) \<and> latitude d = - 1) \<and>
   getGPSData demo_two 7000 300 = Done (0, Some (last (gps_data_buf demo_two)))"
proof -
  obtain h where h: "gps_reachable demo_jsonc demo_strtof h demo_two"
    using demo_gps_reachable [OF gr_start] unfolding demo_two_def by blast
  obtain a b where ab: "gps_data_buf demo_two = [a, b]" "time_stamp a = 100" "time_stamp b = 200"
    using demo_two_buf by (auto simp: map_eq_Cons_conv)
  have t: "gps_rcv_tmout demo_two = Some 6000"
    by (simp add: demo_two_def handleData_def json_eval number_eval string_to_int_def
        string_to_float_def validate_gps_def)
  have "h \<noteq> []" using gps_inv_reachable [OF h demo_jsonc_circular] ab(1) by (auto simp: gps_inv_def)
  then show ?thesis
    using gps_silence [OF h, of 300 9000] gps_silence [OF h, of 300 7000] demo_jsonc_circular by (auto simp: ab t)
qed

end
