(* ===== verification/SeiEncoder.thy ===== *)
theory SeiEncoder
  imports GpsEstone
begin

text \<open>
  \<open>src/src/sei_encoder.cpp\<close> (the encoder in use; the second half of the file is compiled out):
  a GPS sample as an H.264 unit of supplemental information. The reference is the decoder that
  the H.264 standard prescribes: it removes every byte 3 that follows two zero bytes.
\<close>

definition SEI_HEAD :: "byte list" where
  "SEI_HEAD = [0x00, 0x00, 0x00, 0x01, 0x06, 0x05, 0x28,
    0x13, 0x9F, 0xB1, 0xA9, 0x44, 0x6A, 0x4D, 0xEC,
    0x8C, 0xBF, 0x65, 0xB1, 0xE1, 0x2D, 0x2C, 0xFD]"

text \<open>The 24 bytes of \<open>tmp\<close>.\<close>

definition sei_tmp :: "gps_data_t \<Rightarrow> byte list" where
  "sei_tmp d = le_bytes32 (longitude d) @ le_bytes32 (latitude d) @ le_bytes32 (altitude d) @
     le_bytes32 (pitch d) @ le_bytes32 (yaw d) @ le_bytes32 (roll d)"

text \<open>The loop; \<open>a\<close> is the vector it fills.\<close>

fun sei_loop :: "nat \<Rightarrow> byte list \<Rightarrow> byte list \<Rightarrow> byte list" where
  "sei_loop zero_counter a [] = a"
| "sei_loop zero_counter a (t # tmp) =
    (let a = a @ [t];
         zero_counter = (if t = 0x00 then zero_counter + 1 else 0)
     in if zero_counter = 2 then sei_loop 0 (a @ [0x03]) tmp else sei_loop zero_counter a tmp)"

text \<open>\<open>SeiEncoder::encode\<close>: the bytes written to \<open>encoded_data\<close> and the length.\<close>

definition sei_encode :: "gps_data_t \<Rightarrow> byte list \<times> nat" where
  "sei_encode d = (let a = sei_loop 0 [] (sei_tmp d) in (SEI_HEAD @ a, length a + 23))"

subsection \<open>Emulation prevention\<close>

fun escape :: "nat \<Rightarrow> byte list \<Rightarrow> byte list" where
  "escape z [] = []"
| "escape z (b # bs) =
    (if b \<noteq> 0 then b # escape 0 bs
     else if z = 1 then b # 3 # escape 0 bs
     else b # escape (z + 1) bs)"

lemma sei_loop_escape: "z < 2 \<Longrightarrow> sei_loop z a bs = a @ escape z bs"
  by (induction z a bs rule: sei_loop.induct) (auto simp: Let_def)

text \<open>
  The decoder of the standard; \<open>z\<close> counts the zero bytes just read (at least two count as two).
\<close>

fun unescape :: "nat \<Rightarrow> byte list \<Rightarrow> byte list" where
  "unescape z [] = []"
| "unescape z (b # bs) =
    (if 2 \<le> z \<and> b = 3 then unescape 0 bs
     else b # unescape (if b = 0 then z + 1 else 0) bs)"

lemma unescape_escape: "z < 2 \<Longrightarrow> unescape z (escape z bs) = bs"
  by (induction z bs rule: escape.induct) (auto simp: less_2_cases_iff)

interpretation emulation: encoding "escape 0" "unescape 0"
  by unfold_locales (simp add: unescape_escape)

text \<open>No three bytes \<open>0 0 x\<close> with \<open>x < 3\<close>; the counter as above.\<close>

fun no_emulation :: "nat \<Rightarrow> byte list \<Rightarrow> bool" where
  "no_emulation z [] = True"
| "no_emulation z (b # bs) =
    ((2 \<le> z \<longrightarrow> 3 \<le> b) \<and> no_emulation (if b = 0 then z + 1 else 0) bs)"

lemma no_emulation_escape: "z < 2 \<Longrightarrow> no_emulation z (escape z bs)"
  by (induction z bs rule: escape.induct) (auto simp: less_2_cases_iff)

lemma no_emulation_window:
  "no_emulation z (xs @ 0 # 0 # x # ys) \<Longrightarrow> 3 \<le> x"
  by (induction xs arbitrary: z) (auto split: if_splits)

lemma length_escape: "length bs \<le> length (escape z bs)"
  "z < 2 \<Longrightarrow> 2 * length (escape z bs) \<le> 3 * length bs + z"
  by (induction z bs rule: escape.induct) (auto simp: less_2_cases_iff)

subsection \<open>The encoder\<close>

lemma length_sei_tmp [simp]: "length (sei_tmp d) = 24"
  by (simp add: sei_tmp_def)

lemma sei_encode_escape: "sei_encode d = (SEI_HEAD @ escape 0 (sei_tmp d), length (escape 0 (sei_tmp d)) + 23)"
  by (simp add: sei_encode_def sei_loop_escape Let_def)

lemma sei_body: "unescape 0 (drop 4 (SEI_HEAD @ escape 0 bs)) = drop 4 SEI_HEAD @ bs"
  by (simp add: SEI_HEAD_def unescape_escape)

text \<open>Units of different samples are different.\<close>

lemma sei_encode_eq_iff: "fst (sei_encode d) = fst (sei_encode e) \<longleftrightarrow> sei_tmp d = sei_tmp e"
  by (simp add: sei_encode_escape emulation.enc_eq_iff)

text \<open>Reading a decoded unit: the payload type, size and identifier, then the six words.\<close>

definition sei_decode :: "byte list \<Rightarrow> u32 list option" where
  "sei_decode unit =
    (let rbsp = unescape 0 (drop 4 unit)
     in if take 4 unit = take 4 SEI_HEAD \<and> take 19 rbsp = drop 4 SEI_HEAD \<and> length rbsp = 43
        then Some (map (\<lambda>i. le_word32 (window (19 + 4 * i) 4 rbsp)) [0..<6]) else None)"

lemma sei_encode_decodes:
  "sei_decode (fst (sei_encode d)) =
     Some [longitude d, latitude d, altitude d, pitch d, yaw d, roll d]"
proof -
  let ?ws = "[longitude d, latitude d, altitude d, pitch d, yaw d, roll d]"
  have tmp: "sei_tmp d = concat (map le_bytes32 ?ws)" by (simp add: sei_tmp_def)
  have head: "take 4 (fst (sei_encode d)) = take 4 SEI_HEAD"
    by (simp add: sei_encode_escape SEI_HEAD_def)
  have rbsp: "unescape 0 (drop 4 (fst (sei_encode d))) = drop 4 SEI_HEAD @ sei_tmp d"
    by (simp add: sei_encode_escape sei_body del: drop_append)
  have len: "length (drop 4 SEI_HEAD) = 19" by (simp add: SEI_HEAD_def)
  have field: "window (19 + 4 * i) 4 (drop 4 SEI_HEAD @ sei_tmp d) = le_bytes32 (?ws ! i)"
    if "i < 6" for i
  proof -
    have "window (19 + 4 * i) 4 (drop 4 SEI_HEAD @ sei_tmp d) = window (4 * i) 4 (sei_tmp d)"
      using len by (simp add: window_def)
    then show ?thesis using window_words [of i ?ws] that by (simp add: tmp)
  qed
  have "map (\<lambda>i. le_word32 (window (19 + 4 * i) 4 (drop 4 SEI_HEAD @ sei_tmp d))) [0..<6] =
      map (\<lambda>i. ?ws ! i) [0..<6]"
    by (rule map_cong) (auto simp: field)
  also have "\<dots> = ?ws" by (simp add: upt_rec)
  finally show ?thesis
    using len by (simp add: sei_decode_def head rbsp Let_def)
qed

text \<open>C16: A decoder that follows the standard (take off the start code, remove the bytes of emulation
  prevention, check the payload header and the identifier) recovers the six numbers of the
  sample from the unit, in the order longitude, latitude, altitude, pitch, yaw, roll.\<close>

theorem sei_round_trip:
  "sei_decode (fst (sei_encode d)) =
     Some [longitude d, latitude d, altitude d, pitch d, yaw d, roll d]"
  by (rule sei_encode_decodes)

lemma sei_unit_length: "47 \<le> length (fst (sei_encode d))" "length (fst (sei_encode d)) \<le> 59"
  using length_escape [where z = 0 and bs = "sei_tmp d"]
  by (simp_all add: sei_encode_escape SEI_HEAD_def)

text \<open>The unit is at least 47 and at most 59 bytes long, so that it fits the 128-byte buffers
  of its callers, the returned length is the number of bytes written, and after the start code no
  two zero bytes are followed by a byte below 3: the unit holds no second start code.\<close>

theorem sei_unit_shape:
  "length (fst (sei_encode d)) = snd (sei_encode d) \<and>
   47 \<le> snd (sei_encode d) \<and> snd (sei_encode d) \<le> 59 \<and>
   no_emulation 0 (drop 4 (fst (sei_encode d)))"
  using sei_unit_length [of d]
  by (simp add: sei_encode_escape SEI_HEAD_def no_emulation_escape)

end
