(* ===== verification/MediaRecorder.thy ===== *)
theory MediaRecorder
  imports SeiEncoder
begin

text \<open>
  \<open>src/src/media_recorder.cpp\<close>: recording of video frames with libav. The library is a
  parameter: what its calls answer is an argument (\<open>av_start\<close>, \<open>av_frame\<close>), and what the
  recorder asks of it is the sequence of its calls. The context pointer \<open>f_ctx\<close> is \<open>Wild\<close> until
  it is first set and after the context is freed, \<open>Null\<close> after a failed allocation (which is what
  libav documents), and otherwise \<open>Live b\<close>, where \<open>b\<close> tells whether the context has a stream; an
  operation that uses a context or a stream that is not there has the result \<open>Fault\<close>. Every operation runs
  under the spin lock or before the recorder is shared, so an operation is one step.
\<close>

subsection \<open>State\<close>

datatype RECORD_STATUS = RECORD_STATUS_RECORDING | RECORD_STATUS_READY

datatype av_context = Wild | Null | Live bool

datatype AVCodecID = AV_CODEC_ID_H264 | AV_CODEC_ID_H265

record media_recorder =
  record_path :: string
  name_prefix :: string
  recordStatus :: RECORD_STATUS
  f_ctx :: av_context
  start_time :: int

datatype av_call =
    AllocOutputContext string
  | AvioOpen string
  | NewStream AVCodecID int int int
  | WriteHeader
  | PacketFromData "byte list"
  | WriteFrame "byte list" int
  | WriteTrailer
  | FreeContext

text \<open>What the calls of libav return in one run of \<open>start_record\<close> and of \<open>write_one_frame\<close>.\<close>

record av_start =
  alloc_ret :: int
  avio_ret :: int
  stream_ok :: bool
  header_ret :: int

record av_frame =
  packet_ret :: int
  write_ret :: int

definition MediaRecorder :: "string \<Rightarrow> media_recorder" where
  "MediaRecorder path = \<lparr>record_path = path, name_prefix = ''video'',
     recordStatus = RECORD_STATUS_READY, f_ctx = Wild, start_time = 0\<rparr>"

definition setPath :: "string \<Rightarrow> media_recorder \<Rightarrow> media_recorder" where
  "setPath p r = r\<lparr>record_path := p\<rparr>"

definition setPrefix :: "string \<Rightarrow> media_recorder \<Rightarrow> media_recorder" where
  "setPrefix p r = r\<lparr>name_prefix := p\<rparr>"

definition getRecordStatus :: "media_recorder \<Rightarrow> RECORD_STATUS" where
  "getRecordStatus r = recordStatus r"

subsection \<open>Operations\<close>

text \<open>
  \<open>get_timestamp\<close>: milliseconds since the start, rescaled by \<open>av_rescale_q\<close> to the time base
  of the stream.
\<close>

definition get_timestamp :: "(int \<Rightarrow> int) \<Rightarrow> int \<Rightarrow> media_recorder \<Rightarrow> int" where
  "get_timestamp rescale t r = rescale (t - start_time r)"

definition createVideoStream :: "AVCodecID \<Rightarrow> int \<Rightarrow> int \<Rightarrow> int \<Rightarrow> av_call list" where
  "createVideoStream codec_id width height frame_rate = [NewStream codec_id width height frame_rate]"

definition start_record ::
    "av_start \<Rightarrow> int \<Rightarrow> string \<Rightarrow> AVCodecID \<Rightarrow> int \<Rightarrow> int \<Rightarrow> int \<Rightarrow> string \<Rightarrow> media_recorder \<Rightarrow>
     int \<times> av_call list \<times> media_recorder" where
  "start_record av now time_str codec width height framerate file_name r =
    (let full_path = record_path r @ ''/'' @ name_prefix r @ time_str @ file_name in
     if alloc_ret av \<noteq> 0 then (alloc_ret av, [AllocOutputContext full_path], r\<lparr>f_ctx := Null\<rparr>)
     else if avio_ret av \<noteq> 0 then
       (avio_ret av, [AllocOutputContext full_path, AvioOpen full_path], r\<lparr>f_ctx := Live False\<rparr>)
     else
       let calls = [AllocOutputContext full_path, AvioOpen full_path] @
             createVideoStream codec width height framerate @ [WriteHeader];
           r = r\<lparr>f_ctx := Live (stream_ok av), start_time := now\<rparr>
       in if header_ret av \<noteq> 0 then (- 1, calls, r)
          else (header_ret av, calls, r\<lparr>recordStatus := RECORD_STATUS_RECORDING\<rparr>))"

definition stop_record :: "media_recorder \<Rightarrow> (int \<times> av_call list \<times> media_recorder) run" where
  "stop_record r =
    (if f_ctx r \<in> {Live False, Live True}
     then Done (0, [WriteTrailer, FreeContext], r\<lparr>recordStatus := RECORD_STATUS_READY, f_ctx := Wild\<rparr>)
     else Fault)"

text \<open>
  The GPS sample a frame is labelled with; \<open>junk\<close> is the uninitialised local variable, which
  stays as it is when the receiver has no sample (the callers ignore its -1).
\<close>

definition gps_for_frame :: "gps_data_t \<Rightarrow> gps_estone \<Rightarrow> u64 \<Rightarrow> gps_data_t run" where
  "gps_for_frame junk g now =
    (case getGPSData g now (now - scast (getTimingOffset g)) of
       Fault \<Rightarrow> Fault
     | Done (_, None) \<Rightarrow> Done junk
     | Done (_, Some d) \<Rightarrow> Done d)"

text \<open>
  \<open>frame\<close> is the memory of \<open>size\<close> bytes at \<open>addr\<close>; \<open>now\<close> is the clock of the GPS lookup, \<open>t\<close>
  the one of the time stamp. \<open>now\<close> stands for two reads that follow on each other, the time that is looked up
  and the one that \<open>getGPSData\<close> compares with the last arrival; the copy of the frame that is allocated
  and freed around the call of libav has no effect of its own and is left out.
\<close>

definition write_one_frame ::
    "av_frame \<Rightarrow> (int \<Rightarrow> int) \<Rightarrow> gps_data_t \<Rightarrow> gps_estone \<Rightarrow> u64 \<Rightarrow> int \<Rightarrow> byte list \<Rightarrow> media_recorder \<Rightarrow>
     (int \<times> av_call list) run" where
  "write_one_frame av rescale junk g now t frame r =
    (case gps_for_frame junk g now of
       Fault \<Rightarrow> Fault
     | Done gps_data \<Rightarrow>
         let (sei_data, sei_length) = sei_encode gps_data;
             frame_with_sei = take sei_length sei_data @ frame
         in if packet_ret av \<noteq> 0 then Done (- 1, [PacketFromData frame_with_sei])
            else if f_ctx r \<noteq> Live True then Fault
            else Done (write_ret av,
              [PacketFromData frame_with_sei, WriteFrame frame_with_sei (get_timestamp rescale t r)]))"

definition recorder_onFrameReceivedCallback ::
    "av_frame \<Rightarrow> (int \<Rightarrow> int) \<Rightarrow> gps_data_t \<Rightarrow> gps_estone \<Rightarrow> u64 \<Rightarrow> int \<Rightarrow> byte list \<Rightarrow> media_recorder \<Rightarrow>
     av_call list run" where
  "recorder_onFrameReceivedCallback av rescale junk g now t frame r =
    (if recordStatus r = RECORD_STATUS_RECORDING
     then (case write_one_frame av rescale junk g now t frame r of
         Fault \<Rightarrow> Fault | Done (_, calls) \<Rightarrow> Done calls)
     else Done [])"

subsection \<open>The steps of a recorder\<close>

text \<open>
  The operations as the rest of the program uses them: a recording is started when none runs
  and stopped when one runs; frames arrive at any time. libav refuses to write the header of a context
  without streams (\<open>av_documented\<close>).
\<close>

definition av_documented :: "av_start \<Rightarrow> bool" where
  "av_documented av \<longleftrightarrow> (header_ret av = 0 \<longrightarrow> stream_ok av)"

inductive recorder_step :: "media_recorder \<Rightarrow> av_call list \<Rightarrow> media_recorder \<Rightarrow> bool" where
  rs_path: "recorder_step r [] (setPath p r)"
| rs_prefix: "recorder_step r [] (setPrefix p r)"
| rs_start: "av_documented av \<Longrightarrow> getRecordStatus r \<noteq> RECORD_STATUS_RECORDING \<Longrightarrow>
    start_record av now time_str codec width height framerate file_name r = (ret, calls, r') \<Longrightarrow>
    recorder_step r calls r'"
| rs_stop: "getRecordStatus r = RECORD_STATUS_RECORDING \<Longrightarrow>
    stop_record r = Done (ret, calls, r') \<Longrightarrow> recorder_step r calls r'"
| rs_frame: "recorder_onFrameReceivedCallback av rescale junk g now t frame r = Done calls \<Longrightarrow>
    recorder_step r calls r"

inductive recorder_run :: "string \<Rightarrow> av_call list \<Rightarrow> media_recorder \<Rightarrow> bool" for path where
  rr_start: "recorder_run path [] (MediaRecorder path)"
| rr_step: "recorder_run path cs r \<Longrightarrow> recorder_step r calls r' \<Longrightarrow> recorder_run path (cs @ calls) r'"

text \<open>
  The abstract recorder: which calls libav permits in which phase. \<open>Idle\<close> has no context;
  a context is \<open>Allocated\<close>, its file \<open>Opened\<close>, its stream \<open>Described\<close> and its header asked for
  (\<open>Started\<close>); only then are frames and the trailer written. A context whose preparation failed is
  given up by allocating the next one.
\<close>

datatype phase = Idle | Allocated | Opened | Described | Started

fun phase_step :: "phase \<Rightarrow> av_call \<Rightarrow> phase option" where
  "phase_step p (AllocOutputContext f) = Some Allocated"
| "phase_step p (AvioOpen f) = (if p = Allocated then Some Opened else None)"
| "phase_step p (NewStream c w h r) = (if p = Opened then Some Described else None)"
| "phase_step p WriteHeader = (if p = Described then Some Started else None)"
| "phase_step p (PacketFromData d) = Some p"
| "phase_step p (WriteFrame d ts) = (if p = Started then Some Started else None)"
| "phase_step p WriteTrailer = (if p = Started then Some Started else None)"
| "phase_step p FreeContext = (if p \<noteq> Idle then Some Idle else None)"

fun phases :: "phase \<Rightarrow> av_call list \<Rightarrow> phase option" where
  "phases p [] = Some p"
| "phases p (c # cs) = Option.bind (phase_step p c) (\<lambda>q. phases q cs)"

lemma phases_append: "phases p (cs @ ds) = Option.bind (phases p cs) (\<lambda>q. phases q ds)"
  by (induction p cs rule: phases.induct) (auto split: Option.bind_split)

definition recorder_inv :: "phase \<Rightarrow> media_recorder \<Rightarrow> bool" where
  "recorder_inv p r \<longleftrightarrow> (recordStatus r = RECORD_STATUS_RECORDING \<longrightarrow> f_ctx r = Live True \<and> p = Started)"

lemmas recorder_op_defs = start_record_def stop_record_def write_one_frame_def
  recorder_onFrameReceivedCallback_def setPath_def setPrefix_def getRecordStatus_def
  createVideoStream_def

lemma start_record_phases:
  assumes "start_record av now ts c w h fps f r = (ret, calls, r')"
    and "recordStatus r \<noteq> RECORD_STATUS_RECORDING" "av_documented av"
  shows "\<exists>q. phases p calls = Some q \<and> recorder_inv q r'"
  using assms by (auto simp: start_record_def Let_def recorder_inv_def createVideoStream_def
      av_documented_def split: if_splits)

lemma frame_phases:
  assumes "recorder_onFrameReceivedCallback av rescale junk g now t frame r = Done calls"
    and "recorder_inv p r"
  shows "phases p calls = Some p"
  using assms
  by (auto simp: recorder_onFrameReceivedCallback_def write_one_frame_def recorder_inv_def Let_def
      split: if_splits run.splits prod.splits)

lemma recorder_step_phases:
  assumes "recorder_step r calls r'" "recorder_inv p r"
  shows "\<exists>q. phases p calls = Some q \<and> recorder_inv q r'"
  using assms
proof (cases rule: recorder_step.cases)
  case (rs_start av now time_str codec width height framerate file_name ret)
  then show ?thesis using start_record_phases by (auto simp: getRecordStatus_def)
next
  case (rs_stop ret)
  then show ?thesis using assms(2)
    by (auto simp: stop_record_def recorder_inv_def getRecordStatus_def split: if_splits)
next
  case (rs_frame av rescale junk g now t frame)
  then show ?thesis using frame_phases assms(2) by blast
qed (use assms(2) in \<open>auto simp: recorder_inv_def setPath_def setPrefix_def\<close>)

lemma recorder_run_phases:
  "recorder_run path cs r \<Longrightarrow> \<exists>p. phases Idle cs = Some p \<and> recorder_inv p r"
proof (induction rule: recorder_run.induct)
  case rr_start
  then show ?case by (simp add: recorder_inv_def MediaRecorder_def)
next
  case (rr_step cs r calls r')
  then obtain p where "phases Idle cs = Some p" "recorder_inv p r" by blast
  with recorder_step_phases [OF rr_step.hyps(2)] show ?case by (auto simp: phases_append)
qed

subsection \<open>The label of a frame\<close>

lemma getGPSData_total:
  assumes "gps_reachable J strtof h g" "h \<noteq> []" "circular J"
  shows "\<exists>d. getGPSData g now ts = Done (0, Some d)"
proof -
  have "gps_data_buf g \<noteq> []" "gps_rcv_tmout g \<noteq> None"
    using gps_inv_reachable [OF assms(1,3)] assms(2)
    by (auto simp: gps_inv_def GPS_BUF_LENGTH_def latest_eq_Nil)
  then obtain t where t: "gps_rcv_tmout g = Some t" "gps_data_buf g \<noteq> []" by blast
  then obtain d where "search_buf ts now (Some t) None (gps_data_buf g) = Done (Some d)"
    using search_buf_found by blast
  then show ?thesis using t by (cases "ts = 0") (simp_all add: getGPSData_def)
qed

lemma getGPSData_empty:
  assumes "gps_reachable J strtof [] g" "circular J"
  shows "getGPSData g now ts = Done (- 1, None)"
  using gps_inv_reachable [OF assms(1,2)] by (simp add: gps_inv_def getGPSData_def)

lemma gps_for_frame_no_fault:
  assumes "gps_reachable J strtof h g" "circular J"
  shows "\<exists>d. gps_for_frame junk g now = Done d"
  using getGPSData_total [OF assms(1) _ assms(2), of now "now - scast (getTimingOffset g)"] getGPSData_empty assms
  by (cases "h = []") (fastforce simp: gps_for_frame_def)+

lemma take_sei [simp]: "take (snd (sei_encode d)) (fst (sei_encode d)) = fst (sei_encode d)"
  by (simp add: sei_encode_def Let_def SEI_HEAD_def)

lemma recorder_on_recording:
  assumes "recordStatus r = RECORD_STATUS_RECORDING" "f_ctx r = Live True" "gps_for_frame junk g now = Done d"
  shows "recorder_onFrameReceivedCallback av rescale junk g now t frame r =
    Done (PacketFromData (fst (sei_encode d) @ frame) #
      (if packet_ret av = 0
       then [WriteFrame (fst (sei_encode d) @ frame) (get_timestamp rescale t r)] else []))"
  using assms
  by (simp add: recorder_onFrameReceivedCallback_def write_one_frame_def Let_def case_prod_unfold)

subsection \<open>Properties\<close>

text \<open>C14: The recorder keeps to the protocol of libav. Whatever paths, failures of libav, starts,
  stops and frames it has seen (a start only when it is not recording, a stop only when it is),
  the calls it made are accepted by the abstract recorder: a context is allocated, its file opened,
  its stream described and its header written before any frame, the trailer comes after the
  frames, and nothing is used after it is freed. While it records the header is written, so that it
  can be stopped, and a frame is always handled without a fault.\<close>

theorem recorder_protocol:
  assumes "recorder_run path cs r" "gps_reachable J strtof h g" "circular J"
  shows "\<exists>p. phases Idle cs = Some p \<and>
    (recordStatus r = RECORD_STATUS_RECORDING \<longrightarrow> p = Started \<and>
      stop_record r = Done (0, [WriteTrailer, FreeContext],
        r\<lparr>recordStatus := RECORD_STATUS_READY, f_ctx := Wild\<rparr>)) \<and>
    recorder_onFrameReceivedCallback av rescale junk g now t frame r \<noteq> Fault"
proof -
  obtain p where p: "phases Idle cs = Some p" and inv: "recorder_inv p r"
    using recorder_run_phases [OF assms(1)] by blast
  obtain d where d: "gps_for_frame junk g now = Done d"
    using gps_for_frame_no_fault [OF assms(2,3)] by blast
  have "recorder_onFrameReceivedCallback av rescale junk g now t frame r \<noteq> Fault"
  proof (cases "recordStatus r = RECORD_STATUS_RECORDING")
    case True
    then show ?thesis using inv recorder_on_recording [OF True _ d] by (simp add: recorder_inv_def)
  next
    case False
    then show ?thesis by (simp add: recorder_onFrameReceivedCallback_def)
  qed
  then show ?thesis using p inv by (auto simp: recorder_inv_def stop_record_def)
qed

definition demo_av :: av_start where
  "demo_av = \<lparr>alloc_ret = 0, avio_ret = 0, stream_ok = True, header_ret = 0\<rparr>"

definition demo_recording :: media_recorder where
  "demo_recording = snd (snd (start_record demo_av 1000 ''230101120000'' AV_CODEC_ID_H264 1920 1080 25
     ''.avi'' (MediaRecorder ''/sd'')))"

lemma demo_recording_run:
  "\<exists>cs. recorder_run ''/sd'' cs demo_recording \<and> recordStatus demo_recording = RECORD_STATUS_RECORDING"
proof -
  have eq: "start_record demo_av 1000 ''230101120000'' AV_CODEC_ID_H264 1920 1080 25 ''.avi''
      (MediaRecorder ''/sd'') = (0, fst (snd (start_record demo_av 1000 ''230101120000'' AV_CODEC_ID_H264
        1920 1080 25 ''.avi'' (MediaRecorder ''/sd''))), demo_recording)"
    by (simp add: demo_recording_def start_record_def demo_av_def Let_def)
  have "getRecordStatus (MediaRecorder ''/sd'') \<noteq> RECORD_STATUS_RECORDING"
    by (simp add: getRecordStatus_def MediaRecorder_def)
  from rr_step [OF rr_start rs_start [OF _ this eq]]
  show ?thesis by (auto simp: demo_recording_def start_record_def demo_av_def av_documented_def Let_def)
qed

theorem recorder_protocol_witness:
  "stop_record demo_recording = Done (0, [WriteTrailer, FreeContext],
     demo_recording\<lparr>recordStatus := RECORD_STATUS_READY, f_ctx := Wild\<rparr>)"
proof -
  obtain cs where cs: "recorder_run ''/sd'' cs demo_recording"
    "recordStatus demo_recording = RECORD_STATUS_RECORDING" using demo_recording_run by blast
  show ?thesis
    using recorder_protocol [OF cs(1) gr_start [of demo_jsonc demo_strtof] demo_jsonc_circular,
        of "\<lparr>packet_ret = 0, write_ret = 0\<rparr>" "\<lambda>x. x"] cs(2) by blast
qed

text \<open>C23: A frame that arrives while the recorder records is handed to libav once, behind one SEI
  unit that decodes to the six numbers of the GPS sample of its time, with the time since the start
  of the recording as its time stamp; the sample does not depend on uninitialised memory once a
  GPS message was accepted. If libav refuses the packet nothing is written, and while the
  recorder does not record the frame is dropped.\<close>

theorem recorder_frame_labelled:
  assumes "recorder_run path cs r" "gps_reachable J strtof h g" "h \<noteq> []" "circular J"
  shows "\<exists>d sei. (\<forall>junk. gps_for_frame junk g now = Done d) \<and>
    sei_decode sei = Some [longitude d, latitude d, altitude d, pitch d, yaw d, roll d] \<and>
    recorder_onFrameReceivedCallback av rescale junk g now t frame r =
      Done (if recordStatus r \<noteq> RECORD_STATUS_RECORDING then []
            else if packet_ret av \<noteq> 0 then [PacketFromData (sei @ frame)]
            else [PacketFromData (sei @ frame), WriteFrame (sei @ frame) (rescale (t - start_time r))])"
proof -
  obtain d where "getGPSData g now (now - scast (getTimingOffset g)) = Done (0, Some d)"
    using getGPSData_total [OF assms(2,3,4)] by blast
  then have d: "gps_for_frame junk g now = Done d" for junk by (simp add: gps_for_frame_def)
  have live: "recordStatus r = RECORD_STATUS_RECORDING \<Longrightarrow> f_ctx r = Live True"
    using recorder_run_phases [OF assms(1)] by (auto simp: recorder_inv_def)
  have "recorder_onFrameReceivedCallback av rescale junk g now t frame r =
      Done (if recordStatus r \<noteq> RECORD_STATUS_RECORDING then []
        else if packet_ret av \<noteq> 0 then [PacketFromData (fst (sei_encode d) @ frame)]
        else [PacketFromData (fst (sei_encode d) @ frame),
          WriteFrame (fst (sei_encode d) @ frame) (rescale (t - start_time r))])"
  proof (cases "recordStatus r = RECORD_STATUS_RECORDING")
    case True
    then show ?thesis using recorder_on_recording [OF True live [OF True] d]
      by (simp add: get_timestamp_def)
  next
    case False
    then show ?thesis by (simp add: recorder_onFrameReceivedCallback_def)
  qed
  then show ?thesis using d sei_encode_decodes by blast
qed

theorem recorder_frame_labelled_witness:
  "\<exists>sei. recorder_onFrameReceivedCallback \<lparr>packet_ret = 0, write_ret = 0\<rparr> (\<lambda>x. x)
     (hd (gps_data_buf demo_two)) demo_two 5000 1040 [0, 0, 1, 0x65] demo_recording =
   Done [PacketFromData (sei @ [0, 0, 1, 0x65]), WriteFrame (sei @ [0, 0, 1, 0x65]) 40]"
proof -
  obtain cs where cs: "recorder_run ''/sd'' cs demo_recording"
    "recordStatus demo_recording = RECORD_STATUS_RECORDING" using demo_recording_run by blast
  obtain h where h: "gps_reachable demo_jsonc demo_strtof h demo_two"
    using demo_gps_reachable [OF gr_start] unfolding demo_two_def by blast
  have "h \<noteq> []" using gps_inv_reachable [OF h demo_jsonc_circular] demo_two_buf by (auto simp: gps_inv_def)
  moreover have "start_time demo_recording = 1000"
    by (simp add: demo_recording_def start_record_def demo_av_def Let_def)
  ultimately show ?thesis
    using recorder_frame_labelled [OF cs(1) h, where now = 5000 and av = "\<lparr>packet_ret = 0, write_ret = 0\<rparr>"
        and rescale = "\<lambda>x. x" and junk = "hd (gps_data_buf demo_two)" and t = 1040
        and frame = "[0, 0, 1, 0x65]"] cs(2) demo_jsonc_circular
    by auto
qed

end
