(* ===== verification/JpegMarker.thy ===== *)
theory JpegMarker
  imports Prelude
begin

text \<open>
  \<open>src/include/jpeg-marker.h\<close> and \<open>src/src/jpeg-marker.c\<close>: the JPEG markers and the table of
  their names and descriptions, which ends with an entry whose strings are \<open>NULL\<close>. The two
  lookups are the same loop over two columns; the locale \<open>marker_column\<close> holds its lemmas.
\<close>

subsection \<open>Markers\<close>

text \<open>The members of the enumeration, in its order, without their common prefix.\<close>

datatype JPEGMarker =
    SOF0 | SOF1 | SOF2 | SOF3 | DHT | SOF5 | SOF6 | SOF7 | JPG | SOF9 | SOF10 | SOF11 | DAC |
    SOF13 | SOF14 | SOF15 | RST0 | RST1 | RST2 | RST3 | RST4 | RST5 | RST6 | RST7 | SOI | EOI |
    SOS | DQT | DNL | DRI | DHP | EXP | APP0 | APP1 | APP2 | APP3 | APP4 | APP5 | APP6 | APP7 |
    APP8 | APP9 | APP10 | APP11 | APP12 | APP13 | APP14 | APP15 | JPG0 | JPG1 | JPG2 | JPG3 |
    JPG4 | JPG5 | JPG6 | JPG7 | JPG8 | JPG9 | JPG10 | JPG11 | JPG12 | JPG13 | COM

fun marker_code :: "JPEGMarker \<Rightarrow> byte" where
  "marker_code SOF0 = 0xc0"
| "marker_code SOF1 = 0xc1"
| "marker_code SOF2 = 0xc2"
| "marker_code SOF3 = 0xc3"
| "marker_code DHT = 0xc4"
| "marker_code SOF5 = 0xc5"
| "marker_code SOF6 = 0xc6"
| "marker_code SOF7 = 0xc7"
| "marker_code JPG = 0xc8"
| "marker_code SOF9 = 0xc9"
| "marker_code SOF10 = 0xca"
| "marker_code SOF11 = 0xcb"
| "marker_code DAC = 0xcc"
| "marker_code SOF13 = 0xcd"
| "marker_code SOF14 = 0xce"
| "marker_code SOF15 = 0xcf"
| "marker_code RST0 = 0xd0"
| "marker_code RST1 = 0xd1"
| "marker_code RST2 = 0xd2"
| "marker_code RST3 = 0xd3"
| "marker_code RST4 = 0xd4"
| "marker_code RST5 = 0xd5"
| "marker_code RST6 = 0xd6"
| "marker_code RST7 = 0xd7"
| "marker_code SOI = 0xd8"
| "marker_code EOI = 0xd9"
| "marker_code SOS = 0xda"
| "marker_code DQT = 0xdb"
| "marker_code DNL = 0xdc"
| "marker_code DRI = 0xdd"
| "marker_code DHP = 0xde"
| "marker_code EXP = 0xdf"
| "marker_code APP0 = 0xe0"
| "marker_code APP1 = 0xe1"
| "marker_code APP2 = 0xe2"
| "marker_code APP3 = 0xe3"
| "marker_code APP4 = 0xe4"
| "marker_code APP5 = 0xe5"
| "marker_code APP6 = 0xe6"
| "marker_code APP7 = 0xe7"
| "marker_code APP8 = 0xe8"
| "marker_code APP9 = 0xe9"
| "marker_code APP10 = 0xea"
| "marker_code APP11 = 0xeb"
| "marker_code APP12 = 0xec"
| "marker_code APP13 = 0xed"
| "marker_code APP14 = 0xee"
| "marker_code APP15 = 0xef"
| "marker_code JPG0 = 0xf0"
| "marker_code JPG1 = 0xf1"
| "marker_code JPG2 = 0xf2"
| "marker_code JPG3 = 0xf3"
| "marker_code JPG4 = 0xf4"
| "marker_code JPG5 = 0xf5"
| "marker_code JPG6 = 0xf6"
| "marker_code JPG7 = 0xf7"
| "marker_code JPG8 = 0xf8"
| "marker_code JPG9 = 0xf9"
| "marker_code JPG10 = 0xfa"
| "marker_code JPG11 = 0xfb"
| "marker_code JPG12 = 0xfc"
| "marker_code JPG13 = 0xfd"
| "marker_code COM = 0xfe"

definition all_markers :: "JPEGMarker list" where
  "all_markers = [
     SOF0, SOF1, SOF2, SOF3, DHT, SOF5, SOF6, SOF7, JPG, SOF9, SOF10, SOF11, DAC, SOF13, SOF14,
     SOF15, RST0, RST1, RST2, RST3, RST4, RST5, RST6, RST7, SOI, EOI, SOS, DQT, DNL, DRI, DHP,
     EXP, APP0, APP1, APP2, APP3, APP4, APP5, APP6, APP7, APP8, APP9, APP10, APP11, APP12, APP13,
     APP14, APP15, JPG0, JPG1, JPG2, JPG3, JPG4, JPG5, JPG6, JPG7, JPG8, JPG9, JPG10, JPG11,
     JPG12, JPG13, COM]"

text \<open>The macro \<open>JPEG_IS_MARKER\<close>, on the byte that the parser looks at.\<close>

definition JPEG_IS_MARKER :: "byte \<Rightarrow> bool" where
  "JPEG_IS_MARKER m \<longleftrightarrow> marker_code SOF0 \<le> m \<and> m \<le> marker_code COM"

lemma all_markers_complete: "m \<in> set all_markers"
  by (cases m) (simp_all add: all_markers_def)

lemma all_markers_codes: "map marker_code all_markers = map (\<lambda>i. word_of_nat (0xC0 + i)) [0..<63]"
  by (simp add: all_markers_def upt_rec)

lemma marker_code_inj: "marker_code m = marker_code n \<longleftrightarrow> m = n"
proof
  assume e: "marker_code m = marker_code n"
  have "distinct (map marker_code all_markers)" by (simp add: all_markers_def)
  with e all_markers_complete[of m] all_markers_complete[of n] show "m = n"
    by (metis distinct_map inj_onD)
qed simp

lemma marker_code_is_marker: "JPEG_IS_MARKER (marker_code m)"
  by (cases m) (simp_all add: JPEG_IS_MARKER_def)

subsection \<open>The table\<close>

type_synonym marker_entry = "JPEGMarker \<times> string \<times> string"

definition JPEGMarkerTable :: "marker_entry list" where
  "JPEGMarkerTable = [
     (SOF0, ''SOF0'', ''Encoding (baseline)''),
     (SOF1, ''SOF1'', ''Encoding (extended sequential)''),
     (SOF2, ''SOF2'', ''Encoding (progressive)''), (SOF3, ''SOF3'', ''Encoding (lossless)''),
     (SOF5, ''SOF5'', ''Encoding (differential sequential)''),
     (SOF6, ''SOF6'', ''Encoding (differential progressive)''),
     (SOF7, ''SOF7'', ''Encoding (differential lossless)''),
     (SOF9, ''SOF9'', ''Encoding (extended sequential, arithmetic)''),
     (SOF10, ''SOF10'', ''Encoding (progressive, arithmetic)''),
     (SOF11, ''SOF11'', ''Encoding (lossless, arithmetic)''),
     (SOF13, ''SOF13'', ''Encoding (differential sequential, arithmetic)''),
     (SOF14, ''SOF14'', ''Encoding (differential progressive, arithmetic)''),
     (SOF15, ''SOF15'', ''Encoding (differential lossless, arithmetic)''),
     (SOI, ''SOI'', ''Start of image''), (EOI, ''EOI'', ''End of image''),
     (SOS, ''SOS'', ''Start of scan''), (COM, ''COM'', ''Comment''),
     (DHT, ''DHT'', ''Define Huffman table''), (JPG, ''JPG'', ''Extension''),
     (DAC, ''DAC'', ''Define arithmetic coding conditioning''), (RST1, ''RST1'', ''Restart 1''),
     (RST2, ''RST2'', ''Restart 2''), (RST3, ''RST3'', ''Restart 3''),
     (RST4, ''RST4'', ''Restart 4''), (RST5, ''RST5'', ''Restart 5''),
     (RST6, ''RST6'', ''Restart 6''), (RST7, ''RST7'', ''Restart 7''),
     (DQT, ''DQT'', ''Define quantization table''), (DNL, ''DNL'', ''Define number of lines''),
     (DRI, ''DRI'', ''Define restart interval''),
     (DHP, ''DHP'', ''Define hierarchical progression''),
     (EXP, ''EXP'', ''Expand reference component''), (APP0, ''APP0'', ''Application segment 0''),
     (APP1, ''APP1'', ''Application segment 1''), (APP2, ''APP2'', ''Application segment 2''),
     (APP3, ''APP3'', ''Application segment 3''), (APP4, ''APP4'', ''Application segment 4''),
     (APP5, ''APP5'', ''Application segment 5''), (APP6, ''APP6'', ''Application segment 6''),
     (APP7, ''APP7'', ''Application segment 7''), (APP8, ''APP8'', ''Application segment 8''),
     (APP9, ''APP9'', ''Application segment 9''), (APP10, ''APP10'', ''Application segment 10''),
     (APP11, ''APP11'', ''Application segment 11''),
     (APP12, ''APP12'', ''Application segment 12''),
     (APP13, ''APP13'', ''Application segment 13''),
     (APP14, ''APP14'', ''Application segment 14''),
     (APP15, ''APP15'', ''Application segment 15''), (JPG0, ''JPG0'', ''Extension 0''),
     (JPG1, ''JPG1'', ''Extension 1''), (JPG2, ''JPG2'', ''Extension 2''),
     (JPG3, ''JPG3'', ''Extension 3''), (JPG4, ''JPG4'', ''Extension 4''),
     (JPG5, ''JPG5'', ''Extension 5''), (JPG6, ''JPG6'', ''Extension 6''),
     (JPG7, ''JPG7'', ''Extension 7''), (JPG8, ''JPG8'', ''Extension 8''),
     (JPG9, ''JPG9'', ''Extension 9''), (JPG10, ''JPG10'', ''Extension 10''),
     (JPG11, ''JPG11'', ''Extension 11''), (JPG12, ''JPG12'', ''Extension 12''),
     (JPG13, ''JPG13'', ''Extension 13'')]"

text \<open>
  The loop: it stops at the entry of the marker, or at the sentinel, whose string is \<open>NULL\<close>.
  \<open>column\<close> is the string that the loop tests and returns.
\<close>

fun table_lookup :: "(marker_entry \<Rightarrow> string) \<Rightarrow> marker_entry list \<Rightarrow> JPEGMarker \<Rightarrow> string option" where
  "table_lookup column [] m = None"
| "table_lookup column (e # es) m = (if fst e = m then Some (column e) else table_lookup column es m)"

definition jpeg_marker_get_name :: "JPEGMarker \<Rightarrow> string option" where
  "jpeg_marker_get_name m = table_lookup (\<lambda>e. fst (snd e)) JPEGMarkerTable m"

definition jpeg_marker_get_description :: "JPEGMarker \<Rightarrow> string option" where
  "jpeg_marker_get_description m = table_lookup (\<lambda>e. snd (snd e)) JPEGMarkerTable m"

locale marker_column =
  fixes column :: "marker_entry \<Rightarrow> string"
    and get :: "JPEGMarker \<Rightarrow> string option"
    and entries :: "marker_entry list"
  assumes get_lookup: "get m = table_lookup column entries m"
    and markers_distinct: "distinct (map fst entries)"
    and column_inj: "distinct (map column entries)"
begin

lemma lookup_None: "get m = None \<longleftrightarrow> m \<notin> set (map fst entries)"
  unfolding get_lookup by (induction entries) auto

lemma lookup_Some: "e \<in> set entries \<Longrightarrow> get (fst e) = Some (column e)"
  unfolding get_lookup using markers_distinct by (induction entries) force+

lemma lookup_in: "get m = Some s \<Longrightarrow> \<exists>e\<in>set entries. fst e = m \<and> column e = s"
  unfolding get_lookup by (induction entries) (auto split: if_splits)

lemma lookup_inj: "get m = Some s \<Longrightarrow> get n = Some s \<Longrightarrow> m = n"
  using lookup_in[of m s] lookup_in[of n s] column_inj by (metis distinct_map inj_onD)

end

interpretation name_of: marker_column "\<lambda>e. fst (snd e)" jpeg_marker_get_name JPEGMarkerTable
  by unfold_locales (simp_all add: jpeg_marker_get_name_def JPEGMarkerTable_def)

interpretation description_of: marker_column "\<lambda>e. snd (snd e)" jpeg_marker_get_description JPEGMarkerTable
  by unfold_locales (simp_all add: jpeg_marker_get_description_def JPEGMarkerTable_def)

lemma table_markers: "set (map fst JPEGMarkerTable) = set all_markers - {RST0}"
  by (simp add: JPEGMarkerTable_def all_markers_def) blast

subsection \<open>Properties\<close>

text \<open>Every marker of the enumeration has a name and a description, each its own, except RST0,
  which the table leaves out.\<close>

theorem marker_names:
  "(jpeg_marker_get_name m = None \<longleftrightarrow> m = RST0) \<and>
   (jpeg_marker_get_description m = None \<longleftrightarrow> m = RST0) \<and>
   (m \<noteq> n \<and> m \<noteq> RST0 \<longrightarrow> jpeg_marker_get_name m \<noteq> jpeg_marker_get_name n \<and>
     jpeg_marker_get_description m \<noteq> jpeg_marker_get_description n)"
proof -
  have "(jpeg_marker_get_name m = None \<longleftrightarrow> m = RST0)" "(jpeg_marker_get_description m = None \<longleftrightarrow> m = RST0)"
    using name_of.lookup_None[of m] description_of.lookup_None[of m] table_markers all_markers_complete[of m]
    by auto
  then show ?thesis
    using name_of.lookup_inj[of m _ n] description_of.lookup_inj[of m _ n] by (metis option.exhaust)
qed

theorem marker_names_witness:
  "jpeg_marker_get_name RST1 \<noteq> jpeg_marker_get_name RST2"
  using marker_names[of RST1 RST2] by simp

end
