(* ===== verification/JpegData.thy ===== *)
theory JpegData
  imports JpegMarker
begin

text \<open>
  \<open>src/src/jpeg-data.c\<close>: JPEG files as lists of sections. A \<open>JPEGData\<close> object is a record;
  its parser and printer read and write byte lists. libexif is a parameter (\<open>exif_lib\<close>), as is
  the success of each allocation (\<open>al k\<close> tells whether allocation number \<open>k\<close> succeeds). An
  operation that reads outside its input, or a section through the wrong member of its
  union, has no result (\<open>None\<close>).
\<close>

subsection \<open>Data\<close>

text \<open>
  A content is all zero until it is set. \<open>Broken\<close> is a union left half assigned: its pointer
  is \<open>NULL\<close> and its size is not zero.
\<close>

datatype 'e JPEGContent = Zeroed | GenericC "byte list" | App1C "'e option" | Broken

record 'e JPEGSection =
  s_marker :: byte
  s_content :: "'e JPEGContent"

record 'e JPEGData =
  jd_sections :: "'e JPEGSection list"
  jd_data :: "byte list option"
  jd_size :: nat
  jd_refs :: u32
  jd_allocs :: nat

record 'e exif_lib =
  exif_new :: "byte list \<Rightarrow> 'e option"
  exif_save :: "'e \<Rightarrow> byte list option"

abbreviation SOI_b :: byte where "SOI_b \<equiv> 0xd8"
abbreviation EOI_b :: byte where "EOI_b \<equiv> 0xd9"
abbreviation SOS_b :: byte where "SOS_b \<equiv> 0xda"
abbreviation APP1_b :: byte where "APP1_b \<equiv> 0xe1"

lemma marker_bytes:
  "SOI_b = marker_code SOI" "EOI_b = marker_code EOI" "SOS_b = marker_code SOS" "APP1_b = marker_code APP1"
  by simp_all

text \<open>A big-endian length, as the two byte stores of the code truncate it.\<close>

definition be16 :: "nat \<Rightarrow> byte list" where
  "be16 n = [word_of_nat (n div 256), word_of_nat n]"

subsection \<open>Creation and sections\<close>

definition jpeg_data_new :: "(nat \<Rightarrow> bool) \<Rightarrow> 'e JPEGData option" where
  "jpeg_data_new al = (if \<not> al 0 then None else if \<not> al 1 then None
     else Some \<lparr>jd_sections = [], jd_data = None, jd_size = 0, jd_refs = 1, jd_allocs = 2\<rparr>)"

definition jpeg_data_append_section :: "(nat \<Rightarrow> bool) \<Rightarrow> 'e JPEGData \<Rightarrow> 'e JPEGData" where
  "jpeg_data_append_section al jd =
    (let k = jd_allocs jd; jd = jd\<lparr>jd_allocs := Suc k\<rparr>
     in if al k then jd\<lparr>jd_sections := jd_sections jd @ [\<lparr>s_marker = 0, s_content = Zeroed\<rparr>]\<rparr> else jd)"

definition set_last :: "('e JPEGSection \<Rightarrow> 'e JPEGSection) \<Rightarrow> 'e JPEGData \<Rightarrow> 'e JPEGData" where
  "set_last f jd = jd\<lparr>jd_sections := butlast (jd_sections jd) @ [f (last (jd_sections jd))]\<rparr>"

subsection \<open>Loading\<close>

definition read_window :: "byte list \<Rightarrow> nat \<Rightarrow> nat \<Rightarrow> byte list option" where
  "read_window d off n = (if off + n \<le> length d then Some (window off n d) else None)"

text \<open>The number of bytes \<open>0xff\<close> at position \<open>o\<close>, at most seven.\<close>

definition skip_ff :: "byte list \<Rightarrow> nat \<Rightarrow> nat" where
  "skip_ff d p = length (takeWhile (\<lambda>b. b = 0xff) (take (min 7 (length d - p)) (drop p d)))"

text \<open>How many bytes of the \<open>rest\<close> behind the header of a scan are image data.\<close>

definition scan_size :: "byte list \<Rightarrow> nat \<Rightarrow> nat \<Rightarrow> nat option" where
  "scan_size d p rest =
    (if rest \<ge> 2 then do {
       b \<leftarrow> read_at d (p + (rest - 2));
       Some (if b \<noteq> 0xff then rest else rest - 2)
     } else Some rest)"

text \<open>The image data behind the header of a scan, which ends at \<open>p\<close>.\<close>

definition load_scan ::
  "(nat \<Rightarrow> bool) \<Rightarrow> byte list \<Rightarrow> nat \<Rightarrow> 'e JPEGData \<Rightarrow> ('e JPEGData \<times> nat option) option" where
  "load_scan al d p jd = do {
     n \<leftarrow> scan_size d p (length d - p);
     let k = jd_allocs jd;
     let jd = jd\<lparr>jd_allocs := Suc k\<rparr>;
     (if \<not> al k then Some (jd\<lparr>jd_data := None, jd_size := 0\<rparr>, None)
      else do {
        img \<leftarrow> read_window d p n;
        Some (jd\<lparr>jd_data := Some img, jd_size := n\<rparr>, Some (p + n))
      })
   }"

text \<open>The content of a section with marker \<open>marker\<close>, of \<open>len\<close> bytes at \<open>p\<close>.\<close>

definition load_content ::
  "'e exif_lib \<Rightarrow> (nat \<Rightarrow> bool) \<Rightarrow> byte list \<Rightarrow> byte \<Rightarrow> nat \<Rightarrow> nat \<Rightarrow> 'e JPEGData \<Rightarrow>
   ('e JPEGData \<times> nat option) option" where
  "load_content ex al d marker p len jd =
    (if marker = APP1_b then do {
       bytes \<leftarrow> (if p < 4 then None else read_window d (p - 4) (len + 4));
       Some (set_last (\<lambda>s. s\<lparr>s_content := App1C (exif_new ex bytes)\<rparr>) jd, Some (p + len))
     }
     else (let k = jd_allocs jd; jd = jd\<lparr>jd_allocs := Suc k\<rparr>
       in if \<not> al k
          then Some (set_last (\<lambda>s. s\<lparr>s_content := (case s_content s of Zeroed \<Rightarrow> Zeroed | _ \<Rightarrow> Broken)\<rparr>) jd, None)
          else do {
            bytes \<leftarrow> read_window d p len;
            let jd = set_last (\<lambda>s. s\<lparr>s_content := GenericC bytes\<rparr>) jd;
            (if marker = SOS_b then load_scan al d (p + len) jd else Some (jd, Some (p + len)))
          }))"

text \<open>The length of a section without its two length bytes, an \<open>unsigned int\<close>.\<close>

definition section_len :: "byte \<Rightarrow> byte \<Rightarrow> nat" where
  "section_len a b = (256 * unat a + unat b + 2 ^ 32 - 2) mod 2 ^ 32"

text \<open>
  One round of the loop of \<open>jpeg_data_load_data\<close> behind the marker at \<open>p\<close>: the object and the
  next position, or no position where the code returns.
\<close>

definition load_section ::
  "'e exif_lib \<Rightarrow> (nat \<Rightarrow> bool) \<Rightarrow> byte list \<Rightarrow> nat \<Rightarrow> 'e JPEGData \<Rightarrow> ('e JPEGData \<times> nat option) option" where
  "load_section ex al d p jd = do {
     marker \<leftarrow> read_at d p;
     let jd = jpeg_data_append_section al jd;
     (if jd_sections jd = [] then Some (jd, None)
      else let jd = set_last (\<lambda>s. s\<lparr>s_marker := marker\<rparr>) jd; p = p + 1; size = length d
      in if marker = SOI_b \<or> marker = EOI_b then Some (jd, Some p)
      else if 2 > size - p then Some (jd, Some size)
      else do {
        a \<leftarrow> read_at d p;
        b \<leftarrow> read_at d (p + 1);
        let len = section_len a b;
        (if len > size then Some (jd, Some size)
         else let p = p + 2
         in if len > size - p then Some (jd, Some size)
         else load_content ex al d marker p len jd)
      })
   }"

text \<open>
  The loop: \<open>None\<close> is the loop that never ends, \<open>Some Fault\<close> an access outside the data. When
  the very first byte is not \<open>0xff\<close> the code continues without having changed anything.
\<close>

partial_function (option) load_loop ::
  "'e exif_lib \<Rightarrow> (nat \<Rightarrow> bool) \<Rightarrow> byte list \<Rightarrow> nat \<Rightarrow> 'e JPEGData \<Rightarrow> 'e JPEGData run option" where
  "load_loop ex al d p jd =
    (if length d \<le> p then Some (Done jd)
     else if p + skip_ff d p = 0 then load_loop ex al d p jd
     else if skip_ff d p \<ge> length d - p \<or> \<not> JPEG_IS_MARKER (d ! (p + skip_ff d p)) then Some (Done jd)
     else (case load_section ex al d (p + skip_ff d p) jd of
         None \<Rightarrow> Some Fault
       | Some (jd', r) \<Rightarrow> (case r of None \<Rightarrow> Some (Done jd') | Some q \<Rightarrow> load_loop ex al d q jd')))"

definition jpeg_data_load_data ::
  "'e exif_lib \<Rightarrow> (nat \<Rightarrow> bool) \<Rightarrow> byte list \<Rightarrow> 'e JPEGData \<Rightarrow> 'e JPEGData run option" where
  "jpeg_data_load_data ex al d jd = (if d = [] then Some (Done jd) else load_loop ex al d 0 jd)"

definition jpeg_data_new_from_data ::
  "'e exif_lib \<Rightarrow> (nat \<Rightarrow> bool) \<Rightarrow> byte list \<Rightarrow> 'e JPEGData option run option" where
  "jpeg_data_new_from_data ex al d = (case jpeg_data_new al of
      None \<Rightarrow> Some (Done None)
    | Some jd \<Rightarrow> (case jpeg_data_load_data ex al d jd of
          None \<Rightarrow> None | Some Fault \<Rightarrow> Some Fault | Some (Done jd') \<Rightarrow> Some (Done (Some jd'))))"

text \<open>
  \<open>jpeg_data_load_file\<close>: what the file calls of the C library give is the contents of the file
  or \<open>None\<close> where one of them fails; the buffer for the file is an allocation too.
\<close>

definition jpeg_data_load_file ::
  "'e exif_lib \<Rightarrow> (nat \<Rightarrow> bool) \<Rightarrow> byte list option \<Rightarrow> 'e JPEGData \<Rightarrow> 'e JPEGData run option" where
  "jpeg_data_load_file ex al file jd = (case file of
      None \<Rightarrow> Some (Done jd)
    | Some d \<Rightarrow> let k = jd_allocs jd; jd = jd\<lparr>jd_allocs := Suc k\<rparr>
        in if \<not> al k then Some (Done jd) else jpeg_data_load_data ex al d jd)"

subsection \<open>Saving\<close>

text \<open>
  The buffer is \<open>None\<close> after a failed \<open>realloc\<close>; the second component is \<open>*ds\<close>, the third
  counts the allocations.
\<close>

type_synonym saved = "byte list option \<times> nat \<times> nat"

definition grow :: "(nat \<Rightarrow> bool) \<Rightarrow> byte list \<Rightarrow> byte list \<Rightarrow> nat \<Rightarrow> saved" where
  "grow al buf bytes k = (if al k then (Some (buf @ bytes), length buf + length bytes, Suc k)
     else (None, length buf, Suc k))"

definition and_grow :: "(nat \<Rightarrow> bool) \<Rightarrow> byte list \<Rightarrow> saved \<Rightarrow> saved" where
  "and_grow al bytes s = (case s of (None, n, k) \<Rightarrow> (None, n, k) | (Some buf, n, k) \<Rightarrow> grow al buf bytes k)"

definition scan_data :: "'e JPEGData \<Rightarrow> byte list" where
  "scan_data jd = (case jd_data jd of None \<Rightarrow> [] | Some img \<Rightarrow> img)"

definition save_section ::
  "'e exif_lib \<Rightarrow> (nat \<Rightarrow> bool) \<Rightarrow> 'e JPEGData \<Rightarrow> 'e JPEGSection \<Rightarrow> byte list \<Rightarrow> nat \<Rightarrow> saved option" where
  "save_section ex al jd s buf k =
    (let r = grow al buf [0xff, s_marker s] k
     in if fst r = None then Some r
     else if s_marker s = SOI_b \<or> s_marker s = EOI_b then Some r
     else if s_marker s = APP1_b then
       (case s_content s of
          Zeroed \<Rightarrow> Some r
        | App1C None \<Rightarrow> Some r
        | App1C (Some e) \<Rightarrow> (case exif_save ex e of
              None \<Rightarrow> Some r
            | Some ed \<Rightarrow> Some (and_grow al ed (and_grow al (be16 (length ed + 2)) r)))
        | GenericC _ \<Rightarrow> None
        | Broken \<Rightarrow> None)
     else do {
       bytes \<leftarrow> (case s_content s of Zeroed \<Rightarrow> Some [] | GenericC bytes \<Rightarrow> Some bytes | _ \<Rightarrow> None);
       let r = and_grow al (be16 (length bytes + 2) @ bytes) r;
       Some (if s_marker s = SOS_b then and_grow al (scan_data jd) r else r)
     })"

fun save_sections ::
  "'e exif_lib \<Rightarrow> (nat \<Rightarrow> bool) \<Rightarrow> 'e JPEGData \<Rightarrow> 'e JPEGSection list \<Rightarrow> saved \<Rightarrow> saved option" where
  "save_sections ex al jd [] r = Some r"
| "save_sections ex al jd (s # ss) (buf, n, k) =
    (case save_section ex al jd s (case buf of None \<Rightarrow> [] | Some b \<Rightarrow> b) k of
       None \<Rightarrow> None
     | Some (None, m, k') \<Rightarrow> Some (None, m, k')
     | Some (Some b, m, k') \<Rightarrow> save_sections ex al jd ss (Some b, m, k'))"

text \<open>With \<open>*d\<close> initially \<open>NULL\<close>, as its callers have it.\<close>

definition jpeg_data_save_data ::
  "'e exif_lib \<Rightarrow> (nat \<Rightarrow> bool) \<Rightarrow> 'e JPEGData \<Rightarrow> saved option" where
  "jpeg_data_save_data ex al jd = save_sections ex al jd (jd_sections jd) (None, 0, jd_allocs jd)"

text \<open>
  \<open>jpeg_data_save_file\<close>: \<open>opens\<close> tells whether the file can be opened, \<open>closes\<close> whether closing
  it succeeds, \<open>writes n\<close> how many of \<open>n\<close> bytes are written.
\<close>

definition jpeg_data_save_file ::
  "'e exif_lib \<Rightarrow> (nat \<Rightarrow> bool) \<Rightarrow> bool \<Rightarrow> bool \<Rightarrow> (nat \<Rightarrow> nat) \<Rightarrow> 'e JPEGData \<Rightarrow> (int \<times> byte list option) option" where
  "jpeg_data_save_file ex al opens closes writes jd = do {
     (d, size, _) \<leftarrow> jpeg_data_save_data ex al jd;
     (case d of
        None \<Rightarrow> Some (0, None)
      | Some bytes \<Rightarrow>
          if \<not> opens then Some (0, None)
          else if \<not> closes then Some (0, Some (take (writes size) bytes))
          else if writes size = size then Some (1, Some bytes)
          else Some (0, Some (take (writes size) bytes)))
   }"

subsection \<open>Exif data, references, destruction\<close>

definition jpeg_data_get_section :: "'e JPEGData \<Rightarrow> byte \<Rightarrow> nat option" where
  "jpeg_data_get_section jd marker = find (\<lambda>i. s_marker (jd_sections jd ! i) = marker) [0..<length (jd_sections jd)]"

text \<open>The reference counts of exif objects are libexif's; the model leaves them out.\<close>

definition jpeg_data_get_exif_data :: "'e JPEGData \<Rightarrow> 'e option option" where
  "jpeg_data_get_exif_data jd = (case jpeg_data_get_section jd APP1_b of
      None \<Rightarrow> Some None
    | Some i \<Rightarrow> (case s_content (jd_sections jd ! i) of
          App1C e \<Rightarrow> Some e | Zeroed \<Rightarrow> Some None | _ \<Rightarrow> None))"

definition jpeg_data_set_exif_data :: "(nat \<Rightarrow> bool) \<Rightarrow> 'e \<Rightarrow> 'e JPEGData \<Rightarrow> 'e JPEGData" where
  "jpeg_data_set_exif_data al e jd =
    (let app1 = \<lparr>s_marker = APP1_b, s_content = App1C (Some e)\<rparr>
     in case jpeg_data_get_section jd APP1_b of
       Some i \<Rightarrow> jd\<lparr>jd_sections := (jd_sections jd)[i := app1]\<rparr>
     | None \<Rightarrow>
         (let jd = jpeg_data_append_section al jd; ss = jd_sections jd; n = length ss
          in if n < 2 then jd
             else jd\<lparr>jd_sections := take 1 ss @ [app1] @ take (n - 2) (drop 1 ss)\<rparr>))"

text \<open>What \<open>jpeg_data_free\<close> gives back, in order.\<close>

datatype 'e freed = FreeExif "'e option" | FreeContent "byte list" | FreeSections | FreeData "byte list"
  | FreePriv | FreeObject

definition free_section :: "'e JPEGSection \<Rightarrow> 'e freed list option" where
  "free_section s =
    (if s_marker s = SOI_b \<or> s_marker s = EOI_b then Some []
     else if s_marker s = APP1_b then
       (case s_content s of App1C e \<Rightarrow> Some [FreeExif e] | Zeroed \<Rightarrow> Some [FreeExif None] | _ \<Rightarrow> None)
     else (case s_content s of GenericC b \<Rightarrow> Some [FreeContent b] | App1C _ \<Rightarrow> None | _ \<Rightarrow> Some []))"

fun free_sections :: "'e JPEGSection list \<Rightarrow> 'e freed list option" where
  "free_sections [] = Some []"
| "free_sections (s # ss) = do { a \<leftarrow> free_section s; b \<leftarrow> free_sections ss; Some (a @ b) }"

definition jpeg_data_free :: "'e JPEGData \<Rightarrow> 'e freed list option" where
  "jpeg_data_free jd = do {
     fs \<leftarrow> free_sections (jd_sections jd);
     Some (fs @ (if jd_sections jd = [] then [] else [FreeSections]) @
       (case jd_data jd of None \<Rightarrow> [] | Some b \<Rightarrow> [FreeData b]) @ [FreePriv, FreeObject])
   }"

definition jpeg_data_ref :: "'e JPEGData \<Rightarrow> 'e JPEGData" where
  "jpeg_data_ref jd = jd\<lparr>jd_refs := jd_refs jd + 1\<rparr>"

text \<open>The object is gone (\<open>None\<close> in the pair) when the count reaches zero.\<close>

definition jpeg_data_unref :: "'e JPEGData \<Rightarrow> ('e JPEGData option \<times> 'e freed list) option" where
  "jpeg_data_unref jd =
    (let jd = jd\<lparr>jd_refs := jd_refs jd - 1\<rparr>
     in if jd_refs jd = 0 then do { fs \<leftarrow> jpeg_data_free jd; Some (None, fs) } else Some (Some jd, []))"

subsection \<open>Loading is safe and ends\<close>

lemma read_window_some [simp]: "off + n \<le> length d \<Longrightarrow> read_window d off n = Some (window off n d)"
  by (simp add: read_window_def)

lemma scan_size_some:
  assumes "p + rest = length d"
  shows "\<exists>n\<le>rest. scan_size d p rest = Some n"
  using assms by (auto simp: scan_size_def read_at_def)

lemma load_scan_some:
  assumes "p \<le> length d"
  shows "\<exists>jd' r. load_scan al d p jd = Some (jd', r) \<and> (\<forall>q. r = Some q \<longrightarrow> p \<le> q \<and> q \<le> length d)"
proof -
  have "p + (length d - p) = length d" using assms by simp
  from scan_size_some[OF this] obtain n where "n \<le> length d - p" "scan_size d p (length d - p) = Some n" by blast
  moreover from this assms have "p + n \<le> length d" by linarith
  ultimately show ?thesis by (simp add: load_scan_def Let_def)
qed

lemma load_content_some:
  assumes "p + len \<le> length d" and "4 \<le> p"
  shows "\<exists>jd' r. load_content ex al d m p len jd = Some (jd', r) \<and>
    (\<forall>q. r = Some q \<longrightarrow> p \<le> q \<and> q \<le> length d)"
proof -
  from load_scan_some[OF assms(1)] have scan: "\<exists>jd' r. load_scan al d (p + len) jd = Some (jd', r) \<and>
      (\<forall>q. r = Some q \<longrightarrow> p + len \<le> q \<and> q \<le> length d)" for jd :: "'a JPEGData" by blast
  show ?thesis
    using assms scan[of "set_last (\<lambda>s. s\<lparr>s_content := GenericC (window p len d)\<rparr>) (jd\<lparr>jd_allocs := Suc (jd_allocs jd)\<rparr>)"]
    by (auto simp: load_content_def Let_def)
qed

lemma load_section_some:
  assumes "0 < p" and "p < length d"
  shows "\<exists>jd' r. load_section ex al d p jd = Some (jd', r) \<and> (\<forall>q. r = Some q \<longrightarrow> p < q \<and> q \<le> length d)"
proof (cases "length d - Suc p < 2")
  case True
  with assms show ?thesis by (simp add: load_section_def Let_def)
next
  case False
  then have in_range: "Suc p < length d" "Suc (Suc p) < length d" by simp_all
  define len where "len = section_len (d ! Suc p) (d ! Suc (Suc p))"
  have run: "load_section ex al d p jd = (let jd1 = jpeg_data_append_section al jd in
      if jd_sections jd1 = [] then Some (jd1, None)
      else let jd2 = set_last (\<lambda>s. s\<lparr>s_marker := d ! p\<rparr>) jd1 in
        if d ! p = SOI_b \<or> d ! p = EOI_b then Some (jd2, Some (Suc p))
        else if len > length d then Some (jd2, Some (length d))
        else if len > length d - (p + 3) then Some (jd2, Some (length d))
        else load_content ex al d (d ! p) (p + 3) len jd2)"
    using False assms in_range by (simp add: load_section_def Let_def numeral_3_eq_3 len_def)
  have c: "\<exists>jd' r. load_content ex al d m (p + 3) len jd2 = Some (jd', r) \<and>
      (\<forall>q. r = Some q \<longrightarrow> p < q \<and> q \<le> length d)" if "\<not> len > length d - (p + 3)" for m jd2
  proof -
    have "(p + 3) + len \<le> length d" "4 \<le> p + 3" using that assms False by linarith+
    from load_content_some[OF this, of ex al m jd2] obtain jd' r where
      "load_content ex al d m (p + 3) len jd2 = Some (jd', r)"
      "\<forall>q. r = Some q \<longrightarrow> p + 3 \<le> q \<and> q \<le> length d" by blast
    then show ?thesis by (intro exI[of _ jd'] exI[of _ r]) auto
  qed
  show ?thesis unfolding run using c assms by (simp add: Let_def)
qed

lemma skip_ff_bound: "skip_ff d p \<le> length d - p"
  unfolding skip_ff_def using length_takeWhile_le[of "\<lambda>b. b = 0xff" "take (min 7 (length d - p)) (drop p d)"]
  by simp

lemma load_loop_total:
  assumes "0 < p \<or> d ! 0 = 0xff"
  shows "\<exists>jd'. load_loop ex al d p jd = Some (Done jd')"
  using assms
proof (induction "length d - p" arbitrary: p jd rule: less_induct)
  case less
  show ?case
  proof (cases "length d \<le> p")
    case True
    then show ?thesis by (subst load_loop.simps) simp
  next
    case False
    let ?q = "p + skip_ff d p"
    have q: "?q \<noteq> 0"
    proof (cases "p = 0")
      case True
      with less.prems False have "d ! 0 = 0xff" "d \<noteq> []" by auto
      then have "skip_ff d 0 \<noteq> 0" by (cases d) (simp_all add: skip_ff_def take_Cons')
      with True show ?thesis by simp
    qed simp
    show ?thesis
    proof (cases "skip_ff d p \<ge> length d - p \<or> \<not> JPEG_IS_MARKER (d ! ?q)")
      case True
      then show ?thesis using False q by (subst load_loop.simps) auto
    next
      case m: False
      then have "0 < ?q" "?q < length d" using q False by linarith+
      from load_section_some[OF this, of ex al jd] obtain jd' r where
        s: "load_section ex al d ?q jd = Some (jd', r)" "\<And>q'. r = Some q' \<Longrightarrow> ?q < q' \<and> q' \<le> length d" by blast
      show ?thesis
      proof (cases r)
        case None
        then show ?thesis using False q m s(1) by (subst load_loop.simps) auto
      next
        case (Some q')
        with s(2) have "?q < q'" "q' \<le> length d" by auto
        then have "length d - q' < length d - p" "0 < q'" using False by linarith+
        with less.hyps[of q' jd'] obtain e where "load_loop ex al d q' jd' = Some (Done e)" by blast
        then show ?thesis using False q m s(1) Some by (subst load_loop.simps) auto
      qed
    qed
  qed
qed

text \<open>The loop that never ends: an induction on the computation that a result would have.\<close>

lemma load_loop_stuck_ind:
  "load_loop ex al d p jd = Some r \<Longrightarrow> p = 0 \<longrightarrow> d \<noteq> [] \<longrightarrow> d ! 0 = 0xff"
proof (induction rule: load_loop.raw_induct[rotated, consumes 1, case_names 1])
  case (1 load_loop ex al d p jd r)
  show ?case
  proof (intro impI, rule ccontr)
    assume "p = 0" "d \<noteq> []" "d ! 0 \<noteq> 0xff"
    then have "skip_ff d 0 = 0" by (cases d) (simp_all add: skip_ff_def take_Cons')
    with \<open>p = 0\<close> \<open>d \<noteq> []\<close> 1(2) have "load_loop ex al d p jd = Some r" by simp
    from 1(1)[OF this] \<open>p = 0\<close> \<open>d \<noteq> []\<close> \<open>d ! 0 \<noteq> 0xff\<close> show False by simp
  qed
qed

lemma load_loop_stuck: "d \<noteq> [] \<Longrightarrow> d ! 0 \<noteq> 0xff \<Longrightarrow> load_loop ex al d 0 jd = None"
  using load_loop_stuck_ind[of ex al d 0 jd] by (metis not_Some_eq)

subsection \<open>Printing and parsing\<close>

abbreviation plenty :: "nat \<Rightarrow> bool" where "plenty \<equiv> \<lambda>_. True"

definition wf_section :: "'e exif_lib \<Rightarrow> 'e JPEGSection \<Rightarrow> bool" where
  "wf_section ex s \<longleftrightarrow> JPEG_IS_MARKER (s_marker s) \<and>
     (if s_marker s = SOI_b \<or> s_marker s = EOI_b then s_content s = Zeroed
      else if s_marker s = APP1_b then (\<exists>e ed. s_content s = App1C (Some e) \<and> exif_save ex e = Some ed \<and>
        length ed + 2 < 65536 \<and> exif_new ex ([0xff, APP1_b] @ be16 (length ed + 2) @ ed) = Some e)
      else (\<exists>bytes. s_content s = GenericC bytes \<and> length bytes + 2 < 65536))"

definition section_body :: "'e exif_lib \<Rightarrow> 'e JPEGSection \<Rightarrow> byte list" where
  "section_body ex s = (case s_content s of
      GenericC bytes \<Rightarrow> be16 (length bytes + 2) @ bytes
    | App1C (Some e) \<Rightarrow> (case exif_save ex e of None \<Rightarrow> [] | Some ed \<Rightarrow> be16 (length ed + 2) @ ed)
    | _ \<Rightarrow> [])"

definition section_image :: "'e exif_lib \<Rightarrow> byte list \<Rightarrow> 'e JPEGSection \<Rightarrow> byte list" where
  "section_image ex img s = [0xff, s_marker s] @ section_body ex s @ (if s_marker s = SOS_b then img else [])"

lemma length_be16 [simp]: "length (be16 n) = 2"
  by (simp add: be16_def)

lemma section_len_be16:
  assumes "n + 2 < 65536"
  shows "section_len (be16 (n + 2) ! 0) (be16 (n + 2) ! 1) = n"
proof -
  obtain m where m: "m = n + 2" by blast
  then have b: "m < 65536" "m div 256 < 256" using assms by simp_all
  have "unat (word_of_nat (m div 256) :: byte) = m div 256" "unat (word_of_nat m :: byte) = m mod 256"
    using b by (simp_all add: unat_of_nat)
  then have "section_len (be16 m ! 0) (be16 m ! 1) = (256 * (m div 256) + m mod 256 + 2 ^ 32 - 2) mod 2 ^ 32"
    by (simp add: section_len_def be16_def)
  also have "256 * (m div 256) + m mod 256 = m" by simp
  also have "(m + 2 ^ 32 - 2) mod 2 ^ 32 = n" using b by (simp add: m)
  finally show ?thesis by (simp only: m)
qed

lemma save_section_wf:
  assumes "wf_section ex s"
  shows "\<exists>k'. save_section ex plenty jd s buf k =
    Some (Some (buf @ section_image ex (scan_data jd) s), length (buf @ section_image ex (scan_data jd) s), k')"
proof -
  consider "s_marker s = SOI_b \<or> s_marker s = EOI_b" "s_content s = Zeroed"
    | e ed where "s_marker s = APP1_b" "s_content s = App1C (Some e)" "exif_save ex e = Some ed"
    | bytes where "s_marker s \<noteq> SOI_b" "s_marker s \<noteq> EOI_b" "s_marker s \<noteq> APP1_b" "s_content s = GenericC bytes"
    using assms by (auto simp: wf_section_def split: if_splits)
  then show ?thesis
    by cases (auto simp: save_section_def section_image_def section_body_def grow_def and_grow_def Let_def)
qed

lemma save_sections_wf:
  assumes "\<forall>s\<in>set ss. wf_section ex s"
  shows "\<exists>k'. save_sections ex plenty jd ss (Some buf, length buf, k) =
    Some (Some (buf @ concat (map (section_image ex (scan_data jd)) ss)),
      length (buf @ concat (map (section_image ex (scan_data jd)) ss)), k')"
  using assms
proof (induction ss arbitrary: buf k)
  case Nil
  then show ?case by simp
next
  case (Cons s ss)
  from save_section_wf[of ex s jd buf k] Cons.prems obtain k1 where
    k1: "save_section ex plenty jd s buf k = Some (Some (buf @ section_image ex (scan_data jd) s),
      length (buf @ section_image ex (scan_data jd) s), k1)" by auto
  from Cons.IH[of "buf @ section_image ex (scan_data jd) s" k1] Cons.prems obtain k2 where
    "save_sections ex plenty jd ss (Some (buf @ section_image ex (scan_data jd) s),
        length (buf @ section_image ex (scan_data jd) s), k1) =
      Some (Some ((buf @ section_image ex (scan_data jd) s) @ concat (map (section_image ex (scan_data jd)) ss)),
        length ((buf @ section_image ex (scan_data jd) s) @ concat (map (section_image ex (scan_data jd)) ss)), k2)"
    by auto
  with k1 show ?case by auto
qed

lemma skip_ff_marker:
  assumes "d = pre @ 0xff # m # rest" and "m \<noteq> 0xff"
  shows "skip_ff d (length pre) = 1"
  using assms by (simp add: skip_ff_def take_Cons')

lemma marker_not_ff: "JPEG_IS_MARKER m \<Longrightarrow> m \<noteq> 0xff"
  by (auto simp: JPEG_IS_MARKER_def)

lemma load_loop_marker:
  assumes d: "d = pre @ 0xff # m # rest" and m: "JPEG_IS_MARKER m"
    and s: "load_section ex al d (Suc (length pre)) jd = Some (jd', Some q)"
  shows "load_loop ex al d (length pre) jd = load_loop ex al d q jd'"
proof -
  have "skip_ff d (length pre) = 1" by (rule skip_ff_marker[OF d marker_not_ff[OF m]])
  moreover have "d ! Suc (length pre) = m" using d by (simp add: nth_append)
  ultimately show ?thesis using s m d by (subst load_loop.simps) simp
qed

lemma append_set_last:
  "jpeg_data_append_section plenty jd =
    jd\<lparr>jd_allocs := Suc (jd_allocs jd), jd_sections := jd_sections jd @ [\<lparr>s_marker = 0, s_content = Zeroed\<rparr>]\<rparr>"
  by (simp add: jpeg_data_append_section_def Let_def)

lemma window_at: "n = length xs \<Longrightarrow> l = length ys \<Longrightarrow> window n l (xs @ ys @ zs) = ys"
  by (simp add: window_def)

text \<open>Reading a section with a body back.\<close>

lemma load_section_body:
  assumes d: "d = pre @ [0xff, m] @ be16 (length bytes + 2) @ bytes @ rest"
    and len: "length bytes + 2 < 65536" and m: "m \<noteq> SOI_b" "m \<noteq> EOI_b"
  shows "load_section ex plenty d (Suc (length pre)) jd =
    load_content ex plenty d m (length pre + 4) (length bytes)
      (jd\<lparr>jd_allocs := Suc (jd_allocs jd), jd_sections := jd_sections jd @ [\<lparr>s_marker = m, s_content = Zeroed\<rparr>]\<rparr>)"
proof -
  let ?b = "be16 (length bytes + 2)"
  obtain a b where ab: "?b = [a, b]" by (simp add: be16_def)
  have sl: "section_len a b = length bytes" using section_len_be16[OF len, unfolded ab] by simp
  have d': "d = (pre @ [0xff]) @ m # a # b # bytes @ rest" using d unfolding ab by simp
  have at: "read_at d (Suc (length pre)) = Some m" "read_at d (Suc (Suc (length pre))) = Some a"
    "read_at d (Suc (Suc (Suc (length pre)))) = Some b"
    by (simp_all add: d' nth_append)
  have "length d = length pre + 4 + length bytes + length rest" by (simp add: d')
  then show ?thesis
    using m at sl by (simp add: load_section_def append_set_last set_last_def Let_def numeral_eq_Suc)
qed

lemma load_step_generic:
  assumes d: "d = pre @ [0xff, m] @ be16 (length bytes + 2) @ bytes @ rest"
    and len: "length bytes + 2 < 65536" and m: "m \<noteq> SOI_b" "m \<noteq> EOI_b" "m \<noteq> APP1_b" "m \<noteq> SOS_b"
  shows "\<exists>k. load_section ex plenty d (Suc (length pre)) jd =
    Some (jd\<lparr>jd_sections := jd_sections jd @ [\<lparr>s_marker = m, s_content = GenericC bytes\<rparr>], jd_allocs := k\<rparr>,
      Some (length pre + 4 + length bytes))"
proof -
  have d': "d = (pre @ [0xff, m] @ be16 (length bytes + 2)) @ bytes @ rest" using d by simp
  have w: "window (length pre + 4) (length bytes) d = bytes"
    unfolding d' by (rule window_at) simp_all
  have l: "length pre + 4 + length bytes \<le> length d" by (simp add: d')
  show ?thesis
    unfolding load_section_body[OF d len m(1,2)]
    using m w l by (cases jd) (simp add: load_content_def set_last_def Let_def)
qed

lemma load_step_app1:
  assumes d: "d = pre @ [0xff, APP1_b] @ be16 (length ed + 2) @ ed @ rest"
    and len: "length ed + 2 < 65536"
  shows "\<exists>k. load_section ex plenty d (Suc (length pre)) jd =
    Some (jd\<lparr>jd_sections := jd_sections jd @ [\<lparr>s_marker = APP1_b,
        s_content = App1C (exif_new ex ([0xff, APP1_b] @ be16 (length ed + 2) @ ed))\<rparr>], jd_allocs := k\<rparr>,
      Some (length pre + 4 + length ed))"
proof -
  let ?w = "[0xff, APP1_b] @ be16 (length ed + 2) @ ed"
  have d': "d = pre @ ?w @ rest" using d by simp
  have w: "window (length pre) (length ed + 4) d = ?w"
    unfolding d' by (rule window_at) simp_all
  have l: "length pre + 4 + length ed \<le> length d" by (simp add: d')
  show ?thesis
    unfolding load_section_body[OF d len, simplified]
    using w l by (cases jd) (simp add: load_content_def set_last_def Let_def)
qed

lemma load_loop_app1:
  assumes d: "d = pre @ [0xff, APP1_b] @ be16 (length ed + 2) @ ed @ rest"
    and len: "length ed + 2 < 65536"
  shows "\<exists>k. load_loop ex plenty d (length pre) jd =
    load_loop ex plenty d (length (pre @ [0xff, APP1_b] @ be16 (length ed + 2) @ ed))
      (jd\<lparr>jd_sections := jd_sections jd @ [\<lparr>s_marker = APP1_b,
        s_content = App1C (exif_new ex ([0xff, APP1_b] @ be16 (length ed + 2) @ ed))\<rparr>], jd_allocs := k\<rparr>)"
proof -
  have dm: "d = pre @ 0xff # APP1_b # (be16 (length ed + 2) @ ed @ rest)" using d by simp
  have m: "JPEG_IS_MARKER APP1_b" by (simp add: JPEG_IS_MARKER_def)
  obtain k where k: "load_section ex plenty d (Suc (length pre)) jd =
    Some (jd\<lparr>jd_sections := jd_sections jd @ [\<lparr>s_marker = APP1_b,
        s_content = App1C (exif_new ex ([0xff, APP1_b] @ be16 (length ed + 2) @ ed))\<rparr>], jd_allocs := k\<rparr>,
      Some (length pre + 4 + length ed))"
    using load_step_app1[OF d len] by blast
  have "length pre + 4 + length ed = length (pre @ [0xff, APP1_b] @ be16 (length ed + 2) @ ed)" by simp
  with load_loop_marker[OF dm m k] show ?thesis by metis
qed

lemma load_step_empty:
  assumes "d = pre @ [0xff, m] @ rest" and "m = SOI_b \<or> m = EOI_b"
  shows "\<exists>k. load_section ex plenty d (Suc (length pre)) jd =
    Some (jd\<lparr>jd_sections := jd_sections jd @ [\<lparr>s_marker = m, s_content = Zeroed\<rparr>], jd_allocs := k\<rparr>,
      Some (length pre + 2))"
  using assms by (cases jd) (auto simp: load_section_def append_set_last set_last_def Let_def nth_append)

lemma load_step_scan:
  assumes d: "d = pre @ [0xff, SOS_b] @ be16 (length hdr + 2) @ hdr @ img @ [0xff, EOI_b]"
    and len: "length hdr + 2 < 65536"
  shows "\<exists>k. load_section ex plenty d (Suc (length pre)) jd =
    Some (jd\<lparr>jd_sections := jd_sections jd @ [\<lparr>s_marker = SOS_b, s_content = GenericC hdr\<rparr>],
        jd_data := Some img, jd_size := length img, jd_allocs := k\<rparr>,
      Some (length pre + 4 + length hdr + length img))"
proof -
  let ?p = "length pre + 4 + length hdr"
  have d1: "d = pre @ [0xff, SOS_b] @ be16 (length hdr + 2) @ hdr @ (img @ [0xff, EOI_b])" using d by simp
  have d2: "d = (pre @ [0xff, SOS_b] @ be16 (length hdr + 2)) @ hdr @ (img @ [0xff, EOI_b])" using d by simp
  have d3: "d = (pre @ [0xff, SOS_b] @ be16 (length hdr + 2) @ hdr) @ img @ [0xff, EOI_b]" using d by simp
  have w1: "window (length pre + 4) (length hdr) d = hdr"
    unfolding d2 by (rule window_at) simp_all
  have w2: "window ?p (length img) d = img"
    unfolding d3 by (rule window_at) simp_all
  have l: "length d = ?p + length img + 2" by (simp add: d3)
  have "d = (pre @ [0xff, SOS_b] @ be16 (length hdr + 2) @ hdr @ img) @ [0xff, EOI_b]" using d by simp
  then have "d ! (?p + length img) = 0xff" by (simp add: nth_append)
  then have sc: "scan_size d ?p (length d - ?p) = Some (length img)" using l by (simp add: scan_size_def)
  have c: "load_scan plenty d ?p jd' = Some (jd'\<lparr>jd_allocs := Suc (jd_allocs jd'), jd_data := Some img,
      jd_size := length img\<rparr>, Some (?p + length img))" for jd' :: "'a JPEGData"
    using sc w2 l by (simp add: load_scan_def Let_def)
  show ?thesis
    unfolding load_section_body[OF d1 len, simplified]
    using w1 l by (cases jd) (simp add: load_content_def c set_last_def Let_def)
qed

lemma load_step_wf:
  assumes d: "d = pre @ section_image ex img s @ rest" and wf: "wf_section ex s" and ns: "s_marker s \<noteq> SOS_b"
  shows "\<exists>k. load_loop ex plenty d (length pre) jd =
    load_loop ex plenty d (length (pre @ section_image ex img s)) (jd\<lparr>jd_sections := jd_sections jd @ [s], jd_allocs := k\<rparr>)"
proof -
  obtain m c where s: "s = \<lparr>s_marker = m, s_content = c\<rparr>" by (cases s) simp
  have m: "JPEG_IS_MARKER m" using wf s by (simp add: wf_section_def)
  obtain tl where dm: "d = pre @ 0xff # m # tl" using d s by (simp add: section_image_def)
  consider (empty) "m = SOI_b \<or> m = EOI_b" "c = Zeroed"
    | (app1) e ed where "m = APP1_b" "c = App1C (Some e)" "exif_save ex e = Some ed" "length ed + 2 < 65536"
        "exif_new ex ([0xff, APP1_b] @ be16 (length ed + 2) @ ed) = Some e"
    | (generic) bytes where "m \<noteq> SOI_b" "m \<noteq> EOI_b" "m \<noteq> APP1_b" "c = GenericC bytes" "length bytes + 2 < 65536"
    using wf s by (auto simp: wf_section_def split: if_splits)
  then show ?thesis
  proof cases
    case empty
    then have i: "section_image ex img s = [0xff, m]" by (auto simp: s section_image_def section_body_def)
    have "d = pre @ [0xff, m] @ rest" using d i by simp
    from load_step_empty[OF this empty(1), of ex jd] obtain k where
      "load_section ex plenty d (Suc (length pre)) jd = Some (jd\<lparr>jd_sections := jd_sections jd @ [s], jd_allocs := k\<rparr>,
        Some (length pre + 2))" by (auto simp: s empty(2))
    moreover have "length pre + 2 = length (pre @ section_image ex img s)" by (simp add: i)
    ultimately show ?thesis using load_loop_marker[OF dm m] by metis
  next
    case app1
    then have i: "section_image ex img s = [0xff, APP1_b] @ be16 (length ed + 2) @ ed"
      by (simp add: s section_image_def section_body_def)
    have "d = pre @ [0xff, APP1_b] @ be16 (length ed + 2) @ ed @ rest" using d i by simp
    from load_step_app1[OF this app1(4), of ex jd] obtain k where
      "load_section ex plenty d (Suc (length pre)) jd = Some (jd\<lparr>jd_sections := jd_sections jd @ [s], jd_allocs := k\<rparr>,
        Some (length pre + 4 + length ed))"
      unfolding app1(5) by (auto simp: s app1(1,2))
    moreover have "length pre + 4 + length ed = length (pre @ section_image ex img s)" by (simp add: i)
    ultimately show ?thesis using load_loop_marker[OF dm m] by metis
  next
    case generic
    then have i: "section_image ex img s = [0xff, m] @ be16 (length bytes + 2) @ bytes" using ns
      by (simp add: s section_image_def section_body_def)
    have "d = pre @ [0xff, m] @ be16 (length bytes + 2) @ bytes @ rest" using d i by simp
    from load_step_generic[OF this generic(5,1-3), of ex jd] ns obtain k where
      "load_section ex plenty d (Suc (length pre)) jd = Some (jd\<lparr>jd_sections := jd_sections jd @ [s], jd_allocs := k\<rparr>,
        Some (length pre + 4 + length bytes))"
      by (auto simp: s generic(4))
    moreover have "length pre + 4 + length bytes = length (pre @ section_image ex img s)" by (simp add: i)
    ultimately show ?thesis using load_loop_marker[OF dm m] by metis
  qed
qed

lemma load_steps_wf:
  assumes "d = pre @ concat (map (section_image ex img) ss) @ rest"
    and "\<forall>s\<in>set ss. wf_section ex s \<and> s_marker s \<noteq> SOS_b"
  shows "\<exists>k. load_loop ex plenty d (length pre) jd =
    load_loop ex plenty d (length (pre @ concat (map (section_image ex img) ss)))
      (jd\<lparr>jd_sections := jd_sections jd @ ss, jd_allocs := k\<rparr>)"
  using assms
proof (induction ss arbitrary: pre jd)
  case Nil
  show ?case by (intro exI[of _ "jd_allocs jd"]) simp
next
  case (Cons s ss)
  have d: "d = pre @ section_image ex img s @ (concat (map (section_image ex img) ss) @ rest)"
    using Cons.prems(1) by simp
  from load_step_wf[OF d, of jd] Cons.prems(2) obtain k where
    k: "load_loop ex plenty d (length pre) jd = load_loop ex plenty d (length (pre @ section_image ex img s))
      (jd\<lparr>jd_sections := jd_sections jd @ [s], jd_allocs := k\<rparr>)" by auto
  have d2: "d = (pre @ section_image ex img s) @ concat (map (section_image ex img) ss) @ rest" using d by simp
  from Cons.IH[OF d2, of "jd\<lparr>jd_sections := jd_sections jd @ [s], jd_allocs := k\<rparr>"] Cons.prems(2) k
  show ?case by auto
qed

text \<open>A file as cameras write it: sections, one scan with its image data, the end marker.\<close>

definition wf_file :: "'e exif_lib \<Rightarrow> 'e JPEGData \<Rightarrow> bool" where
  "wf_file ex jd \<longleftrightarrow> (\<exists>ss hdr img. jd_sections jd =
      ss @ [\<lparr>s_marker = SOS_b, s_content = GenericC hdr\<rparr>, \<lparr>s_marker = EOI_b, s_content = Zeroed\<rparr>] \<and>
     (\<forall>s\<in>set ss. wf_section ex s \<and> s_marker s \<noteq> SOS_b) \<and> length hdr + 2 < 65536 \<and>
     jd_data jd = Some img \<and> jd_size jd = length img)"

text \<open>The scan and the end marker, from wherever the loop stands.\<close>

lemma load_tail:
  assumes d: "d = pre @ [0xff, SOS_b] @ be16 (length hdr + 2) @ hdr @ img @ [0xff, EOI_b]"
    and hdr: "length hdr + 2 < 65536"
  shows "\<exists>k. load_loop ex plenty d (length pre) jd = Some (Done (jd\<lparr>jd_sections := jd_sections jd @
      [\<lparr>s_marker = SOS_b, s_content = GenericC hdr\<rparr>, \<lparr>s_marker = EOI_b, s_content = Zeroed\<rparr>],
      jd_data := Some img, jd_size := length img, jd_allocs := k\<rparr>))"
proof -
  let ?pre2 = "pre @ [0xff, SOS_b] @ be16 (length hdr + 2) @ hdr @ img"
  have dm: "d = pre @ 0xff # SOS_b # (be16 (length hdr + 2) @ hdr @ img @ [0xff, EOI_b])" using d by simp
  have m: "JPEG_IS_MARKER SOS_b" "JPEG_IS_MARKER EOI_b" by (simp_all add: JPEG_IS_MARKER_def)
  from load_step_scan[OF d hdr, of ex jd] obtain k2 where
    "load_section ex plenty d (Suc (length pre)) jd = Some (jd\<lparr>jd_sections := jd_sections jd @
      [\<lparr>s_marker = SOS_b, s_content = GenericC hdr\<rparr>], jd_data := Some img, jd_size := length img, jd_allocs := k2\<rparr>,
      Some (length pre + 4 + length hdr + length img))" by blast
  note step2 = load_loop_marker[OF dm m(1) this]
  let ?j2 = "jd\<lparr>jd_sections := jd_sections jd @ [\<lparr>s_marker = SOS_b, s_content = GenericC hdr\<rparr>],
    jd_data := Some img, jd_size := length img, jd_allocs := k2\<rparr>"
  have p2: "length pre + 4 + length hdr + length img = length ?pre2" by simp
  have d3: "d = ?pre2 @ [0xff, EOI_b] @ []" using d by simp
  have dm3: "d = ?pre2 @ 0xff # EOI_b # []" using d by simp
  from load_step_empty[OF d3, of ex ?j2] obtain k3 where
    "load_section ex plenty d (Suc (length ?pre2)) ?j2 = Some (?j2\<lparr>jd_sections := jd_sections ?j2 @
      [\<lparr>s_marker = EOI_b, s_content = Zeroed\<rparr>], jd_allocs := k3\<rparr>, Some (length ?pre2 + 2))" by auto
  note step3 = load_loop_marker[OF dm3 m(2) this]
  have "length d \<le> length ?pre2 + 2" by (simp add: d3)
  then have e: "load_loop ex plenty d (length ?pre2 + 2) jd' = Some (Done jd')" for jd' :: "'a JPEGData"
    by (subst load_loop.simps) simp
  show ?thesis
    unfolding step2 p2 step3 e by (intro exI[of _ k3]) (cases jd, simp)
qed

lemma load_file_from:
  assumes d: "d = pre @ concat (map (section_image ex img) ss) @
      section_image ex img \<lparr>s_marker = SOS_b, s_content = GenericC hdr\<rparr> @ [0xff, EOI_b]"
    and ss: "\<forall>s\<in>set ss. wf_section ex s \<and> s_marker s \<noteq> SOS_b" and hdr: "length hdr + 2 < 65536"
  shows "\<exists>k. load_loop ex plenty d (length pre) jd = Some (Done (jd\<lparr>jd_sections := jd_sections jd @ ss @
      [\<lparr>s_marker = SOS_b, s_content = GenericC hdr\<rparr>, \<lparr>s_marker = EOI_b, s_content = Zeroed\<rparr>],
      jd_data := Some img, jd_size := length img, jd_allocs := k\<rparr>))"
proof -
  let ?pre = "pre @ concat (map (section_image ex img) ss)"
  have d2: "d = ?pre @ [0xff, SOS_b] @ be16 (length hdr + 2) @ hdr @ img @ [0xff, EOI_b]"
    using d by (simp add: section_image_def section_body_def)
  from load_steps_wf[OF d ss, of jd] obtain k where
    k: "load_loop ex plenty d (length pre) jd = load_loop ex plenty d (length ?pre)
      (jd\<lparr>jd_sections := jd_sections jd @ ss, jd_allocs := k\<rparr>)" by auto
  from load_tail[OF d2 hdr, of ex "jd\<lparr>jd_sections := jd_sections jd @ ss, jd_allocs := k\<rparr>"] obtain k2 where
    "load_loop ex plenty d (length ?pre) (jd\<lparr>jd_sections := jd_sections jd @ ss, jd_allocs := k\<rparr>) =
      Some (Done (jd\<lparr>jd_sections := jd_sections jd @ ss @
      [\<lparr>s_marker = SOS_b, s_content = GenericC hdr\<rparr>, \<lparr>s_marker = EOI_b, s_content = Zeroed\<rparr>],
      jd_data := Some img, jd_size := length img, jd_allocs := k2\<rparr>))" by (cases jd) auto
  with k show ?thesis by auto
qed

lemma load_file:
  assumes d: "d = concat (map (section_image ex img) ss) @
      section_image ex img \<lparr>s_marker = SOS_b, s_content = GenericC hdr\<rparr> @ [0xff, EOI_b]"
    and ss: "\<forall>s\<in>set ss. wf_section ex s \<and> s_marker s \<noteq> SOS_b" and hdr: "length hdr + 2 < 65536"
  shows "\<exists>k. load_loop ex plenty d 0 jd = Some (Done (jd\<lparr>jd_sections := jd_sections jd @ ss @
      [\<lparr>s_marker = SOS_b, s_content = GenericC hdr\<rparr>, \<lparr>s_marker = EOI_b, s_content = Zeroed\<rparr>],
      jd_data := Some img, jd_size := length img, jd_allocs := k\<rparr>))"
  using load_file_from[of d "[]" ex img ss hdr jd] assms by simp

subsection \<open>Properties\<close>

text \<open>C24: Loading never reads outside the data, and it ends unless the data begins with a byte other
  than 0xff: then the loop repeats for ever without doing anything.\<close>

theorem jpeg_load_outcome:
  "(jpeg_data_load_data ex al d jd = None \<longleftrightarrow> d \<noteq> [] \<and> hd d \<noteq> 0xff) \<and>
   jpeg_data_load_data ex al d jd \<noteq> Some Fault"
proof (cases "d = []")
  case True
  then show ?thesis by (simp add: jpeg_data_load_data_def)
next
  case False
  show ?thesis
  proof (cases "hd d = 0xff")
    case True
    with False load_loop_total[of 0 d ex al jd] show ?thesis
      by (auto simp: jpeg_data_load_data_def hd_conv_nth)
  next
    case ne: False
    with False load_loop_stuck[of d ex al jd] show ?thesis
      by (auto simp: jpeg_data_load_data_def hd_conv_nth)
  qed
qed

text \<open>C12: A file that the printer writes is read back as the same sections and image data, if
  libexif reads back what it wrote and sections fit their 16-bit length.\<close>

theorem jpeg_save_load:
  assumes "wf_file ex jd" and "jd_sections jd0 = []"
  shows "\<exists>bytes n k jd'. jpeg_data_save_data ex plenty jd = Some (Some bytes, n, k) \<and> n = length bytes \<and>
    jpeg_data_load_data ex plenty bytes jd0 = Some (Done jd') \<and>
    jd_sections jd' = jd_sections jd \<and> jd_data jd' = jd_data jd \<and> jd_size jd' = jd_size jd"
proof -
  from assms(1) obtain ss hdr img where
    secs: "jd_sections jd = ss @ [\<lparr>s_marker = SOS_b, s_content = GenericC hdr\<rparr>, \<lparr>s_marker = EOI_b, s_content = Zeroed\<rparr>]"
    and ss: "\<forall>s\<in>set ss. wf_section ex s \<and> s_marker s \<noteq> SOS_b" and hdr: "length hdr + 2 < 65536"
    and img: "jd_data jd = Some img" "jd_size jd = length img" by (auto simp: wf_file_def)
  have sd: "scan_data jd = img" by (simp add: scan_data_def img)
  have wf: "\<forall>s\<in>set (jd_sections jd). wf_section ex s"
    using ss hdr secs by (auto simp: wf_section_def JPEG_IS_MARKER_def)
  then have wf': "\<forall>s\<in>set (tl (jd_sections jd)). wf_section ex s" by (cases "jd_sections jd") auto
  let ?d = "concat (map (section_image ex img) (jd_sections jd))"
  obtain s0 ss0 where c: "jd_sections jd = s0 # ss0" using secs by (cases ss) auto
  from save_section_wf[of ex s0 jd "[]" "jd_allocs jd"] wf c obtain k1 where
    "save_section ex plenty jd s0 [] (jd_allocs jd) =
      Some (Some (section_image ex img s0), length (section_image ex img s0), k1)" by (auto simp: sd)
  moreover from save_sections_wf[of ss0 ex jd "section_image ex img s0" k1] wf c obtain k where
    "save_sections ex plenty jd ss0 (Some (section_image ex img s0), length (section_image ex img s0), k1) =
      Some (Some (section_image ex img s0 @ concat (map (section_image ex img) ss0)),
        length (section_image ex img s0 @ concat (map (section_image ex img) ss0)), k)" by (auto simp: sd)
  ultimately have save: "jpeg_data_save_data ex plenty jd = Some (Some ?d, length ?d, k)"
    by (simp add: jpeg_data_save_data_def c)
  have d: "?d = concat (map (section_image ex img) ss) @
      section_image ex img \<lparr>s_marker = SOS_b, s_content = GenericC hdr\<rparr> @ [0xff, EOI_b]"
    by (simp add: secs section_image_def section_body_def)
  from load_file[OF d ss hdr, of jd0] obtain k' where
    load: "load_loop ex plenty ?d 0 jd0 = Some (Done (jd0\<lparr>jd_sections := jd_sections jd0 @ ss @
      [\<lparr>s_marker = SOS_b, s_content = GenericC hdr\<rparr>, \<lparr>s_marker = EOI_b, s_content = Zeroed\<rparr>],
      jd_data := Some img, jd_size := length img, jd_allocs := k'\<rparr>))" by blast
  obtain bytes where b: "bytes = ?d" by blast
  have "bytes \<noteq> []" by (simp add: b secs section_image_def)
  with load[folded b] have "jpeg_data_load_data ex plenty bytes jd0 = Some (Done (jd0\<lparr>jd_sections := jd_sections jd,
      jd_data := Some img, jd_size := length img, jd_allocs := k'\<rparr>))"
    by (simp add: jpeg_data_load_data_def secs assms(2))
  with save[folded b] img show ?thesis by auto
qed

text \<open>A libexif whose objects are their own serialization, and a small picture.\<close>

definition demo_exif :: "byte list exif_lib" where
  "demo_exif = \<lparr>exif_new = (\<lambda>d. Some (drop 4 d)), exif_save = Some\<rparr>"

definition demo_picture :: "byte list JPEGData" where
  "demo_picture = \<lparr>jd_sections = [\<lparr>s_marker = SOI_b, s_content = Zeroed\<rparr>,
      \<lparr>s_marker = APP1_b, s_content = App1C (Some [1, 2, 3])\<rparr>,
      \<lparr>s_marker = 0xdb, s_content = GenericC [7, 8]\<rparr>,
      \<lparr>s_marker = SOS_b, s_content = GenericC [9]\<rparr>, \<lparr>s_marker = EOI_b, s_content = Zeroed\<rparr>],
     jd_data = Some [10, 11, 12], jd_size = 3, jd_refs = 1, jd_allocs = 0\<rparr>"

theorem jpeg_save_load_witness:
  "\<exists>bytes n k jd'. jpeg_data_save_data demo_exif plenty demo_picture = Some (Some bytes, n, k) \<and>
    jpeg_data_load_data demo_exif plenty bytes (the (jpeg_data_new plenty)) = Some (Done jd') \<and>
    jd_sections jd' = jd_sections demo_picture"
proof -
  have "jd_sections demo_picture = [\<lparr>s_marker = SOI_b, s_content = Zeroed\<rparr>,
      \<lparr>s_marker = APP1_b, s_content = App1C (Some [1, 2, 3])\<rparr>, \<lparr>s_marker = 0xdb, s_content = GenericC [7, 8]\<rparr>] @
      [\<lparr>s_marker = SOS_b, s_content = GenericC [9]\<rparr>, \<lparr>s_marker = EOI_b, s_content = Zeroed\<rparr>]"
    by (simp add: demo_picture_def)
  moreover have "wf_section demo_exif \<lparr>s_marker = SOI_b, s_content = Zeroed\<rparr>"
    "wf_section demo_exif \<lparr>s_marker = APP1_b, s_content = App1C (Some [1, 2, 3])\<rparr>"
    "wf_section demo_exif \<lparr>s_marker = 0xdb, s_content = GenericC [7, 8]\<rparr>"
    by (simp_all add: wf_section_def demo_exif_def JPEG_IS_MARKER_def be16_def)
  ultimately have "wf_file demo_exif demo_picture"
    unfolding wf_file_def
    by (intro exI[of _ "[\<lparr>s_marker = SOI_b, s_content = Zeroed\<rparr>,
      \<lparr>s_marker = APP1_b, s_content = App1C (Some [1, 2, 3])\<rparr>, \<lparr>s_marker = 0xdb, s_content = GenericC [7, 8]\<rparr>]"]
      exI[of _ "[9]"] exI[of _ "[10, 11, 12]"]) (simp add: demo_picture_def)
  moreover have "jd_sections (the (jpeg_data_new plenty) :: byte list JPEGData) = []"
    by (simp add: jpeg_data_new_def)
  ultimately show ?thesis using jpeg_save_load by blast
qed

text \<open>Setting the exif data of a picture with at least one section replaces its exif section, or
  inserts one as its second section, and getting it then returns it. A picture without any
  section does not take it and is left with an empty section of marker 0.\<close>

theorem exif_set_get:
  "(if jd_sections jd = []
    then jd_sections (jpeg_data_set_exif_data plenty e jd) = [\<lparr>s_marker = 0, s_content = Zeroed\<rparr>] \<and>
      jpeg_data_get_exif_data (jpeg_data_set_exif_data plenty e jd) = Some None
    else jpeg_data_get_exif_data (jpeg_data_set_exif_data plenty e jd) = Some (Some e) \<and>
      (APP1_b \<notin> set (map s_marker (jd_sections jd)) \<longrightarrow>
        jd_sections (jpeg_data_set_exif_data plenty e jd) =
          hd (jd_sections jd) # \<lparr>s_marker = APP1_b, s_content = App1C (Some e)\<rparr> # tl (jd_sections jd)))"
proof -
  let ?ss = "jd_sections jd"
  let ?P = "\<lambda>i. s_marker (?ss ! i) = APP1_b"
  have none: "jpeg_data_get_section jd APP1_b = None \<longleftrightarrow> APP1_b \<notin> set (map s_marker ?ss)"
    by (simp add: jpeg_data_get_section_def find_None_iff image_iff Ball_def flip: all_set_conv_all_nth[of ?ss "\<lambda>s. s_marker s \<noteq> APP1_b"])
  show ?thesis
  proof (cases "jpeg_data_get_section jd APP1_b")
    case None
    show ?thesis
    proof (cases ?ss)
      case Nil
      with None show ?thesis
        by (simp add: jpeg_data_set_exif_data_def append_set_last jpeg_data_get_exif_data_def
            jpeg_data_get_section_def)
    next
      case (Cons s ss)
      then have n: "s_marker s \<noteq> APP1_b" using none None by simp
      have "jd_sections (jpeg_data_set_exif_data plenty e jd) =
          s # \<lparr>s_marker = APP1_b, s_content = App1C (Some e)\<rparr> # ss"
        using None Cons by (simp add: jpeg_data_set_exif_data_def append_set_last Let_def)
      then show ?thesis using Cons n
        by (simp add: jpeg_data_get_exif_data_def jpeg_data_get_section_def upt_rec[of 0] upt_rec[of "Suc 0"])
    qed
  next
    case (Some i)
    then have i: "i < length ?ss" "?P i" "\<forall>j<i. \<not> ?P j"
      by (auto simp: jpeg_data_get_section_def find_Some_iff)
    let ?jd = "jpeg_data_set_exif_data plenty e jd"
    have ss: "jd_sections ?jd = ?ss[i := \<lparr>s_marker = APP1_b, s_content = App1C (Some e)\<rparr>]"
      using Some by (simp add: jpeg_data_set_exif_data_def Let_def)
    have "jpeg_data_get_section ?jd APP1_b = Some i"
      unfolding jpeg_data_get_section_def ss find_Some_iff using i by (auto intro!: exI[of _ i] simp: nth_list_update)
    then show ?thesis using i ss none Some by (auto simp: jpeg_data_get_exif_data_def)
  qed
qed

theorem exif_set_get_witness:
  "jpeg_data_get_exif_data (jpeg_data_set_exif_data plenty [5] demo_picture) = Some (Some [5])"
proof -
  have "jd_sections demo_picture \<noteq> []" by (simp add: demo_picture_def)
  with exif_set_get[of demo_picture "[5]"] show ?thesis by simp
qed

end
