(* ===== verification/JpegCapture.thy ===== *)
theory JpegCapture
  imports MediaRecorder DeviceStatus JpegData
begin

text \<open>
  \<open>src/src/jpeg_capture.cpp\<close>: a JPEG frame of the camera becomes a file with EXIF and XMP data.
  libexif and the floating-point unit are parameters: the bytes of a set of EXIF entries
  (\<open>exif_data_save_data\<close>, empty where it fails), and in \<open>float_unit\<close> the few \<open>float\<close> results the
  code needs. Files are parameters too: whether the file opens, and what each \<open>write\<close> returns.
\<close>

subsection \<open>The EXIF data of the camera\<close>

record T_BF_DCF_IF_FRACTION =
  nume :: u32
  denomi :: u32

record T_BF_DCF_IF_DATE =
  ad_year :: u16
  month :: byte
  day :: byte
  hour :: byte
  min_of_hour :: byte
  sec :: byte

record T_BF_DCF_IF_GPS =
  latitude_ref :: byte
  gps_latitude :: "T_BF_DCF_IF_FRACTION list"
  longitude_ref :: byte
  gps_longitude :: "T_BF_DCF_IF_FRACTION list"
  img_direction_ref :: byte
  img_direction :: T_BF_DCF_IF_FRACTION

record T_BF_DCF_IF_EXIF_INFO =
  info_width :: u16
  info_lines :: u16
  ev :: u64
  info_date :: T_BF_DCF_IF_DATE
  exposure_time :: T_BF_DCF_IF_FRACTION
  f_value :: T_BF_DCF_IF_FRACTION
  exposure_prog :: u32
  shutter_speed :: T_BF_DCF_IF_FRACTION
  aperture :: T_BF_DCF_IF_FRACTION
  max_aperture :: T_BF_DCF_IF_FRACTION
  metering :: byte
  light_source :: byte
  flash :: u16
  dzoom_ratio :: T_BF_DCF_IF_FRACTION
  iso_value :: u16
  focal_length :: T_BF_DCF_IF_FRACTION
  sharpness :: u16
  maker_note_length :: u16
  qvga_enable :: u16
  info_gps :: T_BF_DCF_IF_GPS

text \<open>
  \<open>ev10\<close>: \<open>static_cast<int> (ev * 10)\<close>; \<open>brightness100\<close>: \<open>get_ev_brightness\<close> of an exposure time
  and an ISO value, times 100, as an integer; \<open>show_float\<close>: a \<open>float\<close> printed with \<open>%f\<close>;
  \<open>cast_undef\<close>: a conversion to \<open>uint32_t\<close> of a number outside its range, which C++ leaves
  undefined.
\<close>

record float_unit =
  ev10 :: "u64 \<Rightarrow> u32"
  brightness100 :: "T_BF_DCF_IF_FRACTION \<Rightarrow> u16 \<Rightarrow> u32"
  show_float :: "u32 \<Rightarrow> string"
  cast_undef :: "int \<Rightarrow> u32"

subsection \<open>Degrees\<close>

fun bit_count :: "nat \<Rightarrow> nat" where
  "bit_count n = (if n = 0 then 0 else Suc (bit_count (n div 2)))"

declare bit_count.simps [simp del]

text \<open>An integer rounded to a \<open>float\<close> (24 significant bits, ties to even), which is integral again.\<close>

definition round_float :: "int \<Rightarrow> int" where
  "round_float x =
    (let n = nat \<bar>x\<bar>; e = bit_count n - 24; q = n div 2 ^ e; r = n mod 2 ^ e;
         up = (e > 0 \<and> (2 * r > 2 ^ e \<or> (2 * r = 2 ^ e \<and> odd q)))
     in sgn x * int ((if up then q + 1 else q) * 2 ^ e))"

definition float_to_u32 :: "(int \<Rightarrow> u32) \<Rightarrow> int \<Rightarrow> u32" where
  "float_to_u32 undef x = (if 0 \<le> x \<and> x < 2 ^ 32 then word_of_int x else undef x)"

record GPS_DEGREE =
  degrees :: u32
  minutes :: u32
  seconds :: u32

text \<open>The callers pass a 32-bit integer, so that every \<open>float\<close> of the function is an integer.\<close>

definition float_to_degree :: "(int \<Rightarrow> u32) \<Rightarrow> u32 \<Rightarrow> GPS_DEGREE" where
  "float_to_degree undef w =
    (let decimal = round_float (sint w);
         d = float_to_u32 undef decimal;
         frac = round_float (round_float (decimal - round_float (uint d)) * 60);
         m = float_to_u32 undef frac;
         s = float_to_u32 undef (round_float (round_float (frac - round_float (uint m)) * 60))
     in \<lparr>degrees = d, minutes = m, seconds = s\<rparr>)"

subsection \<open>Entries\<close>

datatype exif_tag = EXIF_TAG_ARTIST | EXIF_TAG_MAKE | EXIF_TAG_MODEL | EXIF_TAG_SOFTWARE
  | EXIF_TAG_RESOLUTION_UNIT | EXIF_TAG_X_RESOLUTION | EXIF_TAG_Y_RESOLUTION
  | EXIF_TAG_DATE_TIME_ORIGINAL | EXIF_TAG_DATE_TIME | EXIF_TAG_DATE_TIME_DIGITIZED
  | ExifTag nat | EXIF_TAG_ISO_SPEED_RATINGS | EXIF_TAG_EXPOSURE_TIME | EXIF_TAG_FNUMBER
  | EXIF_TAG_FOCAL_LENGTH | EXIF_TAG_SHARPNESS | EXIF_TAG_METERING_MODE
  | EXIF_TAG_EXPOSURE_BIAS_VALUE | EXIF_TAG_FLASH | EXIF_TAG_EXIF_VERSION
  | EXIF_TAG_BRIGHTNESS_VALUE | EXIF_TAG_MAKER_NOTE
  | EXIF_TAG_GPS_ALTITUDE | EXIF_TAG_GPS_LONGITUDE | EXIF_TAG_GPS_LATITUDE
  | EXIF_TAG_GPS_LATITUDE_REF | EXIF_TAG_GPS_LONGITUDE_REF | EXIF_TAG_GPS_ALTITUDE_REF
  | EXIF_TAG_GPS_VERSION_ID

datatype exif_format = EXIF_FORMAT_BYTE | EXIF_FORMAT_ASCII | EXIF_FORMAT_SHORT
  | EXIF_FORMAT_RATIONAL | EXIF_FORMAT_UNDEFINED | EXIF_FORMAT_SSHORT | EXIF_FORMAT_SRATIONAL

text \<open>
  The parts of libexif that build entries: the size of a format, and the bytes of a short and of a
  rational in the byte order of the object (\<open>EXIF_BYTE_ORDER_INTEL\<close>).
\<close>

record exif_codec =
  exif_format_get_size :: "exif_format \<Rightarrow> nat"
  exif_set_short :: "u16 \<Rightarrow> byte list"
  exif_set_rational :: "u32 \<Rightarrow> u32 \<Rightarrow> byte list"

text \<open>\<open>e_data\<close> is what is in the array that the entry points to, \<open>e_size\<close> what libexif reads of it.\<close>

record exif_entry =
  e_tag :: exif_tag
  e_format :: exif_format
  e_components :: nat
  e_size :: nat
  e_data :: "byte list"

definition new_exif_entry ::
    "exif_codec \<Rightarrow> exif_tag \<Rightarrow> exif_format \<Rightarrow> byte list \<Rightarrow> nat \<Rightarrow> exif_entry list \<Rightarrow> exif_entry list" where
  "new_exif_entry X tag fmt data component_number content = content @
     [\<lparr>e_tag = tag, e_format = fmt, e_components = component_number,
       e_size = exif_format_get_size X fmt * component_number, e_data = data\<rparr>]"

definition exif_ifd_0 :: "exif_codec \<Rightarrow> exif_entry list" where
  "exif_ifd_0 X =
    (new_exif_entry X EXIF_TAG_Y_RESOLUTION EXIF_FORMAT_RATIONAL (exif_set_rational X 350 1) 1 \<circ>
     new_exif_entry X EXIF_TAG_X_RESOLUTION EXIF_FORMAT_RATIONAL (exif_set_rational X 350 1) 1 \<circ>
     new_exif_entry X EXIF_TAG_RESOLUTION_UNIT EXIF_FORMAT_SHORT (exif_set_short X 2) 1 \<circ>
     new_exif_entry X EXIF_TAG_SOFTWARE EXIF_FORMAT_ASCII (c_str ''v0.1.2'') (6 + 1) \<circ>
     new_exif_entry X EXIF_TAG_MODEL EXIF_FORMAT_ASCII (c_str ''FT1-2616'') (8 + 1) \<circ>
     new_exif_entry X EXIF_TAG_MAKE EXIF_FORMAT_ASCII (c_str ''Fiytoun Icont'') 14 \<circ>
     new_exif_entry X EXIF_TAG_ARTIST EXIF_FORMAT_ASCII (c_str ''Fiytoun Icont'') 14) []"

definition maker_note :: "float_unit \<Rightarrow> device_status \<Rightarrow> string" where
  "maker_note fu st =
     ''shutter_count='' @ show_int (shutter_count st) @ [CHR 0x0A] @
     ''cmos_temperature='' @ show_float fu (cmos_temperature st) @ [CHR 0x0A] @
     ''input_voltage='' @ show_float fu (input_voltage st) @ [CHR 0x0A] @
     ''jpeg_quality_level='' @ show_int (jpeg_quality_level st) @ [CHR 0x0A] @
     ''shutter_mode='' @ show_int (shutter_mode st) @ [CHR 0x0A] @
     ''internal_code='' @ internal_code st @ [CHR 0x0A]"

text \<open>\<open>date\<close> is what \<open>strftime\<close> writes, \<open>ms\<close> the milliseconds behind it.\<close>

definition exif_ifd_exif ::
    "exif_codec \<Rightarrow> float_unit \<Rightarrow> device_status \<Rightarrow> string \<Rightarrow> nat \<Rightarrow> T_BF_DCF_IF_EXIF_INFO \<Rightarrow> exif_entry list" where
  "exif_ifd_exif X fu st date ms info =
    (let date_str = c_str (date @ decimal ms);
         total_length = length date + length (decimal ms) + 1;
         serial = c_str (serial_number st);
         note = maker_note fu st
     in (new_exif_entry X EXIF_TAG_MAKER_NOTE EXIF_FORMAT_ASCII (c_str note) (length note + 1) \<circ>
         new_exif_entry X EXIF_TAG_BRIGHTNESS_VALUE EXIF_FORMAT_SRATIONAL
           (exif_set_rational X (brightness100 fu (exposure_time info) (iso_value info)) 100) 1 \<circ>
         new_exif_entry X EXIF_TAG_EXIF_VERSION EXIF_FORMAT_UNDEFINED (c_str ''0230'') 4 \<circ>
         new_exif_entry X EXIF_TAG_FLASH EXIF_FORMAT_SHORT (exif_set_short X 0) 1 \<circ>
         new_exif_entry X EXIF_TAG_EXPOSURE_BIAS_VALUE EXIF_FORMAT_SRATIONAL
           (exif_set_rational X (ev10 fu (ev info)) 10) 1 \<circ>
         new_exif_entry X EXIF_TAG_METERING_MODE EXIF_FORMAT_SHORT (exif_set_short X (ucast (metering info))) 1 \<circ>
         new_exif_entry X EXIF_TAG_SHARPNESS EXIF_FORMAT_SSHORT (exif_set_short X (sharpness info)) 1 \<circ>
         new_exif_entry X EXIF_TAG_FOCAL_LENGTH EXIF_FORMAT_RATIONAL
           (exif_set_rational X (nume (focal_length info)) (denomi (focal_length info))) 1 \<circ>
         new_exif_entry X EXIF_TAG_FNUMBER EXIF_FORMAT_RATIONAL (exif_set_rational X 5600000 1000000) 1 \<circ>
         new_exif_entry X EXIF_TAG_EXPOSURE_TIME EXIF_FORMAT_RATIONAL
           (exif_set_rational X (nume (exposure_time info)) (denomi (exposure_time info))) 1 \<circ>
         new_exif_entry X EXIF_TAG_ISO_SPEED_RATINGS EXIF_FORMAT_SHORT (exif_set_short X (iso_value info)) 1 \<circ>
         new_exif_entry X (ExifTag 0xc62f) EXIF_FORMAT_ASCII serial (length (serial_number st) + 1) \<circ>
         new_exif_entry X (ExifTag 0xa431) EXIF_FORMAT_ASCII serial (length (serial_number st) + 1) \<circ>
         new_exif_entry X EXIF_TAG_DATE_TIME_DIGITIZED EXIF_FORMAT_ASCII date_str total_length \<circ>
         new_exif_entry X EXIF_TAG_DATE_TIME EXIF_FORMAT_ASCII date_str total_length \<circ>
         new_exif_entry X EXIF_TAG_DATE_TIME_ORIGINAL EXIF_FORMAT_ASCII date_str total_length) [])"

definition degree_data :: "exif_codec \<Rightarrow> GPS_DEGREE \<Rightarrow> byte list" where
  "degree_data X g = exif_set_rational X (degrees g) 1 @ exif_set_rational X (minutes g) 1 @
     exif_set_rational X (seconds g) 1"

definition exif_ifd_gps :: "exif_codec \<Rightarrow> float_unit \<Rightarrow> gps_data_t \<Rightarrow> exif_entry list" where
  "exif_ifd_gps X fu d =
    (new_exif_entry X EXIF_TAG_GPS_VERSION_ID EXIF_FORMAT_BYTE [0x02, 0x03, 0x00, 0x00] 4 \<circ>
     new_exif_entry X EXIF_TAG_GPS_ALTITUDE_REF EXIF_FORMAT_BYTE [0] 1 \<circ>
     new_exif_entry X EXIF_TAG_GPS_LONGITUDE_REF EXIF_FORMAT_ASCII (c_str ''W'') (1 + 1) \<circ>
     new_exif_entry X EXIF_TAG_GPS_LATITUDE_REF EXIF_FORMAT_ASCII (c_str ''N'') (1 + 1) \<circ>
     new_exif_entry X EXIF_TAG_GPS_LATITUDE EXIF_FORMAT_RATIONAL
       (degree_data X (float_to_degree (cast_undef fu) (latitude d))) 3 \<circ>
     new_exif_entry X EXIF_TAG_GPS_LONGITUDE EXIF_FORMAT_RATIONAL
       (degree_data X (float_to_degree (cast_undef fu) (longitude d))) 3 \<circ>
     new_exif_entry X EXIF_TAG_GPS_ALTITUDE EXIF_FORMAT_RATIONAL
       (exif_set_rational X (altitude d * 1000) 1000) 1) []"

subsection \<open>XMP\<close>

text \<open>The text of the XMP packet; the line continuations of the source leave its indentation in.\<close>

definition xmp_info :: "(u32 \<Rightarrow> string) \<Rightarrow> gps_data_t \<Rightarrow> string" where
  \<open>xmp_info show_f d =
     ''<?xpacket begin="" id="W5M0MpCehiHzreSzNTczkc9d"?>    <x:xmpmeta'' @
     '' xmlns:x="adobe:ns:meta/" x:xmptk="XMP Core 4.4.0-Exiv2">    <rdf:RDF'' @
     '' xmlns:rdf="http://www.w3.org/1999/02/22-rdf-syntax-ns#">'' @
     ''        <rdf:Description rdf:about="DJI Meta Data"'' @
     ''            xmlns:share="http://www.shareuavtec.com/"'' @
     ''            xmlns:tiff="http://ns.adobe.com/tiff/1.0/"'' @
     ''            xmlns:drone-dji="http://www.dji.com/drone-dji/1.0/"'' @
     ''            share:Toolkit="XMP Core 4.4.0-Exiv2"'' @
     ''            share:SN="P102D220026"            share:SoftwareVersion="1.058"'' @
     ''            share:DewarpData=""            share:Lat="'' @
     show_int (latitude d) @
     ''"            share:Lon="'' @
     show_int (longitude d) @
     ''"            share:AbsAlt="'' @
     show_int (altitude d) @
     ''"            share:RltAlt="0"            share:Pitch="'' @
     show_f (pitch d) @
     ''"            share:Roll="'' @
     show_f (roll d) @
     ''"            share:Yaw="'' @
     show_f (yaw d) @
     ''"            share:RTK="50"            share:Perspectives="LOWER"'' @
     ''            share:WbMode="daylight"            share:ColorMode="lively"'' @
     ''            share:DateTime=""            tiff:Model="SHARE104S_X"'' @
     ''            drone-dji:DewarpFlag="0"            drone-dji:DewarpData=""'' @
     ''            drone-dji:RtkFlag="50"            drone-dji:RtkStdLon="0.0"'' @
     ''            drone-dji:RtkStdLat="0.0"            drone-dji:RtkStdHgt="0.0"'' @
     ''            drone-dji:AbsoluteAltitude="'' @
     show_int (altitude d) @
     ''"            drone-dji:GpsLatitude="'' @
     show_int (latitude d) @
     ''"            drone-dji:GpsLongitude="'' @
     show_int (longitude d) @
     ''"            drone-dji:GimbalRollDegree="'' @
     show_f (roll d) @
     ''"            drone-dji:GimbalYawDegree="'' @
     show_f (yaw d) @
     ''"            drone-dji:GimbalPitchDegree="'' @
     show_f (pitch d) @
     ''"        />    </rdf:RDF>    </x:xmpmeta>    <?xpacket end="w"?>''\<close>

subsection \<open>Files\<close>

definition JPEG_TEMPFILES_NUMBER :: nat where "JPEG_TEMPFILES_NUMBER = 3"

text \<open>
  \<open>jp_num\<close> is the static counter of \<open>get_temp_file_name\<close>; the sub-directory and the prefix are kept
  but no file name depends on them.
\<close>

record jpeg_capture =
  parentPath :: string
  subPath :: string
  jp_prefix :: string
  jp_num :: nat

definition JpegCapture :: "string \<Rightarrow> jpeg_capture" where
  "JpegCapture path = \<lparr>parentPath = path, subPath = '''', jp_prefix = ''FTS-'', jp_num = 0\<rparr>"

definition setSubPath :: "string \<Rightarrow> jpeg_capture \<Rightarrow> jpeg_capture" where
  "setSubPath p j = j\<lparr>subPath := p\<rparr>"

definition jpeg_setPrefix :: "string \<Rightarrow> jpeg_capture \<Rightarrow> jpeg_capture" where
  "jpeg_setPrefix p j = j\<lparr>jp_prefix := p\<rparr>"

definition get_url :: "string \<Rightarrow> string \<Rightarrow> string" where
  "get_url sub_dir file_name = sub_dir @ ''/'' @ file_name"

definition get_temp_file_name :: "jpeg_capture \<Rightarrow> string \<times> jpeg_capture" where
  "get_temp_file_name j =
    (let num = (if jp_num j = JPEG_TEMPFILES_NUMBER then 0 else jp_num j) + 1
     in (''tmp'' @ decimal num @ ''.jpg'', j\<lparr>jp_num := num\<rparr>))"

definition get_jpeg_full_path :: "string \<Rightarrow> string \<Rightarrow> string \<Rightarrow> string" where
  "get_jpeg_full_path parent_path sub_path file_name = parent_path @ ''/'' @ sub_path @ ''/'' @ file_name"

text \<open>
  A sequence of \<open>ret |= write (...)\<close>: \<open>wr k n\<close> is the result of the \<open>k\<close>-th, of \<open>n\<close> bytes. The result
  is \<open>ret\<close> and what is in the file.
\<close>

fun do_writes :: "(nat \<Rightarrow> nat \<Rightarrow> int) \<Rightarrow> nat \<Rightarrow> byte list list \<Rightarrow> u32 \<times> byte list" where
  "do_writes wr k [] = (0, [])"
| "do_writes wr k (b # bs) =
    (let r = wr k (length b); (ret, file) = do_writes wr (k + 1) bs
     in (word_of_int r OR ret, take (nat r) b @ file))"

definition xmp_title :: string where "xmp_title = ''http://ns.adobe.com/xap/1.0/''"

text \<open>The header of an APP1 segment of \<open>n\<close> bytes, with its length cut to 16 bits.\<close>

definition app1_head :: "u32 \<Rightarrow> byte list" where
  "app1_head n = [0xff, 0xe1, ucast (drop_bit 8 (n AND 0xff00)), ucast (n AND 0xff)]"

text \<open>
  The result \<open>ret\<close> and the new file, if one could be opened. \<open>address\<close> is the frame; one of
  less than two bytes is read past its end.
\<close>

definition save_picture_with_exif ::
    "bool \<Rightarrow> (nat \<Rightarrow> nat \<Rightarrow> int) \<Rightarrow> byte list \<Rightarrow> byte list \<Rightarrow> string \<Rightarrow> (u32 \<times> byte list option) run" where
  "save_picture_with_exif opens wr address exif xmp_str =
    (let jpeg_app_head = app1_head (of_nat (length exif) + 2);
         xmp_data_head = (if xmp_str \<noteq> [] then app1_head (of_nat (length xmp_str + length xmp_title + 1 + 2))
                          else [0xff, 0xe1, 0x00, 0x00])
     in if \<not> opens then Done (0, None)
        else if length address < 2 then Fault
        else (let (ret, file) = do_writes wr 0
               [take 2 address, jpeg_app_head, exif, xmp_data_head, str_bytes xmp_title, [0],
                str_bytes xmp_str, drop 2 address]
              in Done (ret, Some file)))"

text \<open>The GPS sample of a picture is the newest one; \<open>junk\<close> as for video frames.\<close>

definition gps_for_picture :: "gps_data_t \<Rightarrow> gps_estone \<Rightarrow> gps_data_t run" where
  "gps_for_picture junk g =
    (case getGPSData g 0 0 of Fault \<Rightarrow> Fault | Done (_, None) \<Rightarrow> Done junk | Done (_, Some d) \<Rightarrow> Done d)"

record jpeg_world =
  w_codec :: exif_codec
  w_exif_new :: bool
  w_save :: "exif_entry list \<Rightarrow> exif_entry list \<Rightarrow> exif_entry list \<Rightarrow> byte list"
  w_float :: float_unit
  w_date :: string
  w_ms :: nat
  w_opens :: bool
  w_write :: "nat \<Rightarrow> nat \<Rightarrow> int"
  w_junk :: gps_data_t

text \<open>
  Its calls of \<open>print_operation_time\<close> are left out: they print and keep a time of their own. Their
  product \<open>tv_sec * 1000\<close> leaves the range of a 32-bit \<open>long\<close> 25 days after the epoch; \<open>JpegTools\<close> models them
  with this overflow, and a picture is described here as if the overflow had no effect but the number printed.
\<close>

definition saveJpegWithExif ::
    "jpeg_world \<Rightarrow> device_status \<Rightarrow> gps_estone \<Rightarrow> byte list \<Rightarrow> T_BF_DCF_IF_EXIF_INFO \<Rightarrow>
     (bool \<times> byte list option) run" where
  "saveJpegWithExif w st g address info =
    (if \<not> w_exif_new w then Done (False, None)
     else (case gps_for_picture (w_junk w) g of
         Fault \<Rightarrow> Fault
       | Done gps_data \<Rightarrow>
           let exif = w_save w (exif_ifd_0 (w_codec w)) (exif_ifd_exif (w_codec w) (w_float w) st (w_date w) (w_ms w) info)
                 (exif_ifd_gps (w_codec w) (w_float w) gps_data)
           in (case save_picture_with_exif (w_opens w) (w_write w) address exif
                      (xmp_info (show_float (w_float w)) gps_data) of
                 Fault \<Rightarrow> Fault
               | Done (ret, file) \<Rightarrow> Done (ret = 0, file))))"

text \<open>
  The frame callback: the new state, the file written (its path and content) and the name given
  to the callback for saved pictures, if it is called.
\<close>

definition jpeg_onFrameReceivedCallback ::
    "bool \<Rightarrow> jpeg_world \<Rightarrow> device_status \<Rightarrow> gps_estone \<Rightarrow> byte list \<Rightarrow> T_BF_DCF_IF_EXIF_INFO \<Rightarrow>
     jpeg_capture \<Rightarrow> (jpeg_capture \<times> (string \<times> byte list) option \<times> string option) run" where
  "jpeg_onFrameReceivedCallback free w st g address info j =
    (if \<not> free then Done (j, None, None)
     else
       let (file_name, j) = get_temp_file_name j;
           full_path = get_jpeg_full_path (parentPath j) [] file_name
       in (case saveJpegWithExif w st g address info of
             Fault \<Rightarrow> Fault
           | Done (ok, file) \<Rightarrow> Done (j, map_option (\<lambda>f. (full_path, f)) file,
               if ok = False then Some (get_url [] file_name) else None)))"

subsection \<open>Lemmas\<close>

text \<open>The three temporary files are three files.\<close>

lemma temp_names_distinct: "get_url [] (''tmp'' @ decimal m @ ''.jpg'') = get_url [] (''tmp'' @ decimal n @ ''.jpg'') \<longleftrightarrow> m = n"
  by (simp add: get_url_def dec_num.enc_eq_iff)

lemma gps_for_picture_no_fault: "\<exists>d. gps_for_picture junk g = Done d"
  by (cases "gps_data_buf g = []") (simp_all add: gps_for_picture_def getGPSData_def)

lemma bit_255:
  assumes "i < 8"
  shows "bit (255 :: u32) i"
proof -
  have "bit (mask 8 :: u32) i" using assms by (simp add: bit_mask_iff)
  moreover have "mask 8 = (255 :: u32)" by (simp add: mask_eq_exp_minus_1)
  ultimately show ?thesis by (simp only:)
qed

lemma app1_head_be16:
  "app1_head (of_nat n) = [0xff, 0xe1] @ be16 n"
proof -
  have a: "ucast (drop_bit 8 ((of_nat n :: u32) AND 0xff00)) = (word_of_nat (n div 256) :: byte)"
  proof (rule bit_word_eqI)
    fix i assume "i < LENGTH(8)"
    then have i: "i < 8" by simp
    have "bit (0xff00 :: u32) (8 + i)"
    proof -
      have "bit (push_bit 8 (mask 8) :: u32) (8 + i)"
        using i by (simp add: bit_push_bit_iff bit_mask_iff)
      moreover have "push_bit 8 (mask 8) = (0xff00 :: u32)" by (simp add: mask_eq_exp_minus_1)
      ultimately show ?thesis by (simp only:)
    qed
    moreover have "bit (of_nat n :: u32) (8 + i) = bit n (8 + i)" using i by (simp add: bit_of_nat_iff)
    moreover have "bit (word_of_nat (n div 256) :: byte) i = bit n (8 + i)"
    proof -
      have "n div 256 = drop_bit 8 n" by (simp add: drop_bit_eq_div)
      then show ?thesis using i by (simp add: bit_of_nat_iff bit_drop_bit_eq)
    qed
    moreover have "bit (255 :: u32) i" by (rule bit_255 [OF i])
    ultimately show "bit (ucast (drop_bit 8 ((of_nat n :: u32) AND 0xff00)) :: byte) i =
        bit (word_of_nat (n div 256) :: byte) i"
      using i by (simp add: bit_unsigned_iff bit_drop_bit_eq bit_and_iff)
  qed
  have b: "ucast ((of_nat n :: u32) AND 0xff) = (word_of_nat n :: byte)"
  proof (rule bit_word_eqI)
    fix i assume "i < LENGTH(8)"
    then have i: "i < 8" by simp
    have "bit (255 :: u32) i" by (rule bit_255 [OF i])
    then show "bit (ucast ((of_nat n :: u32) AND 0xff) :: byte) i = bit (word_of_nat n :: byte) i"
      using i by (simp add: bit_unsigned_iff bit_and_iff bit_of_nat_iff)
  qed
  show ?thesis unfolding app1_head_def be16_def a b by simp
qed

lemma do_writes_all:
  assumes "\<And>k n. wr k n = int n"
  shows "snd (do_writes wr k bs) = concat bs"
    "fst (do_writes wr k bs) = 0 \<longleftrightarrow> (\<forall>b\<in>set bs. (of_nat (length b) :: u32) = 0)"
  by (induction bs arbitrary: k) (simp_all add: assms Let_def case_prod_unfold or_eq_0_iff)

lemma do_writes_zero:
  "fst (do_writes wr k bs) = 0 \<longleftrightarrow> (\<forall>i<length bs. (word_of_int (wr (k + i) (length (bs ! i))) :: u32) = 0)"
  by (induction bs arbitrary: k) (auto simp: Let_def case_prod_unfold or_eq_0_iff less_Suc_eq_0_disj)

lemma picture_file:
  fixes info :: T_BF_DCF_IF_EXIF_INFO and st :: device_status
  assumes "w_exif_new w" "w_opens w" "2 \<le> length address"
    and "gps_for_picture (w_junk w) g = Done d"
  defines "exif \<equiv> w_save w (exif_ifd_0 (w_codec w)) (exif_ifd_exif (w_codec w) (w_float w) st (w_date w) (w_ms w) info)
      (exif_ifd_gps (w_codec w) (w_float w) d)"
    and "xmp \<equiv> str_bytes xmp_title @ [0] @ str_bytes (xmp_info (show_float (w_float w)) d)"
  shows "saveJpegWithExif w st g address info =
    (let (ret, file) = do_writes (w_write w) 0
       [take 2 address, [0xff, 0xe1] @ be16 (length exif + 2), exif, [0xff, 0xe1] @ be16 (length xmp + 2),
        str_bytes xmp_title, [0], str_bytes (xmp_info (show_float (w_float w)) d), drop 2 address]
     in Done (ret = 0, Some file))"
proof -
  have x: "xmp_info (show_float (w_float w)) d \<noteq> []" by (simp add: xmp_info_def)
  have h1: "app1_head (of_nat (length exif) + 2) = [0xff, 0xe1] @ be16 (length exif + 2)"
    using app1_head_be16 [of "length exif + 2"] by (simp add: add.commute)
  have h2: "app1_head (of_nat (length (xmp_info (show_float (w_float w)) d) + length xmp_title + 1 + 2)) =
      [0xff, 0xe1] @ be16 (length xmp + 2)"
  proof -
    have "length (xmp_info (show_float (w_float w)) d) + length xmp_title + 1 + 2 = length xmp + 2"
      by (simp add: xmp_def)
    then show ?thesis by (simp only: app1_head_be16)
  qed
  show ?thesis
    using assms(1-4) x h1 h2
    by (simp add: saveJpegWithExif_def save_picture_with_exif_def Let_def case_prod_unfold
        flip: exif_def)
qed

lemma xmp_info_length:
  assumes "\<And>w. length (show_f w) \<le> 50"
  shows "length (xmp_info show_f d) < 3000"
proof -
  have dec: "length (decimal n) \<le> 10" if "n < 10 ^ 10" for n
    using decimal_length [of n 10] that by simp
  have i: "length (show_int w) \<le> 11" for w
  proof -
    have "\<bar>sint w\<bar> \<le> 2 ^ 31" using sint_range_size [of w] by (auto simp: word_size abs_le_iff)
    then show ?thesis
      using dec [of "nat (- sint w)"] dec [of "nat (sint w)"] by (auto simp: show_int_def nat_less_iff)
  qed
  show ?thesis
    using i [of "latitude d"] i [of "longitude d"] i [of "altitude d"]
      assms [of "pitch d"] assms [of "roll d"] assms [of "yaw d"]
    by (simp add: xmp_info_def)
qed

subsection \<open>Properties\<close>

abbreviation camera_jpeg :: "byte list \<Rightarrow> 'e exif_lib \<Rightarrow> 'e JPEGSection list \<Rightarrow> byte list \<Rightarrow> byte list \<Rightarrow> bool" where
  "camera_jpeg address ex ss hdr img \<equiv>
     address = [0xff, SOI_b] @ concat (map (section_image ex img) ss) @
       section_image ex img \<lparr>s_marker = SOS_b, s_content = GenericC hdr\<rparr> @ [0xff, EOI_b] \<and>
     (\<forall>s\<in>set ss. wf_section ex s \<and> s_marker s \<noteq> SOS_b) \<and> length hdr + 2 < 65536"

lemma load_picture:
  assumes jpeg: "camera_jpeg address ex ss hdr img"
    and d: "d = take 2 address @ [0xff, APP1_b] @ be16 (length exif + 2) @ exif @
        [0xff, APP1_b] @ be16 (length xmp + 2) @ xmp @ drop 2 address"
    and len: "length exif + 2 < 65536" "length xmp + 2 < 65536"
  shows "\<exists>k. jpeg_data_load_data ex plenty d jd = Some (Done (jd\<lparr>jd_sections := jd_sections jd @
      [\<lparr>s_marker = SOI_b, s_content = Zeroed\<rparr>,
       \<lparr>s_marker = APP1_b, s_content = App1C (exif_new ex ([0xff, APP1_b] @ be16 (length exif + 2) @ exif))\<rparr>,
       \<lparr>s_marker = APP1_b, s_content = App1C (exif_new ex ([0xff, APP1_b] @ be16 (length xmp + 2) @ xmp))\<rparr>] @
      ss @ [\<lparr>s_marker = SOS_b, s_content = GenericC hdr\<rparr>, \<lparr>s_marker = EOI_b, s_content = Zeroed\<rparr>],
      jd_data := Some img, jd_size := length img, jd_allocs := k\<rparr>))"
proof -
  let ?soi = "\<lparr>s_marker = SOI_b, s_content = Zeroed\<rparr>"
  let ?a1 = "[0xff, APP1_b] @ be16 (length exif + 2) @ exif"
  let ?a2 = "[0xff, APP1_b] @ be16 (length xmp + 2) @ xmp"
  let ?s1 = "\<lparr>s_marker = APP1_b, s_content = App1C (exif_new ex ?a1)\<rparr>"
  let ?s2 = "\<lparr>s_marker = APP1_b, s_content = App1C (exif_new ex ?a2)\<rparr>"
  let ?tail = "concat (map (section_image ex img) ss) @
       section_image ex img \<lparr>s_marker = SOS_b, s_content = GenericC hdr\<rparr> @ [0xff, EOI_b]"
  have d0: "d = [0xff, SOI_b] @ ?a1 @ ?a2 @ ?tail" using jpeg d by simp
  have wf: "wf_section ex ?soi" by (simp add: wf_section_def JPEG_IS_MARKER_def)
  have i: "section_image ex img ?soi = [0xff, SOI_b]" by (simp add: section_image_def section_body_def)
  have d1: "d = [] @ section_image ex img ?soi @ (?a1 @ ?a2 @ ?tail)" using d0 i by simp
  from load_step_wf [OF d1 wf, of jd] i obtain k1 where
    k1: "load_loop ex plenty d 0 jd =
      load_loop ex plenty d (length [0xff, SOI_b]) (jd\<lparr>jd_sections := jd_sections jd @ [?soi], jd_allocs := k1\<rparr>)"
    by auto
  let ?j1 = "jd\<lparr>jd_sections := jd_sections jd @ [?soi], jd_allocs := k1\<rparr>"
  have d2: "d = [0xff, SOI_b] @ [0xff, APP1_b] @ be16 (length exif + 2) @ exif @ (?a2 @ ?tail)"
    using d0 by simp
  from load_loop_app1 [OF d2 len(1), of ex ?j1] obtain k2 where
    k2: "load_loop ex plenty d (length [0xff, SOI_b]) ?j1 = load_loop ex plenty d (length ([0xff, SOI_b] @ ?a1))
      (jd\<lparr>jd_sections := jd_sections jd @ [?soi, ?s1], jd_allocs := k2\<rparr>)" by auto
  let ?j2 = "jd\<lparr>jd_sections := jd_sections jd @ [?soi, ?s1], jd_allocs := k2\<rparr>"
  have d3: "d = ([0xff, SOI_b] @ ?a1) @ [0xff, APP1_b] @ be16 (length xmp + 2) @ xmp @ ?tail"
    using d0 by simp
  from load_loop_app1 [OF d3 len(2), of ex ?j2] obtain k3 where
    k3: "load_loop ex plenty d (length ([0xff, SOI_b] @ ?a1)) ?j2 =
      load_loop ex plenty d (length (([0xff, SOI_b] @ ?a1) @ ?a2))
      (jd\<lparr>jd_sections := jd_sections jd @ [?soi, ?s1, ?s2], jd_allocs := k3\<rparr>)" by auto
  let ?j3 = "jd\<lparr>jd_sections := jd_sections jd @ [?soi, ?s1, ?s2], jd_allocs := k3\<rparr>"
  have d4: "d = (([0xff, SOI_b] @ ?a1) @ ?a2) @ ?tail" using d0 by simp
  from load_file_from [OF d4, of ?j3] jpeg obtain k4 where
    k4: "load_loop ex plenty d (length (([0xff, SOI_b] @ ?a1) @ ?a2)) ?j3 = Some (Done (jd\<lparr>jd_sections :=
      jd_sections jd @ [?soi, ?s1, ?s2] @ ss @
      [\<lparr>s_marker = SOS_b, s_content = GenericC hdr\<rparr>, \<lparr>s_marker = EOI_b, s_content = Zeroed\<rparr>],
      jd_data := Some img, jd_size := length img, jd_allocs := k4\<rparr>))"
    by auto
  have "d \<noteq> []" using d0 by simp
  then show ?thesis unfolding jpeg_data_load_data_def using k1 k2 k3 k4 by auto
qed

text \<open>C15: A picture that was written completely is a JPEG file again. For every frame of the
  camera that is a well-formed JPEG image and EXIF data of less than 65534 bytes, the file holds
  the start marker, one APP1 segment with the EXIF data, one with the XMP packet, and the rest of the
  frame; the parser of \<open>jpeg-data.c\<close> reads it to its end and finds exactly these two segments
  in front of the sections and the image data of the frame.\<close>

theorem jpeg_picture_reloads:
  assumes "camera_jpeg address ex ss hdr img"
    and "w_exif_new w" "w_opens w" "\<forall>k n. w_write w k n = int n" "\<forall>v. length (show_float (w_float w) v) \<le> 50"
    and "gps_for_picture (w_junk w) g = Done d"
    and "exif = w_save w (exif_ifd_0 (w_codec w)) (exif_ifd_exif (w_codec w) (w_float w) st (w_date w) (w_ms w) info)
      (exif_ifd_gps (w_codec w) (w_float w) d)" "length exif + 2 < 65536"
    and "xmp = str_bytes xmp_title @ [0] @ str_bytes (xmp_info (show_float (w_float w)) d)"
  shows "\<exists>file k. saveJpegWithExif w st g address info = Done (False, Some file) \<and>
    jpeg_data_load_data ex plenty file jd = Some (Done (jd\<lparr>jd_sections := jd_sections jd @
      [\<lparr>s_marker = SOI_b, s_content = Zeroed\<rparr>,
       \<lparr>s_marker = APP1_b, s_content = App1C (exif_new ex ([0xff, APP1_b] @ be16 (length exif + 2) @ exif))\<rparr>,
       \<lparr>s_marker = APP1_b, s_content = App1C (exif_new ex ([0xff, APP1_b] @ be16 (length xmp + 2) @ xmp))\<rparr>] @
      ss @ [\<lparr>s_marker = SOS_b, s_content = GenericC hdr\<rparr>, \<lparr>s_marker = EOI_b, s_content = Zeroed\<rparr>],
      jd_data := Some img, jd_size := length img, jd_allocs := k\<rparr>))"
proof -
  let ?x = "xmp_info (show_float (w_float w)) d"
  let ?bs = "[take 2 address, [0xff, APP1_b] @ be16 (length exif + 2), exif,
     [0xff, APP1_b] @ be16 (length xmp + 2), str_bytes xmp_title, [0], str_bytes ?x, drop 2 address]"
  have two: "take 2 address = [0xff, SOI_b]" "2 \<le> length address" using assms(1) by auto
  have xmp: "length xmp + 2 < 65536"
    using xmp_info_length [of "show_float (w_float w)" d] assms(5) by (simp add: assms(9) xmp_title_def)
  have wr: "w_write w k n = int n" for k n using assms(4) by blast
  have save: "saveJpegWithExif w st g address info =
      (let (ret, file) = do_writes (w_write w) 0 ?bs in Done (ret = 0, Some file))"
    using picture_file [OF assms(2,3) two(2) assms(6), of st info]
    unfolding assms(7,9) .
  have contents: "snd (do_writes (w_write w) 0 ?bs) = take 2 address @ [0xff, APP1_b] @ be16 (length exif + 2) @ exif @
        [0xff, APP1_b] @ be16 (length xmp + 2) @ xmp @ drop 2 address"
    unfolding do_writes_all(1) [of "w_write w", OF wr] by (simp add: assms(9))
  have ret: "fst (do_writes (w_write w) 0 ?bs) \<noteq> 0"
    unfolding do_writes_all(2) [of "w_write w", OF wr] by (simp add: two(1))
  from load_picture [OF assms(1) contents assms(8) xmp, of jd] save ret show ?thesis
    by (auto simp: Let_def case_prod_unfold)
qed

definition demo_floats :: float_unit where
  "demo_floats = \<lparr>ev10 = (\<lambda>_. 0), brightness100 = (\<lambda>_ _. 0), show_float = (\<lambda>_. ''0.000000''), cast_undef = (\<lambda>_. 0)\<rparr>"

definition demo_sample :: gps_data_t where
  "demo_sample = \<lparr>latitude = 40, longitude = 116, altitude = 50, roll = 0, pitch = 0, yaw = 0, time_stamp = 1\<rparr>"

definition demo_codec :: exif_codec where
  "demo_codec = \<lparr>exif_format_get_size = (\<lambda>f.
       if f \<in> {EXIF_FORMAT_SHORT, EXIF_FORMAT_SSHORT} then 2
       else if f \<in> {EXIF_FORMAT_RATIONAL, EXIF_FORMAT_SRATIONAL} then 8 else 1),
     exif_set_short = (\<lambda>w. [ucast w, ucast (drop_bit 8 w)]),
     exif_set_rational = (\<lambda>n d. le_bytes32 n @ le_bytes32 d)\<rparr>"

definition demo_world :: jpeg_world where
  "demo_world = \<lparr>w_codec = demo_codec, w_exif_new = True, w_save = (\<lambda>_ _ _. [0x45, 0x78]), w_float = demo_floats,
     w_date = ''2023:01:01 12:00:00:'', w_ms = 7, w_opens = True, w_write = (\<lambda>k n. int n),
     w_junk = demo_sample\<rparr>"

definition demo_info :: T_BF_DCF_IF_EXIF_INFO where
  "demo_info = (let q = \<lparr>nume = 1, denomi = 100\<rparr> in
     \<lparr>info_width = 1920, info_lines = 1080, ev = 0,
      info_date = \<lparr>ad_year = 2023, month = 1, day = 1, hour = 12, min_of_hour = 0, sec = 0\<rparr>,
      exposure_time = q, f_value = q, exposure_prog = 0, shutter_speed = q, aperture = q,
      max_aperture = q, metering = 2, light_source = 0, flash = 0, dzoom_ratio = q, iso_value = 100,
      focal_length = q, sharpness = 0, maker_note_length = 0, qvga_enable = 0,
      info_gps = \<lparr>latitude_ref = 0, gps_latitude = [q, q, q], longitude_ref = 0,
        gps_longitude = [q, q, q], img_direction_ref = 0, img_direction = q\<rparr>\<rparr>)"

definition demo_frame :: "byte list" where
  "demo_frame = [0xff, 0xd8, 0xff, 0xda, 0x00, 0x03, 0x01, 0x02, 0xff, 0xd9]"

definition demo_exif :: "unit exif_lib" where
  "demo_exif = \<lparr>exif_new = (\<lambda>_. Some ()), exif_save = (\<lambda>_. None)\<rparr>"

theorem jpeg_picture_reloads_witness:
  "\<exists>file jd. saveJpegWithExif demo_world DeviceStatus GPSEstone demo_frame demo_info = Done (False, Some file) \<and>
    jpeg_data_load_data demo_exif plenty file
      \<lparr>jd_sections = [], jd_data = None, jd_size = 0, jd_refs = 1, jd_allocs = 2\<rparr> = Some (Done jd) \<and>
    map s_marker (jd_sections jd) = [SOI_b, APP1_b, APP1_b, SOS_b, EOI_b] \<and> jd_data jd = Some [0x02]"
proof -
  have j: "camera_jpeg demo_frame demo_exif [] [0x01] [0x02]"
    by (simp add: demo_frame_def section_image_def section_body_def be16_def)
  have w: "w_exif_new demo_world" "w_opens demo_world" "\<forall>k n. w_write demo_world k n = int n"
    "\<forall>v. length (show_float (w_float demo_world) v) \<le> 50"
    by (simp_all add: demo_world_def demo_floats_def)
  have g: "gps_for_picture (w_junk demo_world) GPSEstone = Done demo_sample"
    by (simp add: gps_for_picture_def getGPSData_def GPSEstone_def demo_world_def)
  have e: "[0x45, 0x78] = w_save demo_world (exif_ifd_0 (w_codec demo_world)) (exif_ifd_exif (w_codec demo_world) (w_float demo_world) DeviceStatus
      (w_date demo_world) (w_ms demo_world) demo_info) (exif_ifd_gps (w_codec demo_world) (w_float demo_world) demo_sample)"
    by (simp add: demo_world_def)
  have l: "length [0x45 :: byte, 0x78] + 2 < 65536" by simp
  from jpeg_picture_reloads [OF j w g e l refl,
      of "\<lparr>jd_sections = [], jd_data = None, jd_size = 0, jd_refs = 1, jd_allocs = 2\<rparr>"]
  show ?thesis by auto
qed

text \<open>The sizes that the EXIF standard gives the formats, and that the setters write.\<close>

definition exif_sizes :: "exif_codec \<Rightarrow> bool" where
  "exif_sizes X \<longleftrightarrow>
     exif_format_get_size X EXIF_FORMAT_BYTE = 1 \<and> exif_format_get_size X EXIF_FORMAT_ASCII = 1 \<and>
     exif_format_get_size X EXIF_FORMAT_UNDEFINED = 1 \<and> exif_format_get_size X EXIF_FORMAT_SHORT = 2 \<and>
     exif_format_get_size X EXIF_FORMAT_SSHORT = 2 \<and> exif_format_get_size X EXIF_FORMAT_RATIONAL = 8 \<and>
     exif_format_get_size X EXIF_FORMAT_SRATIONAL = 8 \<and>
     (\<forall>w. length (exif_set_short X w) = 2) \<and> (\<forall>n d. length (exif_set_rational X n d) = 8)"

lemma new_exif_entry_append [simp]:
  "new_exif_entry X tag fmt data n c = c @ [\<lparr>e_tag = tag, e_format = fmt, e_components = n,
     e_size = exif_format_get_size X fmt * n, e_data = data\<rparr>]"
  by (simp add: new_exif_entry_def)

text \<open>Every EXIF entry that is handed to libexif is backed by at least as many bytes as its format
  and its number of components make libexif read, and no tag occurs twice in a directory, so that
  libexif drops none.\<close>

theorem exif_entries_sized:
  assumes "exif_sizes X"
  shows "list_all (\<lambda>e. e_size e \<le> length (e_data e))
     (exif_ifd_0 X @ exif_ifd_exif X fu st date ms info @ exif_ifd_gps X fu d) \<and>
   distinct (map e_tag (exif_ifd_0 X)) \<and> distinct (map e_tag (exif_ifd_exif X fu st date ms info)) \<and>
   distinct (map e_tag (exif_ifd_gps X fu d))"
  using assms
  by (simp add: exif_ifd_0_def exif_ifd_exif_def exif_ifd_gps_def exif_sizes_def degree_data_def Let_def)

theorem exif_entries_sized_witness:
  "list_all (\<lambda>e. e_size e \<le> length (e_data e)) (exif_ifd_exif demo_codec demo_floats DeviceStatus
     ''2023:01:01 12:00:00:'' 7 demo_info)"
proof -
  have "exif_sizes demo_codec" by (simp add: exif_sizes_def demo_codec_def)
  from exif_entries_sized [OF this, of demo_floats DeviceStatus "''2023:01:01 12:00:00:''" 7 demo_info]
  show ?thesis by simp
qed

text \<open>What a JPEG frame leads to. While a picture is being saved another frame is dropped.
  Otherwise the file names cycle through tmp1.jpg to tmp3.jpg in the parent path, whatever
  sub-directory and prefix were set; a file is written when the EXIF object and the file could be
  created; and the picture is announced unless the file could not be opened - also when libexif had
  no memory and there is no file, and when a write failed.\<close>

theorem jpeg_saved_report:
  assumes "2 \<le> length address" "w_write w 0 2 \<in> {- 1, 1, 2}" "jp_num j \<le> 3"
  shows "\<exists>j' out saved. jpeg_onFrameReceivedCallback free w st g address info j = Done (j', out, saved) \<and>
    (if \<not> free then j' = j \<and> out = None \<and> saved = None
     else \<exists>n \<in> {1..3}. n = jp_num j mod 3 + 1 \<and> j' = j\<lparr>jp_num := n\<rparr> \<and>
       map_option fst out = (if w_exif_new w \<and> w_opens w
         then Some (parentPath j @ ''//tmp'' @ decimal n @ ''.jpg'') else None) \<and>
       saved = (if w_exif_new w \<and> \<not> w_opens w then None else Some (''/tmp'' @ decimal n @ ''.jpg'')))"
proof -
  obtain d where d: "gps_for_picture (w_junk w) g = Done d" using gps_for_picture_no_fault by blast
  have nz: "(word_of_int (w_write w 0 2) :: u32) \<noteq> 0" using assms(2) by auto
  have two: "length (take 2 address) = 2" using assms(1) by simp
  have ret: "fst (do_writes (w_write w) 0 (take 2 address # bs)) \<noteq> 0" for bs
    using nz by (simp add: two Let_def case_prod_unfold or_eq_0_iff del: length_take)
  have sv: "\<exists>r. saveJpegWithExif w st g address info = Done r \<and> snd r = None \<and>
      fst r = (w_exif_new w \<and> \<not> w_opens w)" if "\<not> (w_exif_new w \<and> w_opens w)"
    using that d by (auto simp: saveJpegWithExif_def save_picture_with_exif_def Let_def)
  have sv2: "\<exists>f. saveJpegWithExif w st g address info = Done (False, Some f)"
    if wn: "w_exif_new w" and wo: "w_opens w"
  proof -
    obtain bs where bs: "saveJpegWithExif w st g address info =
        (let (ret, file) = do_writes (w_write w) 0 (take 2 address # bs) in Done (ret = 0, Some file))"
      using picture_file [OF wn wo assms(1) d, of st info] by blast
    obtain r f where rf: "do_writes (w_write w) 0 (take 2 address # bs) = (r, f)"
      by (cases "do_writes (w_write w) 0 (take 2 address # bs)")
    then have "r \<noteq> 0" using ret [of bs] by (metis fst_conv)
    then show ?thesis unfolding bs rf by simp
  qed
  obtain n where n: "n = jp_num j mod 3 + 1" by blast
  have n13: "n \<in> {1..3}" using n by simp
  have "jp_num j = 3 \<or> jp_num j < 3" using assms(3) by linarith
  then have num: "(if jp_num j = 3 then 0 else jp_num j) + 1 = n" by (auto simp: n)
  have name: "get_temp_file_name j = (''tmp'' @ decimal n @ ''.jpg'', j\<lparr>jp_num := n\<rparr>)"
    unfolding get_temp_file_name_def JPEG_TEMPFILES_NUMBER_def num by simp
  show ?thesis
  proof (cases "free")
    case True
    have run: "jpeg_onFrameReceivedCallback True w st g address info j =
      (case saveJpegWithExif w st g address info of
         Fault \<Rightarrow> Fault
       | Done (ok, f) \<Rightarrow> Done (j\<lparr>jp_num := n\<rparr>,
           map_option (\<lambda>f. (parentPath j @ ''//tmp'' @ decimal n @ ''.jpg'', f)) f,
           if ok = False then Some (''/tmp'' @ decimal n @ ''.jpg'') else None))"
      by (simp add: jpeg_onFrameReceivedCallback_def name get_jpeg_full_path_def get_url_def
          split: run.split)
    show ?thesis
    proof (cases "w_exif_new w \<and> w_opens w")
      case both: True
      then obtain f where "saveJpegWithExif w st g address info = Done (False, Some f)" using sv2 by blast
      then show ?thesis using True both n n13 by (simp add: run)
    next
      case False
      then obtain ok where "saveJpegWithExif w st g address info = Done (ok, None)"
        "ok = (w_exif_new w \<and> \<not> w_opens w)" using sv by (metis prod.collapse)
      then show ?thesis using True False n n13 by (auto simp: run)
    qed
  next
    case False
    then show ?thesis by (simp add: jpeg_onFrameReceivedCallback_def)
  qed
qed

theorem jpeg_saved_report_witness:
  "\<exists>j' file. jpeg_onFrameReceivedCallback True demo_world DeviceStatus GPSEstone demo_frame demo_info
      (JpegCapture ''/ram'') = Done (j', Some (''/ram//tmp1.jpg'', file), Some ''/tmp1.jpg'')"
proof -
  have "2 \<le> length demo_frame" "w_write demo_world 0 2 \<in> {- 1, 1, 2}" "jp_num (JpegCapture ''/ram'') \<le> 3"
    by (simp_all add: demo_frame_def demo_world_def JpegCapture_def)
  moreover have "decimal 1 = ''1''" by code_simp
  ultimately show ?thesis
    using jpeg_saved_report [of demo_frame demo_world "JpegCapture ''/ram''" True DeviceStatus GPSEstone demo_info]
    by (auto simp: JpegCapture_def demo_world_def)
qed

end
