(* ===== verification/FramedSource.thy ===== *)
theory FramedSource
  imports MediaRecorder
begin

text \<open>
  The RTSP side: \<open>src/src/ipcu555_framed_source.cpp\<close> (one buffer between the camera thread that
  writes frames and the live555 thread that delivers them), the source handling of
  \<open>src/src/ipcu555_subsession.cpp\<close> and the frame callback of \<open>src/src/live555_server.cpp\<close>. live555
  is a parameter: when it creates, closes and asks sources is a sequence of steps. The mutex makes
  each write and each delivery one step; \<open>free\<close> tells whether \<open>trylock\<close> gets it.
\<close>

subsection \<open>State and operations\<close>

definition BUFFER_SIZE :: nat where "BUFFER_SIZE = 200 * 1024"

text \<open>The static members of the class.\<close>

record source_class =
  referenceCount :: nat
  eventTriggerId :: nat

record framed_source =
  frame_buffer :: "byte list"
  frame_size :: nat

text \<open>The members that live555 reads after a delivery.\<close>

record delivery =
  fFrameSize :: nat
  fNumTruncatedBytes :: nat
  fTo :: "byte list"

definition write_at :: "nat \<Rightarrow> byte list \<Rightarrow> byte list \<Rightarrow> byte list option" where
  "write_at off bs mem =
    (if off + length bs \<le> length mem
     then Some (take off mem @ bs @ drop (off + length bs) mem) else None)"

text \<open>
  \<open>writeFrameToBuf\<close>: the result, whether the event is triggered, and the source; a write past the
  buffer is a \<open>Fault\<close>. \<open>sei\<close> and \<open>frame\<close> are the bytes at the two pointers.
\<close>

definition writeFrameToBuf ::
    "bool \<Rightarrow> byte list \<Rightarrow> byte list \<Rightarrow> source_class \<Rightarrow> framed_source \<Rightarrow> (int \<times> bool \<times> framed_source) run" where
  "writeFrameToBuf free frame sei cl s =
    (if length frame > BUFFER_SIZE then Done (- 1, False, s)
     else if referenceCount cl = 0 then Done (- 1, False, s)
     else if \<not> free then Done (- 1, False, s)
     else (case Option.bind (write_at 0 sei (frame_buffer s)) (write_at (length sei) frame) of
         None \<Rightarrow> Fault
       | Some buf \<Rightarrow> Done (0, True, s\<lparr>frame_buffer := buf, frame_size := length frame + length sei\<rparr>)))"

text \<open>\<open>mem\<close> is the memory that \<open>new\<close> returns, \<open>trigger\<close> the identifier of a new event trigger.\<close>

definition IPCU555FramedSource :: "byte list \<Rightarrow> nat \<Rightarrow> source_class \<Rightarrow> source_class \<times> framed_source" where
  "IPCU555FramedSource mem trigger cl =
    (cl\<lparr>referenceCount := referenceCount cl + 1,
        eventTriggerId := (if eventTriggerId cl = 0 then trigger else eventTriggerId cl)\<rparr>,
     \<lparr>frame_buffer = mem, frame_size = 0\<rparr>)"

text \<open>The destructor, with whether it gives its buffer back.\<close>

definition delete_source :: "source_class \<Rightarrow> bool \<times> source_class" where
  "delete_source cl =
    (let n = referenceCount cl - 1
     in if n = 0 then (True, cl\<lparr>referenceCount := 0, eventTriggerId := 0\<rparr>)
        else (False, cl\<lparr>referenceCount := n\<rparr>))"

text \<open>\<open>None\<close>: nobody is waiting for data.\<close>

definition deliverFrame ::
    "bool \<Rightarrow> bool \<Rightarrow> nat \<Rightarrow> framed_source \<Rightarrow> delivery \<Rightarrow> delivery option run" where
  "deliverFrame awaiting free fMaxSize s d =
    (if \<not> awaiting then Done None
     else if \<not> free then Done (Some (d\<lparr>fFrameSize := 0, fNumTruncatedBytes := 0\<rparr>))
     else
       let newFrameSize = (if frame_size s > 4 then frame_size s - 4 else 0);
           d = (if newFrameSize > fMaxSize
                then d\<lparr>fFrameSize := fMaxSize, fNumTruncatedBytes := newFrameSize - fMaxSize\<rparr>
                else d\<lparr>fFrameSize := newFrameSize\<rparr>)
       in if 4 + fFrameSize d \<le> length (frame_buffer s)
          then Done (Some (d\<lparr>fTo := window 4 (fFrameSize d) (frame_buffer s)\<rparr>)) else Fault)"

text \<open>
  The server: the pointer of its subsession to the latest source is uninitialised until live555
  first asks for a source, and points to a deleted object after that source is closed.
\<close>

datatype source_pointer = Uninit | Source framed_source | Deleted

record live_server =
  isStarted :: bool
  ipcuFramedSource :: source_pointer
  source_static :: source_class

definition Live555Server :: live_server where
  "Live555Server = \<lparr>isStarted = False, ipcuFramedSource = Uninit,
     source_static = \<lparr>referenceCount = 0, eventTriggerId = 0\<rparr>\<rparr>"

definition live_start :: "live_server \<Rightarrow> live_server" where
  "live_start l = l\<lparr>isStarted := True\<rparr>"

definition createNewStreamSource :: "byte list \<Rightarrow> nat \<Rightarrow> live_server \<Rightarrow> live_server" where
  "createNewStreamSource mem trigger l =
    (let (cl, s) = IPCU555FramedSource mem trigger (source_static l)
     in l\<lparr>source_static := cl, ipcuFramedSource := Source s\<rparr>)"

definition closeStreamSource :: "live_server \<Rightarrow> live_server" where
  "closeStreamSource l =
    l\<lparr>source_static := snd (delete_source (source_static l)), ipcuFramedSource := Deleted\<rparr>"

text \<open>
  A call on the deleted object touches only the arguments and the static counter, unless it gets
  past the first two tests.
\<close>

definition live_onFrameReceivedCallback ::
    "bool \<Rightarrow> gps_data_t \<Rightarrow> gps_estone \<Rightarrow> u64 \<Rightarrow> byte list \<Rightarrow> live_server \<Rightarrow> live_server run" where
  "live_onFrameReceivedCallback free junk g now frame l =
    (if \<not> isStarted l then Done (live_start l)
     else (case ipcuFramedSource l of
         Uninit \<Rightarrow> Fault
       | ptr \<Rightarrow>
         (case gps_for_frame junk g now of
            Fault \<Rightarrow> Fault
          | Done gps_data \<Rightarrow>
              let (sei_data, sei_length) = sei_encode gps_data
              in (case ptr of
                    Source s \<Rightarrow>
                      (case writeFrameToBuf free frame (take sei_length sei_data) (source_static l) s of
                         Fault \<Rightarrow> Fault
                       | Done (_, _, s') \<Rightarrow> Done (l\<lparr>ipcuFramedSource := Source s'\<rparr>))
                  | _ \<Rightarrow>
                      if length frame > BUFFER_SIZE \<or> referenceCount (source_static l) = 0
                      then Done l else Fault))))"

subsection \<open>The steps of the server\<close>

text \<open>
  The subsession reuses its first source for all clients, so live555 asks for a source only
  when none exists.
\<close>

inductive live_reachable ::
    "'j gps_lib \<Rightarrow> (string \<Rightarrow> u32 option) \<Rightarrow> live_server \<Rightarrow> bool" for J strtof where
  lr_init: "live_reachable J strtof Live555Server"
| lr_create: "live_reachable J strtof l \<Longrightarrow> referenceCount (source_static l) = 0 \<Longrightarrow>
    length mem = BUFFER_SIZE \<Longrightarrow> live_reachable J strtof (createNewStreamSource mem trigger l)"
| lr_close: "live_reachable J strtof l \<Longrightarrow> ipcuFramedSource l = Source s \<Longrightarrow>
    live_reachable J strtof (closeStreamSource l)"
| lr_frame: "live_reachable J strtof l \<Longrightarrow> gps_reachable J strtof h g \<Longrightarrow>
    live_onFrameReceivedCallback free junk g now frame l = Done l' \<Longrightarrow> live_reachable J strtof l'"

definition live_inv :: "live_server \<Rightarrow> bool" where
  "live_inv l \<longleftrightarrow>
    (case ipcuFramedSource l of
       Source s \<Rightarrow> referenceCount (source_static l) = 1 \<and> length (frame_buffer s) = BUFFER_SIZE \<and>
         frame_size s \<le> BUFFER_SIZE
     | _ \<Rightarrow> referenceCount (source_static l) = 0)"

lemma write_at_zero: "length bs \<le> length mem \<Longrightarrow> write_at 0 bs mem = Some (bs @ drop (length bs) mem)"
  by (simp add: write_at_def)

lemma write_both:
  "Option.bind (write_at 0 sei mem) (write_at (length sei) frame) =
    (if length sei + length frame \<le> length mem
     then Some (sei @ frame @ drop (length sei + length frame) mem) else None)"
  by (auto simp: write_at_def add.commute)

lemma live_frame_cases:
  assumes "gps_for_frame junk g now = Done d" "isStarted l"
  shows "live_onFrameReceivedCallback free junk g now frame l =
    (case ipcuFramedSource l of
       Uninit \<Rightarrow> Fault
     | Deleted \<Rightarrow> if length frame > BUFFER_SIZE \<or> referenceCount (source_static l) = 0 then Done l else Fault
     | Source s \<Rightarrow>
         (case writeFrameToBuf free frame (fst (sei_encode d)) (source_static l) s of
            Fault \<Rightarrow> Fault | Done (_, _, s') \<Rightarrow> Done (l\<lparr>ipcuFramedSource := Source s'\<rparr>)))"
  using assms by (simp add: live_onFrameReceivedCallback_def case_prod_unfold Let_def
      split: source_pointer.split)

lemma writeFrameToBuf_sizes:
  assumes "writeFrameToBuf free frame sei cl s = Done (r, t, s')"
    "length (frame_buffer s) = BUFFER_SIZE" "frame_size s \<le> BUFFER_SIZE"
  shows "length (frame_buffer s') = BUFFER_SIZE \<and> frame_size s' \<le> BUFFER_SIZE"
  using assms unfolding writeFrameToBuf_def write_both by (auto split: if_splits)

lemma live_reachable_inv:
  assumes "live_reachable J strtof l" "circular J"
  shows "live_inv l"
  using assms(1)
proof (induction rule: live_reachable.induct)
  case lr_init
  then show ?case by (simp add: live_inv_def Live555Server_def)
next
  case (lr_create l mem trigger)
  then show ?case
    by (simp add: live_inv_def createNewStreamSource_def IPCU555FramedSource_def)
next
  case (lr_close l s)
  then show ?case by (simp add: live_inv_def closeStreamSource_def delete_source_def Let_def)
next
  case (lr_frame l h g free junk now frame l')
  obtain d where d: "gps_for_frame junk g now = Done d"
    using gps_for_frame_no_fault [OF lr_frame.hyps(2) assms(2)] by blast
  show ?case
  proof (cases "isStarted l")
    case True
    then show ?thesis
      using lr_frame.hyps(3) lr_frame.IH unfolding live_frame_cases [OF d True]
      by (auto simp: live_inv_def split: source_pointer.splits run.splits if_splits
          dest: writeFrameToBuf_sizes)
  next
    case False
    then show ?thesis using lr_frame.hyps(3) lr_frame.IH
      by (auto simp: live_onFrameReceivedCallback_def live_start_def live_inv_def
          split: source_pointer.splits)
  qed
qed

subsection \<open>Properties\<close>

lemma writeFrameToBuf_eq:
  assumes "referenceCount cl = 1" "length (frame_buffer s) = BUFFER_SIZE"
  shows "writeFrameToBuf free frame sei cl s =
    (if length frame > BUFFER_SIZE \<or> \<not> free then Done (- 1, False, s)
     else if length sei + length frame > BUFFER_SIZE then Fault
     else Done (0, True, \<lparr>frame_buffer = sei @ frame @ drop (length sei + length frame) (frame_buffer s),
       frame_size = length sei + length frame\<rparr>))"
  using assms by (cases s) (auto simp: writeFrameToBuf_def write_both simp del: add_lessD1)

text \<open>C25: What the RTSP server does with a frame of the camera. The first frame only starts the
  server. As long as live555 has not asked for a source the callback reads the uninitialised
  pointer; after the source is closed frames are dropped. With a source, a frame above 200 KiB or
  one that comes while the buffer is in use is dropped, a frame that fits with its SEI unit is
  stored behind it, and a frame of at most 200 KiB that does not fit together with its SEI unit
  is written past the end of the buffer (the size check leaves the unit out).\<close>

theorem live_frame_outcome:
  assumes "live_reachable J strtof l" "gps_reachable J strtof h g" "circular J"
  shows "\<exists>d sei. gps_for_frame junk g now = Done d \<and> sei = fst (sei_encode d) \<and> length sei \<in> {47..59} \<and>
    live_onFrameReceivedCallback free junk g now frame l =
    (if \<not> isStarted l then Done (l\<lparr>isStarted := True\<rparr>)
     else (case ipcuFramedSource l of
         Uninit \<Rightarrow> Fault
       | Deleted \<Rightarrow> Done l
       | Source s \<Rightarrow>
           if 204800 < length frame \<or> \<not> free then Done l
           else if 204800 < length sei + length frame then Fault
           else Done (l\<lparr>ipcuFramedSource := Source
             \<lparr>frame_buffer = sei @ frame @ drop (length sei + length frame) (frame_buffer s),
              frame_size = length sei + length frame\<rparr>\<rparr>)))"
proof -
  obtain d where d: "gps_for_frame junk g now = Done d"
    using gps_for_frame_no_fault [OF assms(2,3)] by blast
  have inv: "live_inv l" using live_reachable_inv [OF assms(1,3)] .
  have same: "ipcuFramedSource l = p \<Longrightarrow> l\<lparr>ipcuFramedSource := p\<rparr> = l" for p by (cases l) simp
  have "live_onFrameReceivedCallback free junk g now frame l =
    (if \<not> isStarted l then Done (l\<lparr>isStarted := True\<rparr>)
     else (case ipcuFramedSource l of
         Uninit \<Rightarrow> Fault
       | Deleted \<Rightarrow> Done l
       | Source s \<Rightarrow>
           if 204800 < length frame \<or> \<not> free then Done l
           else if 204800 < length (fst (sei_encode d)) + length frame then Fault
           else Done (l\<lparr>ipcuFramedSource := Source
             \<lparr>frame_buffer = fst (sei_encode d) @ frame @
                drop (length (fst (sei_encode d)) + length frame) (frame_buffer s),
              frame_size = length (fst (sei_encode d)) + length frame\<rparr>\<rparr>)))"
  proof (cases "isStarted l")
    case True
    show ?thesis
    proof (cases "ipcuFramedSource l")
      case (Source s)
      then have "referenceCount (source_static l) = 1" "length (frame_buffer s) = BUFFER_SIZE"
        using inv by (simp_all add: live_inv_def)
      then show ?thesis using True Source same [OF Source]
        by (simp add: live_frame_cases [OF d True] writeFrameToBuf_eq BUFFER_SIZE_def)
    qed (use True inv in \<open>simp_all add: live_frame_cases [OF d True] live_inv_def\<close>)
  next
    case False
    then show ?thesis by (simp add: live_onFrameReceivedCallback_def live_start_def)
  qed
  moreover have "length (fst (sei_encode d)) \<in> {47..59}" using sei_unit_length [of d] by simp
  ultimately show ?thesis using d by blast
qed

text \<open>A reader after a frame was stored.\<close>

lemma written_is_delivered:
  assumes "length (frame_buffer s) = BUFFER_SIZE" "writeFrameToBuf True frame sei cl s = Done (0, True, s')" "4 \<le> length sei"
  shows "\<exists>d'. deliverFrame True True fMaxSize s' d = Done (Some d') \<and>
    fTo d' = take fMaxSize (drop 4 (sei @ frame)) \<and> fFrameSize d' = length (fTo d') \<and>
    (fMaxSize < length sei + length frame - 4 \<longrightarrow>
      fFrameSize d' + fNumTruncatedBytes d' + 4 = length sei + length frame)"
proof -
  have buf: "frame_buffer s' = sei @ frame @ drop (length sei + length frame) (frame_buffer s)"
    and size: "frame_size s' = length sei + length frame"
    and len: "length (frame_buffer s') = BUFFER_SIZE"
    and fits: "length sei + length frame \<le> BUFFER_SIZE"
    using assms(1,2) by (auto simp: writeFrameToBuf_def write_both split: if_splits)
  have win: "window 4 n (frame_buffer s') = take n (drop 4 (sei @ frame))"
    if "n \<le> length sei + length frame - 4" for n
    using that assms(3) by (simp add: window_def buf)
  have "4 < length sei + length frame \<or> frame = []" using assms(3) by (cases frame) auto
  then show ?thesis
    using assms(3) len fits by (auto simp: deliverFrame_def Let_def size win)
qed

text \<open>What live555 gets. In every reachable state a delivery stays inside the buffer; after a
  frame was stored, a waiting reader that gets the lock receives the stored SEI unit and frame
  without the first start code, cut to its buffer, and is told how many bytes it got and, when
  some are missing, how many.\<close>

theorem live_delivery:
  assumes "live_reachable J strtof l" "ipcuFramedSource l = Source s" "circular J"
  shows "deliverFrame awaiting free fMaxSize s d \<noteq> Fault \<and>
    (\<forall>cl sei frame s'. writeFrameToBuf True frame sei cl s = Done (0, True, s') \<longrightarrow> 4 \<le> length sei \<longrightarrow>
      (\<exists>d'. deliverFrame True True fMaxSize s' d = Done (Some d') \<and>
        fTo d' = take fMaxSize (drop 4 (sei @ frame)) \<and> fFrameSize d' = length (fTo d') \<and>
        (fMaxSize < length sei + length frame - 4 \<longrightarrow>
          fFrameSize d' + fNumTruncatedBytes d' + 4 = length sei + length frame)))"
proof -
  have inv: "length (frame_buffer s) = BUFFER_SIZE" "frame_size s \<le> BUFFER_SIZE"
    using live_reachable_inv [OF assms(1,3)] assms(2) by (simp_all add: live_inv_def)
  have total: "deliverFrame awaiting free fMaxSize s d \<noteq> Fault"
    using inv by (auto simp: deliverFrame_def Let_def BUFFER_SIZE_def)
  show ?thesis using total written_is_delivered [OF inv(1)] by blast
qed

definition demo_live :: live_server where
  "demo_live = createNewStreamSource (replicate BUFFER_SIZE 0) 1 Live555Server"

lemma demo_live_reachable: "live_reachable demo_jsonc demo_strtof demo_live"
  unfolding demo_live_def
  by (rule lr_create [OF lr_init]) (simp_all add: Live555Server_def)

lemma demo_live_source: "ipcuFramedSource demo_live = Source \<lparr>frame_buffer = replicate BUFFER_SIZE 0, frame_size = 0\<rparr>"
  by (simp add: demo_live_def createNewStreamSource_def IPCU555FramedSource_def)

theorem live_frame_outcome_witness:
  "live_onFrameReceivedCallback True (hd (gps_data_buf demo_two)) demo_two 5000 [0x65] demo_live =
     Done (demo_live\<lparr>isStarted := True\<rparr>)"
proof -
  obtain h where h: "gps_reachable demo_jsonc demo_strtof h demo_two"
    using demo_gps_reachable [OF gr_start] unfolding demo_two_def by blast
  have "\<not> isStarted demo_live"
    by (simp add: demo_live_def createNewStreamSource_def IPCU555FramedSource_def Live555Server_def)
  then show ?thesis
    using live_frame_outcome [OF demo_live_reachable h demo_jsonc_circular, of "hd (gps_data_buf demo_two)" 5000 True "[0x65]"]
    by auto
qed

theorem live_delivery_witness:
  "\<exists>d'. deliverFrame True True 3 \<lparr>frame_buffer = [0, 0, 0, 1, 6, 5, 0x65] @ replicate (BUFFER_SIZE - 7) 0,
      frame_size = 7\<rparr> \<lparr>fFrameSize = 0, fNumTruncatedBytes = 0, fTo = []\<rparr> = Done (Some d') \<and>
    fTo d' = [6, 5, 0x65]"
proof -
  have w: "writeFrameToBuf True [0x65] [0, 0, 0, 1, 6, 5] \<lparr>referenceCount = 1, eventTriggerId = 1\<rparr>
      \<lparr>frame_buffer = replicate BUFFER_SIZE 0, frame_size = 0\<rparr> = Done (0, True,
      \<lparr>frame_buffer = [0, 0, 0, 1, 6, 5, 0x65] @ replicate (BUFFER_SIZE - 7) 0, frame_size = 7\<rparr>)"
    by (subst writeFrameToBuf_eq) (simp_all add: BUFFER_SIZE_def)
  show ?thesis
    using conjunct2 [OF live_delivery [OF demo_live_reachable demo_live_source demo_jsonc_circular, where fMaxSize = 3
        and d = "\<lparr>fFrameSize = 0, fNumTruncatedBytes = 0, fTo = []\<rparr>"], rule_format, OF w]
    by auto
qed

end
