(* ===== verification/FrameFiles.thy ===== *)
theory FrameFiles
  imports Prelude
begin

text \<open>
  \<open>src/src/frame_consumer.cpp\<close>, \<open>src/src/raw_img_capture.cpp\<close> and \<open>src/src/yuv_capture.cpp\<close>:
  frames that are written to a file as they are. Whether the file opens, what \<open>write\<close> returns and
  the time are parameters.
\<close>

record file_world =
  f_opens :: bool
  f_write :: int
  f_time :: string

text \<open>
  \<open>save_frame_to_file\<close>: the result, and what is in the file. The \<open>-1\<close> of the failed \<open>open\<close> is
  returned as a \<open>bool\<close>, which makes it true.
\<close>

definition save_frame_to_file :: "file_world \<Rightarrow> byte list \<Rightarrow> bool \<times> byte list option" where
  "save_frame_to_file w addr =
    (if \<not> f_opens w then ((- 1 :: int) \<noteq> 0, None)
     else ((word_of_int (f_write w) :: u32) = of_nat (length addr), Some (take (nat (f_write w)) addr)))"

text \<open>
  The two classes differ in their suffix. The result: the file written (its name and content) and
  the name given to the callback for saved frames, if it is called.
\<close>

definition capture_onFrameReceivedCallback ::
    "string \<Rightarrow> file_world \<Rightarrow> string \<Rightarrow> byte list \<Rightarrow> (string \<times> byte list) option \<times> string option" where
  "capture_onFrameReceivedCallback suffix w filePath addr =
    (let name = filePath @ ''/'' @ ''img'' @ f_time w @ suffix;
         (ok, content) = save_frame_to_file w addr
     in (map_option (\<lambda>c. (name, c)) content, if ok then Some name else None))"

definition raw_onFrameReceivedCallback ::
    "file_world \<Rightarrow> string \<Rightarrow> byte list \<Rightarrow> (string \<times> byte list) option \<times> string option" where
  "raw_onFrameReceivedCallback = capture_onFrameReceivedCallback ''.raw''"

definition yuv_onFrameReceivedCallback ::
    "file_world \<Rightarrow> string \<Rightarrow> byte list \<Rightarrow> (string \<times> byte list) option \<times> string option" where
  "yuv_onFrameReceivedCallback = capture_onFrameReceivedCallback ''.yuv''"

text \<open>A frame whose file could not be opened is announced as saved.\<close>

lemma unopened_is_announced:
  "\<not> f_opens w \<Longrightarrow> capture_onFrameReceivedCallback suffix w p a =
     (None, Some (p @ ''/'' @ ''img'' @ f_time w @ suffix))"
  by (simp add: capture_onFrameReceivedCallback_def save_frame_to_file_def)

text \<open>A frame that opens its file is announced exactly if it was written whole.\<close>

lemma opened_announced_iff:
  assumes "f_opens w" "length a < 2 ^ 31" "- 1 \<le> f_write w" "f_write w \<le> int (length a)"
  shows "snd (capture_onFrameReceivedCallback suffix w p a) \<noteq> None \<longleftrightarrow>
    fst (capture_onFrameReceivedCallback suffix w p a) = Some (p @ ''/'' @ ''img'' @ f_time w @ suffix, a) \<and>
    f_write w = int (length a)"
proof -
  have "(word_of_int (f_write w) :: u32) = of_nat (length a) \<longleftrightarrow> f_write w = int (length a)"
  proof (cases "f_write w = - 1")
    case True
    have "(of_nat (length a) :: u32) \<noteq> - 1"
    proof
      assume "(of_nat (length a) :: u32) = - 1"
      then have "unat (of_nat (length a) :: u32) = unat (- 1 :: u32)" by simp
      then show False using assms(2) by (simp add: unat_of_nat unsigned_minus_1_eq_mask mask_eq_exp_minus_1)
    qed
    then show ?thesis using True by auto
  next
    case False
    then have r: "0 \<le> f_write w" "f_write w < 2 ^ 32" using assms by simp_all
    have "uint (word_of_int (f_write w) :: u32) = f_write w" "uint (of_nat (length a) :: u32) = int (length a)"
      using r assms(2) by (simp_all add: unsigned_of_int unsigned_of_nat take_bit_int_eq_self_iff
          take_bit_nat_eq_self_iff)
    then show ?thesis by (simp only: word_uint_eq_iff)
  qed
  then show ?thesis using assms(1)
    by (auto simp: capture_onFrameReceivedCallback_def save_frame_to_file_def Let_def)
qed

subsection \<open>The capture objects\<close>

text \<open>
  The members of \<open>RawImgCapture\<close> and \<open>YuvCapture\<close>. The constructor sets only the path: the callback pointer is not
  initialised (\<open>None\<close>) before \<open>setSavedCallback\<close>; after it, it may be null.
\<close>

record frame_capture =
  filePath :: string
  onSavedCallback :: "nat option option"
  onSavedCallbackData :: nat

definition FrameCapture :: "string \<Rightarrow> nat \<Rightarrow> frame_capture" where
  "FrameCapture path junk = \<lparr>filePath = path, onSavedCallback = None, onSavedCallbackData = junk\<rparr>"

definition setSavedCallback :: "nat option \<Rightarrow> nat \<Rightarrow> frame_capture \<Rightarrow> frame_capture" where
  "setSavedCallback cb data c = c\<lparr>onSavedCallback := Some cb, onSavedCallbackData := data\<rparr>"

definition capture_setPath :: "string \<Rightarrow> frame_capture \<Rightarrow> frame_capture" where
  "capture_setPath path c = c\<lparr>filePath := path\<rparr>"

text \<open>The file of a frame, and the call of the callback: itself, the name and its data.\<close>

definition capture_frame ::
    "string \<Rightarrow> file_world \<Rightarrow> byte list \<Rightarrow> frame_capture \<Rightarrow>
     ((string \<times> byte list) option \<times> (nat \<times> string \<times> nat) option) run" where
  "capture_frame suffix w addr c =
    (let (file, saved) = capture_onFrameReceivedCallback suffix w (filePath c) addr
     in case saved of
          None \<Rightarrow> Done (file, None)
        | Some name \<Rightarrow>
            (case onSavedCallback c of
               None \<Rightarrow> Fault
             | Some cb \<Rightarrow> Done (file, map_option (\<lambda>f. (f, name, onSavedCallbackData c)) cb)))"

text \<open>A capture whose callback was set is safe whatever happens to its path, and calls it with the data that was set.\<close>

lemma set_callback_safe:
  "\<exists>file. capture_frame suffix w addr (capture_setPath p (setSavedCallback cb data c)) = Done (file,
     (case cb of None \<Rightarrow> None | Some f \<Rightarrow>
        map_option (\<lambda>name. (f, name, data)) (snd (capture_onFrameReceivedCallback suffix w p addr))))"
  by (cases "snd (capture_onFrameReceivedCallback suffix w p addr)"; cases cb)
    (auto simp: capture_frame_def capture_setPath_def setSavedCallback_def case_prod_unfold)

end
