(* ===== verification/StreamQueue.thy ===== *)
theory StreamQueue
  imports Prelude
begin

text \<open>
  The node lists of \<open>src/src/sample_library.c\<close> (lines 50 to 436): the heap of
  \<open>struct stream_queue\<close> nodes, the three list heads \<open>stream_pool\<close> (LIFO),
  \<open>recv_queue\<close> (FIFO) and \<open>release_list\<close> (FIFO with removal in the middle), and the
  operations on them. A pointer to a node is its address, \<open>None\<close> is \<open>NULL\<close>; an
  operation that dereferences a pointer to no live node has no result (\<open>None\<close>). The
  three \<open>pop\<close> functions have the same body over their own head, as have the two
  functions that append, so each body is modelled once over a heap and a head.

  The lemmas relate each operation to the mathematical list that a well-formed doubly
  linked list represents, with what it leaves unchanged. The abstraction predicate
  \<open>lib_rep\<close> collects the three lists, the nodes in the hands of a thread and the
  contents of all nodes; the locales state the contract of an ownership transferring
  list, and are interpreted on the three lists of the library.
\<close>

subsection \<open>Nodes and heaps\<close>

type_synonym addr = nat

record stream_queue =
  sq_command :: "byte list"
  sq_length :: u32
  sq_release_counter :: u32
  sq_next :: "addr option"
  sq_prev :: "addr option"

type_synonym node_heap = "addr \<Rightarrow> stream_queue option"

definition STREAM_QUEUE_SIZE :: nat where "STREAM_QUEUE_SIZE = 128"
definition STREAM_COMMAND_MAX :: nat where "STREAM_COMMAND_MAX = 256"

text \<open>What \<open>memset(queue_data, 0, sizeof(struct stream_queue))\<close> leaves.\<close>

definition zero_node :: stream_queue where
  "zero_node = \<lparr>sq_command = replicate STREAM_COMMAND_MAX 0, sq_length = 0,
     sq_release_counter = 0, sq_next = None, sq_prev = None\<rparr>"

definition node_set :: "node_heap \<Rightarrow> addr \<Rightarrow> (stream_queue \<Rightarrow> stream_queue) \<Rightarrow> node_heap option" where
  "node_set h a f = (case h a of None \<Rightarrow> None | Some n \<Rightarrow> Some (h(a \<mapsto> f n)))"

abbreviation set_next :: "addr option \<Rightarrow> stream_queue \<Rightarrow> stream_queue" where
  "set_next p n \<equiv> n\<lparr>sq_next := p\<rparr>"

abbreviation set_prev :: "addr option \<Rightarrow> stream_queue \<Rightarrow> stream_queue" where
  "set_prev p n \<equiv> n\<lparr>sq_prev := p\<rparr>"

text \<open>\<open>if (next) next->prev = p\<close> and its mirror image.\<close>

definition prev_of :: "node_heap \<Rightarrow> addr option \<Rightarrow> addr option \<Rightarrow> node_heap option" where
  "prev_of h q p = (case q of None \<Rightarrow> Some h | Some a \<Rightarrow> node_set h a (set_prev p))"

subsection \<open>The list operations of the code\<close>

text \<open>\<open>push_stream_pool\<close>: the node is cleared and becomes the first of the list.\<close>

definition list_push_front :: "node_heap \<Rightarrow> addr option \<Rightarrow> addr \<Rightarrow> (node_heap \<times> addr option) option" where
  "list_push_front h hp q = do {
     h \<leftarrow> node_set h q (\<lambda>_. zero_node);
     h \<leftarrow> prev_of h hp (Some q);
     h \<leftarrow> node_set h q (set_next hp);
     h \<leftarrow> node_set h q (set_prev None);
     Some (h, Some q)
   }"

text \<open>\<open>pop_stream_pool\<close>, \<open>pop_recv_queue\<close>, \<open>pop_release_list\<close>.\<close>

definition list_pop :: "node_heap \<Rightarrow> addr option \<Rightarrow> (addr option \<times> node_heap \<times> addr option) option" where
  "list_pop h hp = (case hp of
     None \<Rightarrow> Some (None, h, None)
   | Some p \<Rightarrow> do {
       n \<leftarrow> h p;
       let nx = sq_next n;
       h \<leftarrow> node_set h p (set_prev None);
       h \<leftarrow> node_set h p (set_next None);
       h \<leftarrow> prev_of h nx None;
       Some (Some p, h, nx)
     })"

text \<open>The loop \<open>while (queue->next) queue = queue->next\<close>; it returns on an acyclic list.\<close>

partial_function (option) list_last :: "node_heap \<Rightarrow> addr \<Rightarrow> addr option" where
  "list_last h a = (case h a of None \<Rightarrow> None
     | Some n \<Rightarrow> (case sq_next n of None \<Rightarrow> Some a | Some b \<Rightarrow> list_last h b))"

text \<open>\<open>push_recv_queue\<close>, \<open>push_release_list\<close>.\<close>

definition list_push_back :: "node_heap \<Rightarrow> addr option \<Rightarrow> addr \<Rightarrow> (node_heap \<times> addr option) option" where
  "list_push_back h hp q = (case hp of
     Some first \<Rightarrow> do {
       l \<leftarrow> list_last h first;
       h \<leftarrow> node_set h l (set_next (Some q));
       h \<leftarrow> node_set h q (set_next None);
       h \<leftarrow> node_set h q (set_prev (Some l));
       Some (h, hp)
     }
   | None \<Rightarrow> do {
       h \<leftarrow> node_set h q (set_next None);
       h \<leftarrow> node_set h q (set_prev None);
       Some (h, Some q)
     })"

text \<open>\<open>remove_release_list\<close>: unlinks a node from wherever it is in the list.\<close>

definition list_unlink :: "node_heap \<Rightarrow> addr option \<Rightarrow> addr option \<Rightarrow> (node_heap \<times> addr option) option" where
  "list_unlink h hp q = do {
     (nx, pv, h) \<leftarrow> (case q of
         None \<Rightarrow> Some (None, None, h)
       | Some a \<Rightarrow> do {
           n \<leftarrow> h a;
           h' \<leftarrow> node_set h a (set_prev None);
           h' \<leftarrow> node_set h' a (set_next None);
           Some (sq_next n, sq_prev n, h')
         });
     h \<leftarrow> prev_of h nx pv;
     (case pv of
        Some p \<Rightarrow> do { h \<leftarrow> node_set h p (set_next nx); Some (h, hp) }
      | None \<Rightarrow> Some (h, nx))
   }"

text \<open>
  \<open>search_release_list\<close>: the command buffer is the first member of the node, so the
  pointer the code compares, \<open>list->command\<close>, is the node's own address.
\<close>

partial_function (option) list_search :: "node_heap \<Rightarrow> addr option \<Rightarrow> addr \<Rightarrow> addr option option" where
  "list_search h p c = (case p of None \<Rightarrow> Some None
     | Some a \<Rightarrow> (if a = c then Some (Some a)
         else (case h a of None \<Rightarrow> None | Some n \<Rightarrow> list_search h (sq_next n) c)))"

subsection \<open>The list a heap represents\<close>

text \<open>
  \<open>dseg h pv p xs q\<close>: following \<open>next\<close> from \<open>p\<close> visits the nodes \<open>xs\<close> and arrives at
  \<open>q\<close>; their \<open>prev\<close> pointers lead back, the first to \<open>pv\<close>.
\<close>

primrec dseg :: "node_heap \<Rightarrow> addr option \<Rightarrow> addr option \<Rightarrow> addr list \<Rightarrow> addr option \<Rightarrow> bool" where
  "dseg h pv p [] q = (p = q)"
| "dseg h pv p (a # as) q = (p = Some a \<and> (case h a of None \<Rightarrow> False
      | Some n \<Rightarrow> sq_prev n = pv \<and> dseg h (Some a) (sq_next n) as q))"

definition dlist :: "node_heap \<Rightarrow> addr option \<Rightarrow> addr list \<Rightarrow> bool" where
  "dlist h p xs \<longleftrightarrow> dseg h None p xs None \<and> distinct xs"

definition last_of :: "addr option \<Rightarrow> addr list \<Rightarrow> addr option" where
  "last_of pv xs = (if xs = [] then pv else Some (last xs))"

lemma last_of_simps [simp]: "last_of pv [] = pv" "last_of pv (x # xs) = last_of (Some x) xs"
  by (simp_all add: last_of_def)

lemma dseg_append: "dseg h pv p (xs @ ys) q \<longleftrightarrow>
    (\<exists>r. dseg h pv p xs r \<and> dseg h (last_of pv xs) r ys q)"
  by (induction xs arbitrary: pv p) (auto split: option.splits)

lemma dseg_cong: "(\<And>a. a \<in> set xs \<Longrightarrow> h' a = h a) \<Longrightarrow> dseg h' pv p xs q = dseg h pv p xs q"
  by (induction xs arbitrary: pv p) (auto split: option.splits)

lemma dseg_upd [simp]: "a \<notin> set xs \<Longrightarrow> dseg (h(a := v)) pv p xs q = dseg h pv p xs q"
  by (rule dseg_cong) auto

lemma dseg_alive: "dseg h pv p xs q \<Longrightarrow> set xs \<subseteq> dom h"
  by (induction xs arbitrary: pv p) (auto split: option.splits)

lemma dseg_head: "dseg h pv p xs None \<Longrightarrow> p = head_of xs"
  by (cases xs) auto

lemma dlist_head: "dlist h p xs \<Longrightarrow> p = head_of xs"
  by (auto simp: dlist_def dseg_head)

lemma dlist_alive: "dlist h p xs \<Longrightarrow> set xs \<subseteq> dom h"
  by (auto simp: dlist_def dest: dseg_alive)

lemma dlist_cong: "(\<And>a. a \<in> set xs \<Longrightarrow> h' a = h a) \<Longrightarrow> dlist h' p xs = dlist h p xs"
  using dseg_cong[of xs h' h None p None] by (simp add: dlist_def)

lemma dlist_Nil [simp]: "dlist h p [] \<longleftrightarrow> p = None"
  by (simp add: dlist_def)

text \<open>Redirecting the end of a segment, and the back pointer at its start.\<close>

lemma dseg_set_next:
  assumes "dseg h pv p (xs @ [l]) q" and "distinct (xs @ [l])" and "h l = Some n"
  shows "dseg (h(l \<mapsto> set_next r n)) pv p (xs @ [l]) r"
  using assms by (auto simp: dseg_append split: option.splits)

lemma dseg_set_prev:
  assumes "dseg h pv (Some z) (z # zs) q" and "z \<notin> set zs" and "h z = Some n"
  shows "dseg (h(z \<mapsto> set_prev pv' n)) pv' (Some z) (z # zs) q"
  using assms by auto

subsection \<open>What an operation leaves unchanged\<close>

text \<open>
  \<open>relinked X h h'\<close>: only nodes of \<open>X\<close> differ, only in their link fields, and no node is
  created or freed.
\<close>

definition payload :: "stream_queue \<Rightarrow> byte list \<times> u32 \<times> u32" where
  "payload n = (sq_command n, sq_length n, sq_release_counter n)"

definition payloads :: "node_heap \<Rightarrow> addr \<Rightarrow> (byte list \<times> u32 \<times> u32) option" where
  "payloads h a = map_option payload (h a)"

definition relinked :: "addr set \<Rightarrow> node_heap \<Rightarrow> node_heap \<Rightarrow> bool" where
  "relinked X h h' \<longleftrightarrow> (\<forall>a. a \<notin> X \<longrightarrow> h' a = h a) \<and> payloads h' = payloads h"

lemma payload_simps [simp]:
  "payload (set_next p n) = payload n" "payload (set_prev p n) = payload n"
  by (simp_all add: payload_def)

lemma payloads_dom: "dom (payloads h) = dom h"
  by (auto simp: payloads_def dom_def)

lemma payloads_upd [simp]: "payloads (h(a \<mapsto> n)) = (payloads h)(a \<mapsto> payload n)"
  by (auto simp: payloads_def)

lemma payloads_at: "h a = Some n \<Longrightarrow> payloads h a = Some (payload n)"
  by (simp add: payloads_def)

lemma relinked_refl [simp, rep_intros]: "relinked X h h"
  by (simp add: relinked_def)

lemma relinked_dom: "relinked X h h' \<Longrightarrow> dom h' = dom h"
  by (metis payloads_dom relinked_def)

lemma relinked_trans: "relinked X h h' \<Longrightarrow> relinked X h' h'' \<Longrightarrow> relinked X h h''"
  by (simp add: relinked_def)

lemma relinked_node_set:
  assumes "node_set h a f = Some h'" and "\<And>n. payload (f n) = payload n" and "a \<in> X"
  shows "relinked X h h'"
proof -
  from assms(1) obtain n where n: "h a = Some n" and h': "h' = h(a \<mapsto> f n)"
    by (auto simp: node_set_def split: option.splits)
  then have "payloads h' = payloads h"
    using assms(2) by (auto simp: payloads_def fun_eq_iff)
  with h' assms(3) show ?thesis
    by (auto simp: relinked_def)
qed

lemma relinked_dlist:
  "relinked X h h' \<Longrightarrow> X \<inter> set xs = {} \<Longrightarrow> dlist h' p xs = dlist h p xs"
  by (rule dlist_cong) (auto simp: relinked_def)

lemma node_set_alive: "a \<in> dom h \<Longrightarrow> node_set h a f = Some (h(a \<mapsto> f (the (h a))))"
  by (auto simp: node_set_def)

lemma node_set_simp [simp]: "h a = Some n \<Longrightarrow> node_set h a f = Some (h(a \<mapsto> f n))"
  by (simp add: node_set_def)

lemma relinkedI:
  assumes "\<And>a. a \<notin> X \<Longrightarrow> h' a = h a" and "\<And>a. a \<in> X \<Longrightarrow> payloads h' a = payloads h a"
  shows "relinked X h h'"
proof -
  have "payloads h' a = payloads h a" for a
    using assms by (cases "a \<in> X") (auto simp: payloads_def)
  with assms(1) show ?thesis by (auto simp: relinked_def)
qed

subsection \<open>What the operations do to a represented list\<close>

lemma list_pop_Nil [simp]: "list_pop h None = Some (None, h, None)"
  by (simp add: list_pop_def)

lemma list_pop_Cons:
  assumes "dlist h p (x # xs)"
  shows "\<exists>h'. list_pop h p = Some (Some x, h', head_of xs) \<and> dlist h' (head_of xs) xs
    \<and> relinked (set (x # xs)) h h'"
proof -
  from assms obtain n where p: "p = Some x" and n: "h x = Some n" "sq_prev n = None"
    and seg: "dseg h (Some x) (sq_next n) xs None" and x: "x \<notin> set xs" and d: "distinct xs"
    by (auto simp: dlist_def split: option.splits)
  define h1 where "h1 = h(x \<mapsto> set_next None (set_prev None n))"
  have nx: "sq_next n = head_of xs" using seg by (rule dseg_head)
  show ?thesis
  proof (cases xs)
    case Nil
    have "list_pop h p = Some (Some x, h1, None)"
      using p n nx Nil by (simp add: list_pop_def h1_def prev_of_def node_set_def)
    moreover have "relinked {x} h h1"
      by (rule relinkedI) (use n in \<open>auto simp: h1_def payloads_def\<close>)
    ultimately show ?thesis using Nil by simp
  next
    case (Cons y ys)
    with seg obtain m where m: "h y = Some m" "sq_prev m = Some x"
      and seg': "dseg h (Some y) (sq_next m) ys None"
      by (auto split: option.splits)
    define h2 where "h2 = h1(y \<mapsto> set_prev None m)"
    have xy: "x \<noteq> y" "x \<notin> set ys" "y \<notin> set ys" using x d Cons by auto
    have "list_pop h p = Some (Some x, h2, head_of xs)"
      using p n nx m xy Cons by (simp add: list_pop_def h2_def h1_def prev_of_def node_set_def)
    moreover have "dlist h2 (head_of xs) xs"
      using Cons d seg' xy m by (simp add: dlist_def h2_def h1_def)
    moreover have "relinked (set (x # xs)) h h2"
      by (rule relinkedI) (use n m Cons in \<open>auto simp: h1_def h2_def payloads_def\<close>)
    ultimately show ?thesis by blast
  qed
qed

lemma list_push_front_dlist:
  assumes "dlist h p xs" and "q \<notin> set xs" and "q \<in> dom h"
  shows "\<exists>h'. list_push_front h p q = Some (h', Some q) \<and> dlist h' (Some q) (q # xs)
    \<and> relinked (set (q # xs)) (h(q \<mapsto> zero_node)) h'"
proof -
  from assms(3) obtain n where n: "h q = Some n" by auto
  have p: "p = head_of xs" using assms(1) by (rule dlist_head)
  show ?thesis
  proof (cases xs)
    case Nil
    let ?h = "h(q \<mapsto> set_prev None (set_next None zero_node))"
    have "list_push_front h p q = Some (?h, Some q)"
      using n p Nil by (simp add: list_push_front_def prev_of_def node_set_def)
    moreover have "relinked (set (q # xs)) (h(q \<mapsto> zero_node)) ?h"
      by (rule relinkedI) (auto simp: payloads_def)
    ultimately show ?thesis using Nil by (auto simp: dlist_def)
  next
    case (Cons y ys)
    with assms(1) p obtain m where m: "h y = Some m" "sq_prev m = None"
      and seg: "dseg h (Some y) (sq_next m) ys None" and d: "distinct ys" "y \<notin> set ys"
      by (auto simp: dlist_def split: option.splits)
    have q: "q \<noteq> y" "q \<notin> set ys" using assms(2) Cons by auto
    define h1 where "h1 = h(q \<mapsto> zero_node, y \<mapsto> set_prev (Some q) m)"
    define h2 where "h2 = h1(q \<mapsto> set_prev None (set_next (Some y) zero_node))"
    have "list_push_front h p q = Some (h2, Some q)"
      using n m p q Cons
      by (simp add: list_push_front_def prev_of_def node_set_def h1_def h2_def)
    moreover have "dlist h2 (Some q) (q # xs)"
      using Cons q d seg m by (auto simp: dlist_def h1_def h2_def)
    moreover have "relinked (set (q # xs)) (h(q \<mapsto> zero_node)) h2"
      by (rule relinkedI) (use m q Cons in \<open>auto simp: h1_def h2_def payloads_def\<close>)
    ultimately show ?thesis by blast
  qed
qed

lemma list_last_dseg: "dseg h pv (Some a) (ys @ [l]) None \<Longrightarrow> list_last h a = Some l"
proof (induction ys arbitrary: a pv)
  case Nil
  then obtain n where "a = l" "h l = Some n" "sq_next n = None" by (auto split: option.splits)
  then show ?case by (simp add: list_last.simps[of h l])
next
  case (Cons y ys)
  from Cons.prems have "case h a of None \<Rightarrow> False | Some n \<Rightarrow> dseg h (Some a) (sq_next n) (ys @ [l]) None"
    by (simp split: option.split_asm)
  then obtain n where n: "h a = Some n" and seg: "dseg h (Some a) (sq_next n) (ys @ [l]) None"
    by (simp split: option.split_asm)
  from seg obtain b where b: "sq_next n = Some b" by (cases ys) auto
  with Cons.IH seg have "list_last h b = Some l" by simp
  with n b show ?case by (simp add: list_last.simps[of h a])
qed

lemma list_push_back_dlist:
  assumes "dlist h p xs" and "q \<notin> set xs" and "q \<in> dom h"
  shows "\<exists>h'. list_push_back h p q = Some (h', head_of (xs @ [q])) \<and>
    dlist h' (head_of (xs @ [q])) (xs @ [q]) \<and> relinked (set (q # xs)) h h'"
proof -
  from assms(3) obtain n where n: "h q = Some n" by auto
  have p: "p = head_of xs" using assms(1) by (rule dlist_head)
  show ?thesis
  proof (cases xs rule: rev_cases)
    case Nil
    let ?h = "h(q \<mapsto> set_prev None (set_next None n))"
    have "list_push_back h p q = Some (?h, Some q)"
      using n p Nil by (simp add: list_push_back_def node_set_def)
    moreover have "relinked (set (q # xs)) h ?h"
      by (rule relinkedI) (use n in \<open>auto simp: payloads_def\<close>)
    ultimately show ?thesis using Nil by (auto simp: dlist_def)
  next
    case (snoc ys l)
    from snoc p obtain a where a: "p = Some a" by (cases ys) auto
    have seg: "dseg h None p (ys @ [l]) None" and d: "distinct (ys @ [l])"
      using assms(1) snoc by (auto simp: dlist_def)
    from seg a have last: "list_last h a = Some l" by (auto intro: list_last_dseg)
    from seg obtain m where m: "h l = Some m" by (auto simp: dseg_append split: option.splits)
    have q: "q \<noteq> l" "q \<notin> set ys" using assms(2) snoc by auto
    define h1 where "h1 = h(l \<mapsto> set_next (Some q) m)"
    define h2 where "h2 = h1(q \<mapsto> set_prev (Some l) (set_next None n))"
    have "list_push_back h p q = Some (h2, p)"
      using a last m n q by (simp add: list_push_back_def node_set_def h1_def h2_def)
    moreover have "dseg h1 None p (ys @ [l]) (Some q)"
      unfolding h1_def using seg d m by (rule dseg_set_next)
    then have "dseg h2 None p (ys @ [l]) (Some q)"
      using q by (simp add: h2_def)
    then have "dseg h2 None p (xs @ [q]) None"
      unfolding dseg_append[of h2 None p xs] using snoc by (auto simp: h2_def last_of_def)
    then have "dlist h2 p (xs @ [q])" using snoc d q by (simp add: dlist_def)
    moreover have "relinked (set (q # xs)) h h2"
      by (rule relinkedI) (use m n q snoc in \<open>auto simp: h1_def h2_def payloads_def\<close>)
    moreover have "head_of (xs @ [q]) = p" using p a snoc by (cases ys) auto
    ultimately show ?thesis by auto
  qed
qed

lemma list_search_dseg: "dseg h pv p xs None \<Longrightarrow>
    list_search h p c = Some (if c \<in> set xs then Some c else None)"
proof (induction xs arbitrary: p pv)
  case Nil
  then show ?case by (simp add: list_search.simps[of h None c])
next
  case (Cons x xs)
  from Cons.prems obtain n where n: "p = Some x" "h x = Some n" and seg: "dseg h (Some x) (sq_next n) xs None"
    by (auto split: option.splits)
  from seg have "list_search h (sq_next n) c = Some (if c \<in> set xs then Some c else None)"
    by (rule Cons.IH)
  with n show ?case by (simp add: list_search.simps[of h "Some x" c])
qed

lemma list_search_dlist: "dlist h p xs \<Longrightarrow>
    list_search h p c = Some (if c \<in> set xs then Some c else None)"
  unfolding dlist_def using list_search_dseg by blast

lemma list_unlink_dlist:
  assumes dl: "dlist h p (ys @ a # zs)"
  shows "\<exists>h'. list_unlink h p (Some a) = Some (h', head_of (ys @ zs)) \<and>
    dlist h' (head_of (ys @ zs)) (ys @ zs) \<and> relinked (set (ys @ a # zs)) h h'"
proof -
  from dl obtain r n where pre: "dseg h None p ys (Some a)" and n: "h a = Some n"
    "sq_prev n = last_of None ys" and suf: "dseg h (Some a) (sq_next n) zs None"
    and d: "distinct (ys @ a # zs)"
    by (auto simp: dlist_def dseg_append split: option.splits)
  have p: "p = head_of (ys @ [a])" using pre by (cases ys) auto
  have nx: "sq_next n = head_of zs" using suf by (rule dseg_head)
  define h1 where "h1 = h(a \<mapsto> set_next None (set_prev None n))"
  have seg1: "dseg h1 None p ys (Some a)" "dseg h1 (Some a) (sq_next n) zs None"
    using pre suf d by (simp_all add: h1_def)
  have rel1: "relinked (set (ys @ a # zs)) h h1"
    by (rule relinkedI) (use n in \<open>auto simp: h1_def payloads_def\<close>)
  obtain h2 where h2: "prev_of h1 (sq_next n) (sq_prev n) = Some h2"
    and suf2: "dseg h2 (last_of None ys) (sq_next n) zs None"
    and pre2: "dseg h2 None p ys (Some a)" and rel2: "relinked (set (ys @ a # zs)) h1 h2"
  proof (cases zs)
    case Nil
    with nx seg1 that show ?thesis by (auto simp: prev_of_def)
  next
    case (Cons z zs')
    with seg1 nx obtain m where m: "h1 z = Some m" by (auto split: option.splits)
    let ?h2 = "h1(z \<mapsto> set_prev (sq_prev n) m)"
    show ?thesis
    proof (rule that)
      show "prev_of h1 (sq_next n) (sq_prev n) = Some ?h2"
        using m nx Cons by (simp add: prev_of_def)
      show "dseg ?h2 (last_of None ys) (sq_next n) zs None"
        using dseg_set_prev[of h1 "Some a" z zs' None m "sq_prev n"] seg1 m nx Cons d n by simp
      show "dseg ?h2 None p ys (Some a)" using seg1 d Cons by simp
      show "relinked (set (ys @ a # zs)) h1 ?h2"
        by (rule relinkedI) (use m Cons in \<open>auto simp: payloads_def\<close>)
    qed
  qed
  have rel12: "relinked (set (ys @ a # zs)) h h2"
    using rel1 rel2 by (rule relinked_trans)
  have un: "list_unlink h p (Some a) = (case sq_prev n of
        Some q \<Rightarrow> do { h \<leftarrow> node_set h2 q (set_next (sq_next n)); Some (h, p) }
      | None \<Rightarrow> Some (h2, sq_next n))"
    using n h2 by (simp add: list_unlink_def h1_def)
  show ?thesis
  proof (cases ys rule: rev_cases)
    case Nil
    with un n nx suf2 d rel12 show ?thesis by (auto simp: dlist_def)
  next
    case (snoc us l)
    with pre2 obtain m where m: "h2 l = Some m" by (auto simp: dseg_append split: option.splits)
    let ?h3 = "h2(l \<mapsto> set_next (sq_next n) m)"
    have "list_unlink h p (Some a) = Some (?h3, p)"
      using un n m snoc by (simp add: last_of_def)
    moreover have "dseg ?h3 None p ys (sq_next n)"
      using dseg_set_next[of h2 None p us l "Some a" m "sq_next n"] pre2 m d snoc by simp
    then have "dlist ?h3 p (ys @ zs)"
      using suf2 d snoc by (auto simp: dlist_def dseg_append last_of_def)
    moreover have "relinked (set (ys @ a # zs)) h ?h3"
      by (rule relinked_trans[OF rel12], rule relinkedI) (use m snoc in \<open>auto simp: payloads_def\<close>)
    moreover have "head_of (ys @ zs) = p" using p snoc by (cases us) auto
    ultimately show ?thesis by auto
  qed
qed

end
