(* ===== verification/OwnedList.thy ===== *)
theory OwnedList
  imports Prelude
begin

text \<open>
  The contract of a list that hands nodes over to whoever pops them and takes them back
  when they are pushed, as the queue functions of \<open>src/src/sample_library.c\<close> use it:
  locale \<open>owned_list\<close> for popping, its extensions \<open>fifo_list\<close> and \<open>lifo_list\<close> for the two
  ways to push. A state \<open>s\<close> represents the list \<open>xs\<close> within the rest \<open>g\<close> of the abstract
  state (\<open>rep s xs g\<close>); \<open>got x g\<close> is that rest once \<open>x\<close> has been handed over. The lemmas of
  the locales are what the callers rely on: the loop that pops until the list is empty
  ends, and nodes come out in the order of the discipline.
\<close>

text \<open>
  The loops \<open>while (1) { q = pop(); if (q == NULL) break; use(q); }\<close> of
  \<open>finalize_stream_pool\<close> and \<open>force_remove_release_command\<close>.
\<close>

partial_function (option) drain ::
  "('s \<Rightarrow> ('q option \<times> 's) option) \<Rightarrow> ('q \<Rightarrow> 's \<Rightarrow> 's option) \<Rightarrow> 's \<Rightarrow> 's option" where
  "drain pop use s = (case pop s of None \<Rightarrow> None
     | Some (r, t) \<Rightarrow> (case r of None \<Rightarrow> Some t
         | Some q \<Rightarrow> (case use q t of None \<Rightarrow> None | Some u \<Rightarrow> drain pop use u)))"

text \<open>\<open>n\<close> pops in a row, and pushing the nodes of a list one after the other.\<close>

fun pops :: "('s \<Rightarrow> ('q option \<times> 's) option) \<Rightarrow> nat \<Rightarrow> 's \<Rightarrow> ('q option list \<times> 's) option" where
  "pops pop 0 s = Some ([], s)"
| "pops pop (Suc n) s = do { (r, s) \<leftarrow> pop s; (rs, s) \<leftarrow> pops pop n s; Some (r # rs, s) }"

fun pushes :: "('q \<Rightarrow> 's \<Rightarrow> 's option) \<Rightarrow> 'q list \<Rightarrow> 's \<Rightarrow> 's option" where
  "pushes push [] s = Some s"
| "pushes push (q # qs) s = do { s \<leftarrow> push q s; pushes push qs s }"

locale owned_list =
  fixes rep :: "'s \<Rightarrow> 'q list \<Rightarrow> 'g \<Rightarrow> bool"
    and pop :: "'s \<Rightarrow> ('q option \<times> 's) option"
    and got :: "'q \<Rightarrow> 'g \<Rightarrow> 'g"
  assumes pop_empty: "rep s [] g \<Longrightarrow> pop s = Some (None, s)"
    and pop_cons: "rep s (x # xs) g \<Longrightarrow> \<exists>t. pop s = Some (Some x, t) \<and> rep t xs (got x g)"
begin

lemma drain_ends:
  assumes use: "\<And>s x xs g. rep s xs (got x g) \<Longrightarrow> \<exists>t. use x s = Some t \<and> rep t xs (f x g)"
  shows "rep s xs g \<Longrightarrow> \<exists>t. drain pop use s = Some t \<and> rep t [] (fold f xs g)"
proof (induction xs arbitrary: s g)
  case Nil
  then show ?case by (subst drain.simps) (simp add: pop_empty)
next
  case (Cons x xs)
  from pop_cons[OF Cons.prems] obtain t where t: "pop s = Some (Some x, t)" "rep t xs (got x g)"
    by blast
  from use[OF t(2)] obtain u where u: "use x t = Some u" "rep u xs (f x g)" by blast
  from Cons.IH[OF u(2)] t u show ?case by (subst drain.simps) simp
qed

lemma pops_all:
  "rep s (xs @ ys) g \<Longrightarrow>
    \<exists>t. pops pop (length xs) s = Some (map Some xs, t) \<and> rep t ys (fold got xs g)"
proof (induction xs arbitrary: s g)
  case Nil
  then show ?case by simp
next
  case (Cons x xs)
  then obtain t where t: "pop s = Some (Some x, t)" "rep t (xs @ ys) (got x g)"
    using pop_cons[of s x "xs @ ys" g] by auto
  from Cons.IH[OF t(2)] t(1) show ?case by auto
qed

end

locale fifo_list = owned_list +
  fixes push :: "'q \<Rightarrow> 's \<Rightarrow> 's option"
    and held :: "'q \<Rightarrow> 'g \<Rightarrow> bool"
    and gave :: "'q \<Rightarrow> 'g \<Rightarrow> 'g"
  assumes push_back: "rep s xs g \<Longrightarrow> held q g \<Longrightarrow> \<exists>t. push q s = Some t \<and> rep t (xs @ [q]) (gave q g)"
    and held_gave: "held p g \<Longrightarrow> p \<noteq> q \<Longrightarrow> held p (gave q g)"
begin

lemma pushes_all:
  "rep s xs g \<Longrightarrow> \<forall>q\<in>set qs. held q g \<Longrightarrow> distinct qs \<Longrightarrow>
    \<exists>t. pushes push qs s = Some t \<and> rep t (xs @ qs) (fold gave qs g)"
proof (induction qs arbitrary: s xs g)
  case Nil
  then show ?case by simp
next
  case (Cons q qs)
  then obtain t where t: "push q s = Some t" "rep t (xs @ [q]) (gave q g)"
    using push_back[of s xs g q] by auto
  have "\<forall>p\<in>set qs. held p (gave q g)"
    by (intro ballI held_gave) (use Cons.prems in auto)
  with Cons.IH[OF t(2)] Cons.prems t(1) show ?case by auto
qed

text \<open>First in, first out: what is pushed comes out behind what was there, in order.\<close>

lemma fifo_order:
  assumes "rep s xs g" and "\<forall>q\<in>set qs. held q g" and "distinct qs"
  shows "\<exists>t u. pushes push qs s = Some t \<and>
    pops pop (length xs + length qs) t = Some (map Some xs @ map Some qs, u)"
proof -
  from pushes_all[OF assms] obtain t where t: "pushes push qs s = Some t"
    "rep t (xs @ qs) (fold gave qs g)" by blast
  then have "rep t ((xs @ qs) @ []) (fold gave qs g)" by simp
  from pops_all[OF this] t(1) show ?thesis by auto
qed

end

locale lifo_list = owned_list +
  fixes push :: "'q \<Rightarrow> 's \<Rightarrow> 's option"
    and held :: "'q \<Rightarrow> 'g \<Rightarrow> bool"
    and gave :: "'q \<Rightarrow> 'g \<Rightarrow> 'g"
  assumes push_front: "rep s xs g \<Longrightarrow> held q g \<Longrightarrow> \<exists>t. push q s = Some t \<and> rep t (q # xs) (gave q g)"
begin

lemma push_pop:
  assumes "rep s xs g" and "held q g"
  shows "\<exists>t u. push q s = Some t \<and> pop t = Some (Some q, u) \<and> rep u xs (got q (gave q g))"
  using push_front[OF assms] pop_cons by blast

end

end
