(* ===== verification/StreamLists.thy ===== *)
theory StreamLists
  imports StreamQueue OwnedList
begin

text \<open>
  The state of \<open>src/src/sample_library.c\<close> that its stream queue functions share (the node
  heap, the three list heads, the stop flag and the handle of the stream thread) and its
  functions \<open>push_stream_pool\<close> to \<open>search_release_list\<close> on that state. Every one of them
  runs under the mutex of its list, so it is one atomic step of the program.

  The abstract state \<open>alib\<close> has the three lists as lists, the nodes that are in no list
  (in the hands of a thread) as a set and the contents of all nodes as a map; the
  simulation lemmas show that each function does to the heap what its abstract
  counterpart does to that state.
\<close>

subsection \<open>The state and the functions of the code\<close>

record stream_lib =
  nodes :: node_heap
  stream_pool :: "addr option"
  recv_queue :: "addr option"
  release_list :: "addr option"
  stop_stream_thread_flag :: bool
  stream_thread :: nat

definition push_stream_pool :: "addr \<Rightarrow> stream_lib \<Rightarrow> stream_lib option" where
  "push_stream_pool q s = do {
     (h, p) \<leftarrow> list_push_front (nodes s) (stream_pool s) q;
     Some (s\<lparr>nodes := h, stream_pool := p\<rparr>)
   }"

definition pop_stream_pool :: "stream_lib \<Rightarrow> (addr option \<times> stream_lib) option" where
  "pop_stream_pool s = do {
     (r, h, p) \<leftarrow> list_pop (nodes s) (stream_pool s);
     Some (r, s\<lparr>nodes := h, stream_pool := p\<rparr>)
   }"

definition push_recv_queue :: "addr \<Rightarrow> stream_lib \<Rightarrow> stream_lib option" where
  "push_recv_queue q s = do {
     (h, p) \<leftarrow> list_push_back (nodes s) (recv_queue s) q;
     Some (s\<lparr>nodes := h, recv_queue := p\<rparr>)
   }"

definition pop_recv_queue :: "stream_lib \<Rightarrow> (addr option \<times> stream_lib) option" where
  "pop_recv_queue s = do {
     (r, h, p) \<leftarrow> list_pop (nodes s) (recv_queue s);
     Some (r, s\<lparr>nodes := h, recv_queue := p\<rparr>)
   }"

definition push_release_list :: "addr \<Rightarrow> stream_lib \<Rightarrow> stream_lib option" where
  "push_release_list q s = do {
     (h, p) \<leftarrow> list_push_back (nodes s) (release_list s) q;
     Some (s\<lparr>nodes := h, release_list := p\<rparr>)
   }"

definition pop_release_list :: "stream_lib \<Rightarrow> (addr option \<times> stream_lib) option" where
  "pop_release_list s = do {
     (r, h, p) \<leftarrow> list_pop (nodes s) (release_list s);
     Some (r, s\<lparr>nodes := h, release_list := p\<rparr>)
   }"

definition remove_release_list :: "addr option \<Rightarrow> stream_lib \<Rightarrow> stream_lib option" where
  "remove_release_list q s = do {
     (h, p) \<leftarrow> list_unlink (nodes s) (release_list s) q;
     Some (s\<lparr>nodes := h, release_list := p\<rparr>)
   }"

definition search_release_list :: "addr \<Rightarrow> stream_lib \<Rightarrow> addr option option" where
  "search_release_list c s = list_search (nodes s) (release_list s) c"

subsection \<open>The abstract state\<close>

type_synonym node_data = "byte list \<times> u32 \<times> u32"

record alib =
  a_pool :: "addr list"
  a_recv :: "addr list"
  a_rel :: "addr list"
  a_owned :: "addr set"
  a_data :: "addr \<Rightarrow> node_data option"
  a_stop :: bool
  a_thread :: nat

text \<open>Every live node is in exactly one list, once, or owned by a thread.\<close>

definition parts :: "alib \<Rightarrow> addr set" where
  "parts A = set (a_pool A) \<union> set (a_recv A) \<union> set (a_rel A) \<union> a_owned A"

definition separated :: "alib \<Rightarrow> bool" where
  "separated A \<longleftrightarrow> distinct (a_pool A @ a_recv A @ a_rel A) \<and>
     a_owned A \<inter> (set (a_pool A) \<union> set (a_recv A) \<union> set (a_rel A)) = {}"

definition lib_rep :: "stream_lib \<Rightarrow> alib \<Rightarrow> bool" where
  "lib_rep s A \<longleftrightarrow>
     dlist (nodes s) (stream_pool s) (a_pool A) \<and>
     dlist (nodes s) (recv_queue s) (a_recv A) \<and>
     dlist (nodes s) (release_list s) (a_rel A) \<and>
     separated A \<and> dom (nodes s) = parts A \<and>
     payloads (nodes s) = a_data A \<and>
     stop_stream_thread_flag s = a_stop A \<and> stream_thread s = a_thread A"

abbreviation zero_data :: node_data where
  "zero_data \<equiv> (replicate STREAM_COMMAND_MAX 0, 0, 0)"

lemma payload_zero_node [simp]: "payload zero_node = zero_data"
  by (simp add: payload_def zero_node_def)

definition a_push_pool :: "addr \<Rightarrow> alib \<Rightarrow> alib" where
  [model_simps]: "a_push_pool q A = A\<lparr>a_pool := q # a_pool A, a_owned := a_owned A - {q},
     a_data := (a_data A)(q \<mapsto> zero_data)\<rparr>"

definition a_push_recv :: "addr \<Rightarrow> alib \<Rightarrow> alib" where
  [model_simps]: "a_push_recv q A = A\<lparr>a_recv := a_recv A @ [q], a_owned := a_owned A - {q}\<rparr>"

definition a_push_rel :: "addr \<Rightarrow> alib \<Rightarrow> alib" where
  [model_simps]: "a_push_rel q A = A\<lparr>a_rel := a_rel A @ [q], a_owned := a_owned A - {q}\<rparr>"

definition a_take_pool :: "alib \<Rightarrow> alib" where
  [model_simps]: "a_take_pool A = A\<lparr>a_pool := tl (a_pool A),
     a_owned := a_owned A \<union> set_option (head_of (a_pool A))\<rparr>"

definition a_take_recv :: "alib \<Rightarrow> alib" where
  [model_simps]: "a_take_recv A = A\<lparr>a_recv := tl (a_recv A),
     a_owned := a_owned A \<union> set_option (head_of (a_recv A))\<rparr>"

definition a_take_rel :: "alib \<Rightarrow> alib" where
  [model_simps]: "a_take_rel A = A\<lparr>a_rel := tl (a_rel A),
     a_owned := a_owned A \<union> set_option (head_of (a_rel A))\<rparr>"

definition a_remove_rel :: "addr \<Rightarrow> alib \<Rightarrow> alib" where
  [model_simps]: "a_remove_rel q A = A\<lparr>a_rel := remove1 q (a_rel A), a_owned := insert q (a_owned A)\<rparr>"

lemma parts_push [simp]:
  "q \<in> a_owned A \<Longrightarrow> parts (a_push_pool q A) = parts A"
  "q \<in> a_owned A \<Longrightarrow> parts (a_push_recv q A) = parts A"
  "q \<in> a_owned A \<Longrightarrow> parts (a_push_rel q A) = parts A"
  by (auto simp: parts_def model_simps)

lemma parts_take [simp]:
  "parts (a_take_pool A) = parts A" "parts (a_take_recv A) = parts A" "parts (a_take_rel A) = parts A"
    apply (cases "a_pool A"; auto simp: parts_def model_simps)
   apply (cases "a_recv A"; auto simp: parts_def model_simps)
  apply (cases "a_rel A"; auto simp: parts_def model_simps)
  done

lemma parts_remove [simp]: "q \<in> set (a_rel A) \<Longrightarrow> parts (a_remove_rel q A) = parts A"
  by (auto simp: parts_def model_simps dest: in_set_remove1[THEN iffD2, rotated] notin_set_remove1)

lemma separated_push:
  "separated A \<Longrightarrow> q \<in> a_owned A \<Longrightarrow> separated (a_push_pool q A)"
  "separated A \<Longrightarrow> q \<in> a_owned A \<Longrightarrow> separated (a_push_recv q A)"
  "separated A \<Longrightarrow> q \<in> a_owned A \<Longrightarrow> separated (a_push_rel q A)"
  by (auto simp: separated_def model_simps)

lemma separated_take:
  "separated A \<Longrightarrow> separated (a_take_pool A)"
  "separated A \<Longrightarrow> separated (a_take_recv A)"
  "separated A \<Longrightarrow> separated (a_take_rel A)"
    apply (cases "a_pool A"; auto simp: separated_def model_simps)
   apply (cases "a_recv A"; auto simp: separated_def model_simps)
  apply (cases "a_rel A"; auto simp: separated_def model_simps)
  done

lemma separated_remove:
  "separated A \<Longrightarrow> q \<in> set (a_rel A) \<Longrightarrow> separated (a_remove_rel q A)"
  by (auto simp: separated_def model_simps dest: notin_set_remove1)

lemmas separated_ops = separated_push separated_take separated_remove

subsection \<open>Simulation\<close>

lemma lib_rep_heads:
  "lib_rep s A \<Longrightarrow> stream_pool s = head_of (a_pool A)"
  "lib_rep s A \<Longrightarrow> recv_queue s = head_of (a_recv A)"
  "lib_rep s A \<Longrightarrow> release_list s = head_of (a_rel A)"
  by (auto simp: lib_rep_def dest: dlist_head)

lemma lib_rep_alive: "lib_rep s A \<Longrightarrow> q \<in> parts A \<Longrightarrow> \<exists>n. nodes s q = Some n"
  by (auto simp: lib_rep_def dom_def)

lemma lib_rep_data: "lib_rep s A \<Longrightarrow> nodes s q = Some n \<Longrightarrow> a_data A q = Some (payload n)"
  by (metis lib_rep_def payloads_at)

lemma lib_rep_control:
  "lib_rep s A \<Longrightarrow> stop_stream_thread_flag s = a_stop A"
  "lib_rep s A \<Longrightarrow> stream_thread s = a_thread A"
  by (auto simp: lib_rep_def)

lemma relinked_keeps:
  "relinked X h h' \<Longrightarrow> dlist h p xs \<Longrightarrow> X \<inter> set xs = {} \<Longrightarrow> dlist h' p xs"
  using relinked_dlist by blast

lemma owned_notin:
  assumes "lib_rep s A" and "q \<in> a_owned A"
  shows "q \<notin> set (a_pool A)" "q \<notin> set (a_recv A)" "q \<notin> set (a_rel A)" "q \<in> dom (nodes s)"
  using assms by (auto simp: lib_rep_def separated_def parts_def)

lemma lists_disjoint:
  assumes "lib_rep s A"
  shows "set (a_pool A) \<inter> set (a_recv A) = {}" "set (a_pool A) \<inter> set (a_rel A) = {}"
    "set (a_recv A) \<inter> set (a_pool A) = {}" "set (a_recv A) \<inter> set (a_rel A) = {}"
    "set (a_rel A) \<inter> set (a_pool A) = {}" "set (a_rel A) \<inter> set (a_recv A) = {}"
  using assms by (auto simp: lib_rep_def separated_def)

lemma push_stream_pool_sim:
  assumes A: "lib_rep s A" and q: "q \<in> a_owned A"
  shows "\<exists>s'. push_stream_pool q s = Some s' \<and> lib_rep s' (a_push_pool q A)"
proof -
  note q' = owned_notin[OF A q]
  from A have "dlist (nodes s) (stream_pool s) (a_pool A)" by (simp add: lib_rep_def)
  from list_push_front_dlist[OF this q'(1) q'(4)] obtain h where
    h: "list_push_front (nodes s) (stream_pool s) q = Some (h, Some q)"
      "dlist h (Some q) (q # a_pool A)"
    and rel: "relinked (set (q # a_pool A)) ((nodes s)(q \<mapsto> zero_node)) h" by blast
  have keep: "dlist h p xs" if "dlist (nodes s) p xs" "q \<notin> set xs" "set (a_pool A) \<inter> set xs = {}" for p xs
    by (rule relinked_keeps[OF rel]) (use that in \<open>auto simp: dlist_def\<close>)
  have "dlist h (recv_queue s) (a_recv A)" "dlist h (release_list s) (a_rel A)"
    using A q' lists_disjoint[OF A] by (auto intro!: keep simp: lib_rep_def)
  moreover have "payloads h = (payloads (nodes s))(q \<mapsto> zero_data)"
    using rel by (simp add: relinked_def)
  moreover have "dom h = dom (nodes s)"
    using relinked_dom[OF rel] q'(4) by auto
  moreover have "separated (a_push_pool q A)" "parts (a_push_pool q A) = parts A"
    using A q by (simp_all add: separated_push lib_rep_def)
  ultimately show ?thesis
    using A h by (simp add: push_stream_pool_def lib_rep_def a_push_pool_def)
qed

lemma pop_stream_pool_sim:
  assumes A: "lib_rep s A"
  shows "\<exists>s'. pop_stream_pool s = Some (head_of (a_pool A), s') \<and> lib_rep s' (a_take_pool A)"
proof (cases "a_pool A")
  case Nil
  with A show ?thesis
    by (simp add: pop_stream_pool_def lib_rep_heads a_take_pool_def) (simp add: lib_rep_def separated_def parts_def)
next
  case (Cons x xs)
  with A have "dlist (nodes s) (stream_pool s) (x # xs)" by (simp add: lib_rep_def)
  from list_pop_Cons[OF this] obtain h where
    h: "list_pop (nodes s) (stream_pool s) = Some (Some x, h, head_of xs)" "dlist h (head_of xs) xs"
    and rel: "relinked (set (a_pool A)) (nodes s) h" using Cons by auto
  have "dlist h (recv_queue s) (a_recv A)" "dlist h (release_list s) (a_rel A)"
    using A lists_disjoint[OF A] by (auto intro!: relinked_keeps[OF rel] simp: lib_rep_def)
  moreover have "separated (a_take_pool A)" "parts (a_take_pool A) = parts A"
    using A by (simp_all add: separated_take lib_rep_def)
  ultimately show ?thesis
    using A h Cons relinked_dom[OF rel] rel
    by (simp add: pop_stream_pool_def a_take_pool_def lib_rep_def relinked_def)
qed

lemma push_recv_queue_sim:
  assumes A: "lib_rep s A" and q: "q \<in> a_owned A"
  shows "\<exists>s'. push_recv_queue q s = Some s' \<and> lib_rep s' (a_push_recv q A)"
proof -
  note q' = owned_notin[OF A q]
  from A have "dlist (nodes s) (recv_queue s) (a_recv A)" by (simp add: lib_rep_def)
  from list_push_back_dlist[OF this q'(2) q'(4)] obtain h where
    h: "list_push_back (nodes s) (recv_queue s) q = Some (h, head_of (a_recv A @ [q]))"
      "dlist h (head_of (a_recv A @ [q])) (a_recv A @ [q])"
    and rel: "relinked (set (q # a_recv A)) (nodes s) h" by blast
  have "dlist h (stream_pool s) (a_pool A)" "dlist h (release_list s) (a_rel A)"
    using A q' lists_disjoint[OF A] by (auto intro!: relinked_keeps[OF rel] simp: lib_rep_def)
  moreover have "separated (a_push_recv q A)" "parts (a_push_recv q A) = parts A"
    using A q by (simp_all add: separated_push lib_rep_def)
  ultimately show ?thesis
    using A h relinked_dom[OF rel] rel
    by (simp add: push_recv_queue_def a_push_recv_def lib_rep_def relinked_def)
qed

lemma pop_recv_queue_sim:
  assumes A: "lib_rep s A"
  shows "\<exists>s'. pop_recv_queue s = Some (head_of (a_recv A), s') \<and> lib_rep s' (a_take_recv A)"
proof (cases "a_recv A")
  case Nil
  with A show ?thesis
    by (simp add: pop_recv_queue_def lib_rep_heads a_take_recv_def) (simp add: lib_rep_def separated_def parts_def)
next
  case (Cons x xs)
  with A have "dlist (nodes s) (recv_queue s) (x # xs)" by (simp add: lib_rep_def)
  from list_pop_Cons[OF this] obtain h where
    h: "list_pop (nodes s) (recv_queue s) = Some (Some x, h, head_of xs)" "dlist h (head_of xs) xs"
    and rel: "relinked (set (a_recv A)) (nodes s) h" using Cons by auto
  have "dlist h (stream_pool s) (a_pool A)" "dlist h (release_list s) (a_rel A)"
    using A lists_disjoint[OF A] by (auto intro!: relinked_keeps[OF rel] simp: lib_rep_def)
  moreover have "separated (a_take_recv A)" "parts (a_take_recv A) = parts A"
    using A by (simp_all add: separated_take lib_rep_def)
  ultimately show ?thesis
    using A h Cons relinked_dom[OF rel] rel
    by (simp add: pop_recv_queue_def a_take_recv_def lib_rep_def relinked_def)
qed

lemma push_release_list_sim:
  assumes A: "lib_rep s A" and q: "q \<in> a_owned A"
  shows "\<exists>s'. push_release_list q s = Some s' \<and> lib_rep s' (a_push_rel q A)"
proof -
  note q' = owned_notin[OF A q]
  from A have "dlist (nodes s) (release_list s) (a_rel A)" by (simp add: lib_rep_def)
  from list_push_back_dlist[OF this q'(3) q'(4)] obtain h where
    h: "list_push_back (nodes s) (release_list s) q = Some (h, head_of (a_rel A @ [q]))"
      "dlist h (head_of (a_rel A @ [q])) (a_rel A @ [q])"
    and rel: "relinked (set (q # a_rel A)) (nodes s) h" by blast
  have "dlist h (stream_pool s) (a_pool A)" "dlist h (recv_queue s) (a_recv A)"
    using A q' lists_disjoint[OF A] by (auto intro!: relinked_keeps[OF rel] simp: lib_rep_def)
  moreover have "separated (a_push_rel q A)" "parts (a_push_rel q A) = parts A"
    using A q by (simp_all add: separated_push lib_rep_def)
  ultimately show ?thesis
    using A h relinked_dom[OF rel] rel
    by (simp add: push_release_list_def a_push_rel_def lib_rep_def relinked_def)
qed

lemma pop_release_list_sim:
  assumes A: "lib_rep s A"
  shows "\<exists>s'. pop_release_list s = Some (head_of (a_rel A), s') \<and> lib_rep s' (a_take_rel A)"
proof (cases "a_rel A")
  case Nil
  with A show ?thesis
    by (simp add: pop_release_list_def lib_rep_heads a_take_rel_def) (simp add: lib_rep_def separated_def parts_def)
next
  case (Cons x xs)
  with A have "dlist (nodes s) (release_list s) (x # xs)" by (simp add: lib_rep_def)
  from list_pop_Cons[OF this] obtain h where
    h: "list_pop (nodes s) (release_list s) = Some (Some x, h, head_of xs)" "dlist h (head_of xs) xs"
    and rel: "relinked (set (a_rel A)) (nodes s) h" using Cons by auto
  have "dlist h (stream_pool s) (a_pool A)" "dlist h (recv_queue s) (a_recv A)"
    using A lists_disjoint[OF A] by (auto intro!: relinked_keeps[OF rel] simp: lib_rep_def)
  moreover have "separated (a_take_rel A)" "parts (a_take_rel A) = parts A"
    using A by (simp_all add: separated_take lib_rep_def)
  ultimately show ?thesis
    using A h Cons relinked_dom[OF rel] rel
    by (simp add: pop_release_list_def a_take_rel_def lib_rep_def relinked_def)
qed

lemma remove_release_list_sim:
  assumes A: "lib_rep s A" and q: "q \<in> set (a_rel A)"
  shows "\<exists>s'. remove_release_list (Some q) s = Some s' \<and> lib_rep s' (a_remove_rel q A)"
proof -
  from q obtain ys zs where yz: "a_rel A = ys @ q # zs" "q \<notin> set ys"
    by (meson split_list_first)
  then have rm: "remove1 q (a_rel A) = ys @ zs" by (simp add: remove1_append)
  from A yz have "dlist (nodes s) (release_list s) (ys @ q # zs)" by (simp add: lib_rep_def)
  from list_unlink_dlist[OF this] obtain h where
    h: "list_unlink (nodes s) (release_list s) (Some q) = Some (h, head_of (ys @ zs))"
      "dlist h (head_of (ys @ zs)) (ys @ zs)"
    and rel: "relinked (set (a_rel A)) (nodes s) h" using yz by auto
  have "dlist h (stream_pool s) (a_pool A)" "dlist h (recv_queue s) (a_recv A)"
    using A lists_disjoint[OF A] by (auto intro!: relinked_keeps[OF rel] simp: lib_rep_def)
  moreover have "separated (a_remove_rel q A)" "parts (a_remove_rel q A) = parts A"
    using A q by (simp_all add: separated_remove lib_rep_def)
  ultimately show ?thesis
    using A h rm relinked_dom[OF rel] rel
    by (simp add: remove_release_list_def a_remove_rel_def lib_rep_def relinked_def)
qed

lemma search_release_list_sim:
  "lib_rep s A \<Longrightarrow> search_release_list c s = Some (if c \<in> set (a_rel A) then Some c else None)"
  unfolding search_release_list_def by (rule list_search_dlist) (simp add: lib_rep_def)

lemmas list_sims = push_stream_pool_sim pop_stream_pool_sim push_recv_queue_sim
  pop_recv_queue_sim push_release_list_sim pop_release_list_sim remove_release_list_sim

text \<open>A store to the contents of a node that the running thread holds.\<close>

lemma lib_rep_write:
  assumes "lib_rep s A" and "nodes s q = Some n" and "sq_next m = sq_next n" "sq_prev m = sq_prev n"
  shows "lib_rep (s\<lparr>nodes := (nodes s)(q \<mapsto> m)\<rparr>) (A\<lparr>a_data := (a_data A)(q \<mapsto> payload m)\<rparr>)"
proof -
  have seg: "dseg ((nodes s)(q \<mapsto> m)) pv p xs r = dseg (nodes s) pv p xs r" for pv p xs r
    using assms(2-4) by (induction xs arbitrary: pv p) (auto split: option.splits)
  have "q \<in> dom (nodes s)" using assms(2) by auto
  then have "dom ((nodes s)(q \<mapsto> m)) = dom (nodes s)" by auto
  then show ?thesis
    using assms(1) by (simp add: lib_rep_def dlist_def seg separated_def parts_def)
qed

subsection \<open>The three lists keep the contract of an owned list\<close>

abbreviation pool_rep :: "stream_lib \<Rightarrow> addr list \<Rightarrow> alib \<Rightarrow> bool" where
  "pool_rep s xs g \<equiv> lib_rep s (g\<lparr>a_pool := xs\<rparr>)"

abbreviation recv_rep :: "stream_lib \<Rightarrow> addr list \<Rightarrow> alib \<Rightarrow> bool" where
  "recv_rep s xs g \<equiv> lib_rep s (g\<lparr>a_recv := xs\<rparr>)"

abbreviation rel_rep :: "stream_lib \<Rightarrow> addr list \<Rightarrow> alib \<Rightarrow> bool" where
  "rel_rep s xs g \<equiv> lib_rep s (g\<lparr>a_rel := xs\<rparr>)"

abbreviation owns :: "addr \<Rightarrow> alib \<Rightarrow> bool" where
  "owns q g \<equiv> q \<in> a_owned g"

abbreviation take_over :: "addr \<Rightarrow> alib \<Rightarrow> alib" where
  "take_over q g \<equiv> g\<lparr>a_owned := insert q (a_owned g)\<rparr>"

abbreviation give_up :: "addr \<Rightarrow> alib \<Rightarrow> alib" where
  "give_up q g \<equiv> g\<lparr>a_owned := a_owned g - {q}\<rparr>"

abbreviation give_up_cleared :: "addr \<Rightarrow> alib \<Rightarrow> alib" where
  "give_up_cleared q g \<equiv> g\<lparr>a_owned := a_owned g - {q}, a_data := (a_data g)(q \<mapsto> zero_data)\<rparr>"

lemma pop_empty_same:
  "pool_rep s [] g \<Longrightarrow> pop_stream_pool s = Some (None, s)"
  "recv_rep s [] g \<Longrightarrow> pop_recv_queue s = Some (None, s)"
  "rel_rep s [] g \<Longrightarrow> pop_release_list s = Some (None, s)"
  by (simp_all add: lib_rep_def pop_stream_pool_def pop_recv_queue_def pop_release_list_def)

interpretation pool: lifo_list pool_rep pop_stream_pool take_over push_stream_pool owns give_up_cleared
proof
  fix s :: stream_lib and g :: alib and x :: addr and xs :: "addr list"
  show "pool_rep s [] g \<Longrightarrow> pop_stream_pool s = Some (None, s)" by (rule pop_empty_same)
  show "\<exists>t. pop_stream_pool s = Some (Some x, t) \<and> pool_rep t xs (take_over x g)"
    if "pool_rep s (x # xs) g"
    using pop_stream_pool_sim[OF that] by (cases g) (simp add: a_take_pool_def)
  show "\<exists>t. push_stream_pool x s = Some t \<and> pool_rep t (x # xs) (give_up_cleared x g)"
    if "pool_rep s xs g" "owns x g"
    using push_stream_pool_sim[OF that(1)] that(2) by (cases g) (simp add: a_push_pool_def)
qed

interpretation recv: fifo_list recv_rep pop_recv_queue take_over push_recv_queue owns give_up
proof
  fix s :: stream_lib and g :: alib and x y :: addr and xs :: "addr list"
  show "recv_rep s [] g \<Longrightarrow> pop_recv_queue s = Some (None, s)" by (rule pop_empty_same)
  show "\<exists>t. pop_recv_queue s = Some (Some x, t) \<and> recv_rep t xs (take_over x g)"
    if "recv_rep s (x # xs) g"
    using pop_recv_queue_sim[OF that] by (cases g) (simp add: a_take_recv_def)
  show "\<exists>t. push_recv_queue x s = Some t \<and> recv_rep t (xs @ [x]) (give_up x g)"
    if "recv_rep s xs g" "owns x g"
    using push_recv_queue_sim[OF that(1)] that(2) by (cases g) (simp add: a_push_recv_def)
  show "owns x (give_up y g)" if "owns x g" "x \<noteq> y" using that by simp
qed

interpretation rel: fifo_list rel_rep pop_release_list take_over push_release_list owns give_up
proof
  fix s :: stream_lib and g :: alib and x y :: addr and xs :: "addr list"
  show "rel_rep s [] g \<Longrightarrow> pop_release_list s = Some (None, s)" by (rule pop_empty_same)
  show "\<exists>t. pop_release_list s = Some (Some x, t) \<and> rel_rep t xs (take_over x g)"
    if "rel_rep s (x # xs) g"
    using pop_release_list_sim[OF that] by (cases g) (simp add: a_take_rel_def)
  show "\<exists>t. push_release_list x s = Some t \<and> rel_rep t (xs @ [x]) (give_up x g)"
    if "rel_rep s xs g" "owns x g"
    using push_release_list_sim[OF that(1)] that(2) by (cases g) (simp add: a_push_rel_def)
  show "owns x (give_up y g)" if "owns x g" "x \<noteq> y" using that by simp
qed

end
