(* ===== verification/StreamPool.thy ===== *)
theory StreamPool
  imports StreamLists
begin

text \<open>
  The buffer management of \<open>src/src/sample_library.c\<close> (lines 438 to 660): creation and
  destruction of the node pool, enqueueing of a received command, dequeueing by the
  stream thread, the release counters and the forced release. Each function holds one
  mutex from entry to exit (or to its wait), so it is one atomic step. Integers that the
  C functions return are \<open>int\<close>.

  \<open>malloc\<close> is a parameter: it is asked with the current heap and answers \<open>None\<close> (out of
  memory) or an address with its arbitrary old contents. That the address is not in use
  (\<open>malloc_fresh\<close>) is its documented behaviour.
\<close>

type_synonym node_malloc = "node_heap \<Rightarrow> (addr \<times> stream_queue) option"

definition malloc_fresh :: "node_malloc \<Rightarrow> bool" where
  "malloc_fresh m \<longleftrightarrow> (\<forall>h a n. m h = Some (a, n) \<longrightarrow> h a = None)"

subsection \<open>Creation and destruction of the pool\<close>

fun alloc_nodes :: "node_malloc \<Rightarrow> nat \<Rightarrow> stream_lib \<Rightarrow> (int \<times> stream_lib) option" where
  "alloc_nodes m 0 s = Some (0, s)"
| "alloc_nodes m (Suc n) s = (case m (nodes s) of
      None \<Rightarrow> Some (-1, s)
    | Some (q, junk) \<Rightarrow> do {
        s \<leftarrow> push_stream_pool q (s\<lparr>nodes := (nodes s)(q \<mapsto> junk)\<rparr>);
        alloc_nodes m n s
      })"

definition initialize_stream_pool :: "node_malloc \<Rightarrow> stream_lib \<Rightarrow> (int \<times> stream_lib) option" where
  "initialize_stream_pool m s =
    (if stream_pool s \<noteq> None then Some (-1, s)
     else if recv_queue s \<noteq> None then Some (-1, s)
     else if release_list s \<noteq> None then Some (-1, s)
     else alloc_nodes m STREAM_QUEUE_SIZE s)"

definition free_node :: "addr \<Rightarrow> stream_lib \<Rightarrow> stream_lib option" where
  "free_node q s = (case nodes s q of None \<Rightarrow> None
     | Some _ \<Rightarrow> Some (s\<lparr>nodes := (nodes s)(q := None)\<rparr>))"

definition finalize_stream_pool :: "stream_lib \<Rightarrow> (int \<times> stream_lib) option" where
  "finalize_stream_pool s =
    (if recv_queue s \<noteq> None then Some (-1, s)
     else if release_list s \<noteq> None then Some (-1, s)
     else do { s \<leftarrow> drain pop_stream_pool free_node s; Some (0, s) })"

subsection \<open>Receiving\<close>

text \<open>
  \<open>cmd\<close> is the memory at the command pointer. A copy that would run past it has no result.
  The wake-up of the stream thread (\<open>pthread_cond_signal\<close>) is the re-enabled dequeue step.
\<close>

definition enqueue_recv_command :: "byte list \<Rightarrow> u32 \<Rightarrow> stream_lib \<Rightarrow> (int \<times> stream_lib) option" where
  "enqueue_recv_command cmd len s =
    (if STREAM_COMMAND_MAX < unat len then Some (-1, s)
     else if stop_stream_thread_flag s then Some (1, s)
     else do {
       (r, s) \<leftarrow> pop_stream_pool s;
       (case r of
          None \<Rightarrow> Some (-1, s)
        | Some q \<Rightarrow>
            if length cmd < unat len then None
            else do {
              h \<leftarrow> node_set (nodes s) q (\<lambda>n. n\<lparr>sq_command :=
                     take (unat len) cmd @ drop (unat len) (sq_command n)\<rparr>);
              h \<leftarrow> node_set h q (\<lambda>n. n\<lparr>sq_length := len\<rparr>);
              s \<leftarrow> push_recv_queue q (s\<lparr>nodes := h\<rparr>);
              Some (0, s)
            })
     })"

text \<open>
  One round of the loop of \<open>dequeue_recv_command\<close>: it returns a node, returns \<open>NULL\<close>
  because the thread is to stop, or waits for the condition variable.
\<close>

datatype dequeued = Dequeued addr | Stopped | Waiting

definition dequeue_recv_command :: "stream_lib \<Rightarrow> (dequeued \<times> stream_lib) option" where
  "dequeue_recv_command s = do {
     (r, s) \<leftarrow> pop_recv_queue s;
     (case r of
        Some q \<Rightarrow> Some (Dequeued q, s)
      | None \<Rightarrow> if \<not> stop_stream_thread_flag s then Some (Waiting, s) else Some (Stopped, s))
   }"

subsection \<open>Releasing\<close>

definition store_release_command :: "addr \<Rightarrow> stream_lib \<Rightarrow> stream_lib option" where
  "store_release_command q s = do {
     h \<leftarrow> node_set (nodes s) q (\<lambda>n. n\<lparr>sq_release_counter := 1\<rparr>);
     push_release_list q (s\<lparr>nodes := h\<rparr>)
   }"

text \<open>
  The result is the C return value, the node found (\<open>*list\<close>) and the new state. The counter is an
  \<open>int\<close> of 32 bits: a word read with its sign. Counting down from the least \<open>int\<close>, which C leaves
  undefined, wraps as the subtraction of the processor does.
\<close>

definition check_release_counter :: "addr \<Rightarrow> stream_lib \<Rightarrow> (int \<times> addr option \<times> stream_lib) option" where
  "check_release_counter c s = do {
     l \<leftarrow> search_release_list c s;
     (case l of
        None \<Rightarrow> Some (-1, None, s)
      | Some a \<Rightarrow> do {
          h \<leftarrow> node_set (nodes s) a (\<lambda>n. n\<lparr>sq_release_counter := sq_release_counter n - 1\<rparr>);
          n \<leftarrow> h a;
          Some (if sint (sq_release_counter n) > 0 then sint (sq_release_counter n) else 0, Some a, s\<lparr>nodes := h\<rparr>)
        })
   }"

definition remove_release_command :: "addr \<Rightarrow> stream_lib \<Rightarrow> stream_lib option" where
  "remove_release_command a s = do {
     s \<leftarrow> remove_release_list (Some a) s;
     push_stream_pool a s
   }"

definition force_remove_release_command :: "stream_lib \<Rightarrow> stream_lib option" where
  "force_remove_release_command s = drain pop_release_list push_stream_pool s"

text \<open>
  \<open>wait_release_list_empty\<close> waits on the condition variable while the list is not empty.
  What each \<open>pthread_cond_timedwait\<close> returns and the state it finds when it has the mutex
  again are given by the list \<open>ws\<close>; the result is \<open>None\<close> while the wait goes on.
\<close>

fun wait_release_list_empty :: "(int \<times> stream_lib) list \<Rightarrow> stream_lib \<Rightarrow> (int \<times> stream_lib) option" where
  "wait_release_list_empty [] s = (if release_list s \<noteq> None then None else Some (0, s))"
| "wait_release_list_empty ((ret, t) # ws) s =
     (if release_list s \<noteq> None then
        (if ret \<noteq> 0 then Some (ret, t) else wait_release_list_empty ws t)
      else Some (0, s))"

definition set_release_count :: "addr \<Rightarrow> u32 \<Rightarrow> stream_lib \<Rightarrow> (int \<times> stream_lib) option" where
  "set_release_count c count s = do {
     l \<leftarrow> search_release_list c s;
     (case l of
        None \<Rightarrow> Some (-1, s)
      | Some a \<Rightarrow> do {
          h \<leftarrow> node_set (nodes s) a (\<lambda>n. n\<lparr>sq_release_counter := count\<rparr>);
          Some (0, s\<lparr>nodes := h\<rparr>)
        })
   }"

subsection \<open>Abstract counterparts\<close>

text \<open>
  Nodes in the pool are cleared and every command buffer has its full size; both are
  invariants of the functions above.
\<close>

definition clean :: "alib \<Rightarrow> bool" where
  "clean A \<longleftrightarrow> (\<forall>q\<in>set (a_pool A). a_data A q = Some zero_data) \<and>
     (\<forall>q c l k. a_data A q = Some (c, l, k) \<longrightarrow> length c = STREAM_COMMAND_MAX \<and> unat l \<le> STREAM_COMMAND_MAX)"

definition a_write :: "addr \<Rightarrow> node_data \<Rightarrow> alib \<Rightarrow> alib" where
  [model_simps]: "a_write q d A = A\<lparr>a_data := (a_data A)(q \<mapsto> d)\<rparr>"

text \<open>The command buffer of a node that carries the command, and the contents of that node.\<close>

definition command_buffer :: "byte list \<Rightarrow> u32 \<Rightarrow> byte list" where
  "command_buffer cmd len = take (unat len) cmd @ replicate (STREAM_COMMAND_MAX - unat len) 0"

definition command_image :: "byte list \<Rightarrow> u32 \<Rightarrow> node_data" where
  "command_image cmd len = (command_buffer cmd len, len, 0)"

definition a_enqueue :: "byte list \<Rightarrow> u32 \<Rightarrow> alib \<Rightarrow> int \<times> alib" where
  "a_enqueue cmd len A =
    (if STREAM_COMMAND_MAX < unat len then (-1, A)
     else if a_stop A then (1, A)
     else (case a_pool A of [] \<Rightarrow> (-1, A)
       | q # qs \<Rightarrow> (0, A\<lparr>a_pool := qs, a_recv := a_recv A @ [q],
                        a_data := (a_data A)(q \<mapsto> command_image cmd len)\<rparr>)))"

definition with_counter :: "u32 \<Rightarrow> node_data \<Rightarrow> node_data" where
  "with_counter k d = (fst d, fst (snd d), k)"

definition counter_of :: "alib \<Rightarrow> addr \<Rightarrow> u32" where
  "counter_of A a = (case a_data A a of Some (_, _, k) \<Rightarrow> k | None \<Rightarrow> 0)"

definition a_set_counter :: "addr \<Rightarrow> u32 \<Rightarrow> alib \<Rightarrow> alib" where
  "a_set_counter a k A = A\<lparr>a_data := (a_data A)(a := map_option (with_counter k) (a_data A a))\<rparr>"

text \<open>The command buffer of a node, and those of the nodes in the receive queue.\<close>

definition message_at :: "alib \<Rightarrow> addr \<Rightarrow> byte list" where
  "message_at A q = (case a_data A q of Some (c, _) \<Rightarrow> c | None \<Rightarrow> [])"

definition queued :: "alib \<Rightarrow> byte list list" where
  "queued A = map (message_at A) (a_recv A)"

lemma payload_cases: "payload n = (c, l, k) \<longleftrightarrow> sq_command n = c \<and> sq_length n = l \<and> sq_release_counter n = k"
  by (auto simp: payload_def)

lemma node_set_write:
  assumes "lib_rep s A" and "q \<in> parts A"
    and f: "\<And>n. sq_next (f n) = sq_next n" "\<And>n. sq_prev (f n) = sq_prev n"
  shows "\<exists>h n. nodes s q = Some n \<and> node_set (nodes s) q f = Some h \<and> h q = Some (f n) \<and>
    a_data A q = Some (payload n) \<and> lib_rep (s\<lparr>nodes := h\<rparr>) (a_write q (payload (f n)) A)"
proof -
  from lib_rep_alive[OF assms(1,2)] obtain n where n: "nodes s q = Some n" by blast
  have "lib_rep (s\<lparr>nodes := (nodes s)(q \<mapsto> f n)\<rparr>) (a_write q (payload (f n)) A)"
    unfolding a_write_def by (rule lib_rep_write[OF assms(1) n]) (simp_all add: f)
  with n show ?thesis using lib_rep_data[OF assms(1) n] by (auto simp: node_set_def)
qed

subsection \<open>Simulation of the operations\<close>

lemma a_write_simps [simp]:
  "parts (a_write q d A) = parts A" "a_owned (a_write q d A) = a_owned A"
  "a_pool (a_write q d A) = a_pool A" "a_recv (a_write q d A) = a_recv A"
  "a_rel (a_write q d A) = a_rel A" "a_stop (a_write q d A) = a_stop A"
  "a_write q d (a_write q e A) = a_write q d A"
  by (simp_all add: a_write_def parts_def)

lemma a_set_counter_simps [simp]:
  "parts (a_set_counter q k A) = parts A" "a_owned (a_set_counter q k A) = a_owned A"
  "a_pool (a_set_counter q k A) = a_pool A" "a_recv (a_set_counter q k A) = a_recv A"
  "a_rel (a_set_counter q k A) = a_rel A" "a_stop (a_set_counter q k A) = a_stop A"
  by (simp_all add: a_set_counter_def parts_def)

lemma pop_empty_lists:
  "lib_rep s A \<Longrightarrow> a_pool A = [] \<Longrightarrow> pop_stream_pool s = Some (None, s)"
  "lib_rep s A \<Longrightarrow> a_recv A = [] \<Longrightarrow> pop_recv_queue s = Some (None, s)"
  using pop_empty_same[of s A] by (cases A; simp)+

lemma enqueue_sim:
  assumes A: "lib_rep s A" and c: "clean A" and len: "unat len \<le> length cmd"
  shows "\<exists>s'. enqueue_recv_command cmd len s = Some (fst (a_enqueue cmd len A), s') \<and>
    lib_rep s' (snd (a_enqueue cmd len A))"
proof (cases "STREAM_COMMAND_MAX < unat len \<or> a_stop A \<or> a_pool A = []")
  case True
  with A pop_empty_lists(1)[OF A] lib_rep_control(1)[OF A] show ?thesis
    by (auto simp: enqueue_recv_command_def a_enqueue_def)
next
  case False
  then obtain q qs where q: "a_pool A = q # qs" by (cases "a_pool A") auto
  from pop_stream_pool_sim[OF A] q obtain s1 where
    s1: "pop_stream_pool s = Some (Some q, s1)" "lib_rep s1 (a_take_pool A)" by auto
  have qp: "q \<in> parts (a_take_pool A)" using q by (simp add: parts_def a_take_pool_def)
  have qd: "a_data (a_take_pool A) q = Some zero_data" using c q by (simp add: clean_def a_take_pool_def)
  let ?f = "\<lambda>n. n\<lparr>sq_command := take (unat len) cmd @ drop (unat len) (sq_command n)\<rparr>"
  let ?g = "\<lambda>n. n\<lparr>sq_length := len\<rparr>"
  from node_set_write[OF s1(2) qp, of ?f] obtain h1 n where
    h1: "node_set (nodes s1) q ?f = Some h1" "h1 q = Some (?f n)" and n: "payload n = zero_data"
    and s2: "lib_rep (s1\<lparr>nodes := h1\<rparr>) (a_write q (payload (?f n)) (a_take_pool A))"
    using qd by auto
  have qp2: "q \<in> parts (a_write q (payload (?f n)) (a_take_pool A))" using qp by simp
  from node_set_write[OF s2 qp2, of ?g] h1(2) obtain h2 where
    h2: "node_set h1 q ?g = Some h2"
    and s3: "lib_rep (s1\<lparr>nodes := h2\<rparr>) (a_write q (payload (?g (?f n))) (a_take_pool A))"
    by auto
  have img: "payload (?g (?f n)) = command_image cmd len"
    using n by (simp add: payload_def command_image_def command_buffer_def)
  from push_recv_queue_sim[OF s3, of q] q obtain s4 where
    s4: "push_recv_queue q (s1\<lparr>nodes := h2\<rparr>) = Some s4"
      "lib_rep s4 (a_push_recv q (a_write q (command_image cmd len) (a_take_pool A)))"
    unfolding img by (auto simp: a_take_pool_def a_write_def)
  have "q \<notin> a_owned A" using A q by (auto simp: lib_rep_def separated_def)
  then have "a_push_recv q (a_write q (command_image cmd len) (a_take_pool A)) = snd (a_enqueue cmd len A)"
    using q False by (cases A) (simp add: a_enqueue_def model_simps)
  then show ?thesis
    using False s1(1) h1(1) h2 s4 q len lib_rep_control(1)[OF A]
    by (simp add: enqueue_recv_command_def a_enqueue_def)
qed

lemma dequeue_sim:
  assumes A: "lib_rep s A"
  shows "\<exists>s'. dequeue_recv_command s = Some (case a_recv A of q # _ \<Rightarrow> Dequeued q
      | [] \<Rightarrow> if a_stop A then Stopped else Waiting, s') \<and> lib_rep s' (a_take_recv A)"
proof -
  from pop_recv_queue_sim[OF A] obtain s' where
    s': "pop_recv_queue s = Some (head_of (a_recv A), s')" "lib_rep s' (a_take_recv A)" by blast
  from lib_rep_control(1)[OF s'(2)] have "stop_stream_thread_flag s' = a_stop A"
    by (simp add: a_take_recv_def)
  with s' show ?thesis by (cases "a_recv A") (simp_all add: dequeue_recv_command_def)
qed

lemma counter_write:
  assumes "payload n = d" and "a_data A q = Some d"
  shows "a_write q (payload (n\<lparr>sq_release_counter := k\<rparr>)) A = a_set_counter q k A"
  using assms by (auto simp: a_write_def a_set_counter_def payload_def with_counter_def)

lemma counter_set_sim:
  assumes A: "lib_rep s A" and q: "q \<in> parts A"
  shows "\<exists>h n. nodes s q = Some n \<and> sq_release_counter n = counter_of A q \<and>
    node_set (nodes s) q (\<lambda>n. n\<lparr>sq_release_counter := g (sq_release_counter n)\<rparr>) = Some h \<and>
    h q = Some (n\<lparr>sq_release_counter := g (counter_of A q)\<rparr>) \<and>
    lib_rep (s\<lparr>nodes := h\<rparr>) (a_set_counter q (g (counter_of A q)) A)"
proof -
  from node_set_write[OF A q, of "\<lambda>n. n\<lparr>sq_release_counter := g (sq_release_counter n)\<rparr>"]
  obtain h n where hn: "nodes s q = Some n" "a_data A q = Some (payload n)"
    "node_set (nodes s) q (\<lambda>n. n\<lparr>sq_release_counter := g (sq_release_counter n)\<rparr>) = Some h"
    "h q = Some (n\<lparr>sq_release_counter := g (sq_release_counter n)\<rparr>)"
    "lib_rep (s\<lparr>nodes := h\<rparr>) (a_write q (payload (n\<lparr>sq_release_counter := g (sq_release_counter n)\<rparr>)) A)"
    by auto
  have "sq_release_counter n = counter_of A q"
    using hn(2) by (simp add: counter_of_def payload_def)
  with hn counter_write[OF refl hn(2)] show ?thesis by simp
qed

lemma store_sim:
  assumes A: "lib_rep s A" and q: "q \<in> a_owned A"
  shows "\<exists>s'. store_release_command q s = Some s' \<and> lib_rep s' (a_push_rel q (a_set_counter q 1 A))"
proof -
  have "q \<in> parts A" using q by (simp add: parts_def)
  from counter_set_sim[OF A this, of "\<lambda>_. 1"] obtain h where
    h: "node_set (nodes s) q (\<lambda>n. n\<lparr>sq_release_counter := 1\<rparr>) = Some h"
      "lib_rep (s\<lparr>nodes := h\<rparr>) (a_set_counter q 1 A)" by auto
  with push_release_list_sim[OF h(2), of q] q show ?thesis
    by (simp add: store_release_command_def)
qed

lemma check_sim:
  assumes A: "lib_rep s A"
  shows "\<exists>s'. check_release_counter c s =
      Some (if c \<in> set (a_rel A) then max 0 (sint (counter_of A c - 1)) else -1,
            if c \<in> set (a_rel A) then Some c else None, s') \<and>
    lib_rep s' (if c \<in> set (a_rel A) then a_set_counter c (counter_of A c - 1) A else A)"
proof (cases "c \<in> set (a_rel A)")
  case True
  then have "c \<in> parts A" by (simp add: parts_def)
  from counter_set_sim[OF A this, of "\<lambda>k. k - 1"] search_release_list_sim[OF A, of c] True
  show ?thesis by (auto simp: check_release_counter_def max_def)
next
  case False
  with A search_release_list_sim[OF A, of c] show ?thesis
    by (auto simp: check_release_counter_def)
qed

lemma set_count_sim:
  assumes A: "lib_rep s A"
  shows "\<exists>s'. set_release_count c k s = Some (if c \<in> set (a_rel A) then 0 else -1, s') \<and>
    lib_rep s' (if c \<in> set (a_rel A) then a_set_counter c k A else A)"
proof (cases "c \<in> set (a_rel A)")
  case True
  then have "c \<in> parts A" by (simp add: parts_def)
  from counter_set_sim[OF A this, of "\<lambda>_. k"] search_release_list_sim[OF A, of c] True
  show ?thesis by (auto simp: set_release_count_def)
next
  case False
  with A search_release_list_sim[OF A, of c] show ?thesis
    by (auto simp: set_release_count_def)
qed

definition a_recycle :: "addr \<Rightarrow> alib \<Rightarrow> alib" where
  "a_recycle q A = A\<lparr>a_pool := q # a_pool A, a_data := (a_data A)(q \<mapsto> zero_data)\<rparr>"

lemma remove_sim:
  assumes A: "lib_rep s A" and q: "q \<in> set (a_rel A)"
  shows "\<exists>s'. remove_release_command q s = Some s' \<and>
    lib_rep s' (a_recycle q (A\<lparr>a_rel := remove1 q (a_rel A)\<rparr>))"
proof -
  from remove_release_list_sim[OF A q] obtain s1 where
    s1: "remove_release_list (Some q) s = Some s1" "lib_rep s1 (a_remove_rel q A)" by blast
  from push_stream_pool_sim[OF s1(2), of q] obtain s2 where
    s2: "push_stream_pool q s1 = Some s2" "lib_rep s2 (a_push_pool q (a_remove_rel q A))"
    by (auto simp: a_remove_rel_def)
  have "q \<notin> a_owned A" using A q by (auto simp: lib_rep_def separated_def)
  then have "a_push_pool q (a_remove_rel q A) = a_recycle q (A\<lparr>a_rel := remove1 q (a_rel A)\<rparr>)"
    by (cases A) (simp add: model_simps a_recycle_def)
  with s1 s2 show ?thesis by (simp add: remove_release_command_def)
qed

text \<open>The two draining loops, from the contract of the lists they drain.\<close>

lemma force_remove_sim:
  assumes A: "lib_rep s A"
  shows "\<exists>s'. force_remove_release_command s = Some s' \<and>
    lib_rep s' ((fold (\<lambda>q g. a_push_pool q (take_over q g)) (a_rel A) A)\<lparr>a_rel := []\<rparr>)"
  unfolding force_remove_release_command_def
proof (rule rel.drain_ends)
  show "rel_rep s (a_rel A) A" using A by simp
  show "\<exists>t. push_stream_pool q u = Some t \<and> rel_rep t xs (a_push_pool q (take_over q g))"
    if "rel_rep u xs (take_over q g)" for u q xs g
    using push_stream_pool_sim[OF that, of q] by (cases g) (simp add: model_simps)
qed

definition a_free :: "addr \<Rightarrow> alib \<Rightarrow> alib" where
  "a_free q g = g\<lparr>a_owned := a_owned g - {q}, a_data := (a_data g)(q := None)\<rparr>"

lemma free_sim:
  assumes "pool_rep s xs (take_over q g)"
  shows "\<exists>t. free_node q s = Some t \<and> pool_rep t xs (a_free q g)"
proof -
  from assms have nin: "q \<notin> set xs" "q \<notin> set (a_recv g)" "q \<notin> set (a_rel g)"
    by (auto simp: lib_rep_def separated_def)
  from lib_rep_alive[OF assms, of q] obtain n where n: "nodes s q = Some n"
    by (auto simp: parts_def)
  have "dlist ((nodes s)(q := None)) p ys = dlist (nodes s) p ys" if "q \<notin> set ys" for p ys
    using that by (auto simp: dlist_def)
  moreover have "payloads ((nodes s)(q := None)) = (payloads (nodes s))(q := None)"
    by (auto simp: payloads_def)
  ultimately show ?thesis
    using assms nin n
    by (auto simp: free_node_def a_free_def lib_rep_def separated_def parts_def)
qed

lemma finalize_sim:
  assumes A: "lib_rep s A"
  shows "\<exists>s'. finalize_stream_pool s = Some (if a_recv A = [] \<and> a_rel A = [] then 0 else -1, s') \<and>
    (if a_recv A = [] \<and> a_rel A = [] then pool_rep s' [] (fold a_free (a_pool A) A) else s' = s)"
proof (cases "a_recv A = [] \<and> a_rel A = []")
  case True
  have "\<exists>s'. drain pop_stream_pool free_node s = Some s' \<and> pool_rep s' [] (fold a_free (a_pool A) A)"
    by (rule pool.drain_ends) (use A free_sim in auto)
  with True lib_rep_heads[OF A] show ?thesis
    by (auto simp: finalize_stream_pool_def)
next
  case False
  with lib_rep_heads[OF A] show ?thesis
    by (auto simp: finalize_stream_pool_def)
qed

lemma fold_a_free [simp]:
  "a_recv (fold a_free qs A) = a_recv A" "a_rel (fold a_free qs A) = a_rel A"
  "a_owned (fold a_free qs A) = a_owned A - set qs"
  by (induction qs arbitrary: A) (auto simp: a_free_def)

lemma lib_rep_alloc:
  assumes A: "lib_rep s A" and q: "nodes s q = None"
  shows "lib_rep (s\<lparr>nodes := (nodes s)(q \<mapsto> n)\<rparr>) (take_over q (a_write q (payload n) A))"
proof -
  have nin: "q \<notin> parts A" using A q by (metis domIff lib_rep_def)
  have "dlist ((nodes s)(q \<mapsto> n)) p ys = dlist (nodes s) p ys" if "set ys \<subseteq> parts A" for p ys
  proof -
    from that nin have "q \<notin> set ys" by blast
    then show ?thesis by (simp add: dlist_def)
  qed
  then show ?thesis
    using A nin by (auto simp: lib_rep_def separated_def parts_def a_write_def)
qed

subsection \<open>Creation of the pool\<close>

lemma max_command: "STREAM_COMMAND_MAX = 256"
  by (simp add: STREAM_COMMAND_MAX_def)

lemma clean_zero [simp]: "length (fst zero_data) = STREAM_COMMAND_MAX"
  by simp

lemma clean_alloc:
  "clean A \<Longrightarrow> clean (a_push_pool q (take_over q (a_write q d A)))"
  by (auto simp: clean_def a_push_pool_def a_write_def max_command)

lemma alloc_nodes_sim:
  assumes m: "malloc_fresh m"
  shows "lib_rep s A \<Longrightarrow> clean A \<Longrightarrow> \<exists>r s' A' k. alloc_nodes m n s = Some (r, s') \<and>
    lib_rep s' A' \<and> clean A' \<and> a_recv A' = a_recv A \<and> a_rel A' = a_rel A \<and>
    a_owned A' = a_owned A \<and> a_stop A' = a_stop A \<and> a_thread A' = a_thread A \<and>
    length (a_pool A') = length (a_pool A) + k \<and>
    (r = 0 \<and> k = n \<or> r = -1 \<and> k < n \<and> m (nodes s') = None)"
proof (induction n arbitrary: s A)
  case 0
  then show ?case by auto
next
  case (Suc n)
  show ?case
  proof (cases "m (nodes s)")
    case None
    with Suc.prems show ?thesis by auto
  next
    case (Some qn)
    then obtain q junk where q: "m (nodes s) = Some (q, junk)" by (cases qn) auto
    with m have free: "nodes s q = None" by (auto simp: malloc_fresh_def)
    from lib_rep_alloc[OF Suc.prems(1) free, of junk] obtain s1 where
      s1: "push_stream_pool q (s\<lparr>nodes := (nodes s)(q \<mapsto> junk)\<rparr>) = Some s1"
        "lib_rep s1 (a_push_pool q (take_over q (a_write q (payload junk) A)))"
      using push_stream_pool_sim[of _ "take_over q (a_write q (payload junk) A)" q] by auto
    have own: "q \<notin> a_owned A" using lib_rep_alive[OF Suc.prems(1), of q] free by (auto simp: parts_def)
    from Suc.IH[OF s1(2) clean_alloc[OF Suc.prems(2)]] obtain r s' A' k where
      ih: "alloc_nodes m n s1 = Some (r, s')" "lib_rep s' A'" "clean A'"
      "a_recv A' = a_recv A" "a_rel A' = a_rel A" "a_owned A' = a_owned A" "a_stop A' = a_stop A"
      "a_thread A' = a_thread A" "length (a_pool A') = length (a_pool A) + Suc k"
      "r = 0 \<and> k = n \<or> r = -1 \<and> k < n \<and> m (nodes s') = None"
      using own by (auto simp: a_push_pool_def a_write_def)
    then show ?thesis using q s1(1)
      by (intro exI[of _ r] exI[of _ s'] exI[of _ A'] exI[of _ "Suc k"]) auto
  qed
qed

text \<open>The state of the library before its first use: static storage, all zero.\<close>

definition fresh_lib :: stream_lib where
  "fresh_lib = \<lparr>nodes = Map.empty, stream_pool = None, recv_queue = None, release_list = None,
     stop_stream_thread_flag = False, stream_thread = 0\<rparr>"

definition fresh_alib :: alib where
  "fresh_alib = \<lparr>a_pool = [], a_recv = [], a_rel = [], a_owned = {}, a_data = Map.empty,
     a_stop = False, a_thread = 0\<rparr>"

lemma fresh_rep: "lib_rep fresh_lib fresh_alib" "clean fresh_alib"
  by (auto simp: lib_rep_def fresh_lib_def fresh_alib_def separated_def parts_def payloads_def clean_def)

lemma initialize_sim:
  assumes m: "malloc_fresh m" and A: "lib_rep s A" "clean A"
    and empty: "a_pool A = []" "a_recv A = []" "a_rel A = []"
  shows "\<exists>r s' A'. initialize_stream_pool m s = Some (r, s') \<and> lib_rep s' A' \<and> clean A' \<and>
    a_recv A' = [] \<and> a_rel A' = [] \<and> a_owned A' = a_owned A \<and> a_stop A' = a_stop A \<and>
    a_thread A' = a_thread A \<and>
    (r = 0 \<and> length (a_pool A') = STREAM_QUEUE_SIZE \<or>
     r = -1 \<and> length (a_pool A') < STREAM_QUEUE_SIZE \<and> m (nodes s') = None)"
  using alloc_nodes_sim[OF m A, of STREAM_QUEUE_SIZE] empty lib_rep_heads[OF A(1)]
  by (auto simp: initialize_stream_pool_def)

subsection \<open>What the operations keep\<close>

lemma clean_enqueue: "clean A \<Longrightarrow> separated A \<Longrightarrow> unat len \<le> length cmd \<Longrightarrow> clean (snd (a_enqueue cmd len A))"
  by (auto simp: clean_def separated_def a_enqueue_def command_image_def command_buffer_def max_command split: list.splits)

lemma clean_take_recv: "clean A \<Longrightarrow> clean (a_take_recv A)"
  by (simp add: clean_def a_take_recv_def)

lemma clean_push_rel: "clean A \<Longrightarrow> clean (a_push_rel q A)"
  by (simp add: clean_def a_push_rel_def)

lemma clean_set_counter:
  assumes "clean A" and "q \<notin> set (a_pool A)"
  shows "clean (a_set_counter q k A)"
  using assms by (fastforce simp: clean_def a_set_counter_def with_counter_def)

lemma clean_recycle: "clean A \<Longrightarrow> clean (a_recycle q (A\<lparr>a_rel := xs\<rparr>))"
  by (auto simp: clean_def a_recycle_def max_command)

lemmas clean_ops = clean_enqueue clean_take_recv clean_push_rel clean_set_counter clean_recycle

text \<open>How the operations change the messages in the queue.\<close>

lemma message_image:
  "a_data A q = Some (command_image cmd len) \<Longrightarrow> message_at A q = command_buffer cmd len"
  by (simp add: message_at_def command_image_def)

lemma queued_cong: "a_recv B = a_recv A \<Longrightarrow> \<forall>q\<in>set (a_recv A). a_data B q = a_data A q \<Longrightarrow> queued B = queued A"
  by (simp add: queued_def message_at_def)

lemma queued_enqueue:
  assumes "separated A"
  shows "queued (snd (a_enqueue cmd len A)) =
    queued A @ (if fst (a_enqueue cmd len A) = 0 then [command_buffer cmd len] else [])"
  using assms by (auto simp: a_enqueue_def queued_def message_at_def command_image_def separated_def
      split: list.splits)

lemma message_set_counter [simp]: "message_at (a_set_counter q k A) p = message_at A p"
  by (auto simp: message_at_def a_set_counter_def with_counter_def split: option.splits)

lemma queued_set_counter [simp]: "queued (a_set_counter q k A) = queued A"
  by (simp add: queued_def cong: map_cong)

end
