(* ===== verification/StreamMessage.thy ===== *)
theory StreamMessage
  imports StreamPool
begin

text \<open>
  The messages between the camera processor and the library (\<open>src/include/cif_stream.h\<close>)
  and the two functions of \<open>src/src/sample_library.c\<close> that interpret them: \<open>recv_stream\<close>
  (lines 99 to 146) hands a command to the callback of its stream, \<open>release_stream\<close>
  (lines 148 to 197) answers a command with a release message. A command is the memory at
  its pointer; a read or write past the end of that memory has no result.
\<close>

subsection \<open>Messages in memory\<close>

text \<open>
  The members that \<open>cif_stream_send\<close> and \<open>cif_stream_meta_send\<close> have in common, at the same
  offsets: every one is an \<open>unsigned long\<close> of four bytes.
\<close>

datatype send_field = MagicCode | Format_Version | Command | Sub_Command | stype | sformat
  | stream_id | stream_end_flg | area_index | sample_size | sample_address

fun word_index :: "send_field \<Rightarrow> nat" where
  "word_index MagicCode = 0"
| "word_index Format_Version = 1"
| "word_index Command = 2"
| "word_index Sub_Command = 3"
| "word_index stype = 4"
| "word_index sformat = 5"
| "word_index stream_id = 6"
| "word_index stream_end_flg = 7"
| "word_index area_index = 8"
| "word_index sample_size = 9"
| "word_index sample_address = 10"

definition load :: "send_field \<Rightarrow> byte list \<Rightarrow> u32 option" where
  "load f m = (if 4 * word_index f + 4 \<le> length m
     then Some (le_word32 (window (4 * word_index f) 4 m)) else None)"

definition store :: "send_field \<Rightarrow> u32 \<Rightarrow> byte list \<Rightarrow> byte list option" where
  "store f w m = (if 4 * word_index f + 4 \<le> length m
     then Some (take (4 * word_index f) m @ le_bytes32 w @ drop (4 * word_index f + 4) m) else None)"

lemma word_index_bound: "word_index f \<le> 10"
  by (cases f) auto

lemma word_index_inj: "word_index f = word_index g \<longleftrightarrow> f = g"
  by (cases f; cases g) auto

lemma load_some: "44 \<le> length m \<Longrightarrow> \<exists>w. load f m = Some w"
  using word_index_bound[of f] by (auto simp: load_def)

lemma store_some: "44 \<le> length m \<Longrightarrow> \<exists>m'. store f w m = Some m'"
  using word_index_bound[of f] by (auto simp: store_def)

lemma length_store: "store f w m = Some m' \<Longrightarrow> length m' = length m"
  by (auto simp: store_def split: if_splits)

lemma load_store_same: "store f w m = Some m' \<Longrightarrow> load f m' = Some w"
  by (auto simp: store_def load_def window_def split: if_splits)

lemma load_store_other:
  assumes s: "store f w m = Some m'" and "f \<noteq> g"
  shows "load g m' = load g m"
proof -
  have l: "4 * word_index f + 4 \<le> length m" using s by (simp add: store_def split: if_splits)
  have m': "m' = take (4 * word_index f) m @ le_bytes32 w @ drop (4 * word_index f + 4) m"
    using s l by (simp add: store_def)
  have "window (4 * word_index g) 4 m' = window (4 * word_index g) 4 m" if g: "4 * word_index g + 4 \<le> length m"
  proof (rule nth_equalityI)
    show "length (window (4 * word_index g) 4 m') = length (window (4 * word_index g) 4 m)"
      using g length_store[OF s] by simp
    fix i assume "i < length (window (4 * word_index g) 4 m')"
    then have i: "i < 4" by (simp add: window_def)
    have "word_index g < word_index f \<or> word_index f < word_index g"
      using assms(2) word_index_inj[of f g] by linarith
    then show "window (4 * word_index g) 4 m' ! i = window (4 * word_index g) 4 m ! i"
      using i l g by (auto simp: window_def m' nth_append)
  qed
  then show ?thesis using length_store[OF s] by (simp add: load_def)
qed

subsection \<open>Receiving\<close>

datatype stream_kind = Video | Audio | Raw | Yuv | Jpeg | Meta

text \<open>Which callback of \<open>struct cb_main_func\<close> a sub-command selects.\<close>

definition kind_of :: "u32 \<Rightarrow> stream_kind option" where
  "kind_of sub =
    (if sub = 0x100 then Some Video
     else if sub = 0x200 then Some Audio
     else if sub = 0x300 then Some Raw
     else if sub = 0x400 then Some Yuv
     else if sub = 0x500 then Some Jpeg
     else if sub = 0x10000 then Some Meta
     else None)"

text \<open>
  What the library does outside itself: it calls the callback of a stream with the command
  as it is in memory then, or sends a message on the channel it answers on.
\<close>

datatype event = Callback stream_kind "byte list" | Send "byte list"

definition STREAM_MAGIC :: u32 where "STREAM_MAGIC = 0x9999EEEE"

text \<open>
  \<open>phys\<close> is \<open>phys_addr_on\<close>, \<open>p2v\<close> the driver's \<open>FJ_MM_phys_to_virt\<close>. The result is what
  happens outside and the command memory afterwards.
\<close>

definition CONV_SAMPLE_ADDRESS :: "bool \<Rightarrow> (u32 \<Rightarrow> u32) \<Rightarrow> byte list \<Rightarrow> byte list option" where
  "CONV_SAMPLE_ADDRESS phys p2v m = do {
     a \<leftarrow> load sample_address m;
     store sample_address (if \<not> phys then p2v a else a) m
   }"

definition recv_stream :: "bool \<Rightarrow> (u32 \<Rightarrow> u32) \<Rightarrow> byte list \<Rightarrow> (event list \<times> byte list) option" where
  "recv_stream phys p2v m = do {
     magic \<leftarrow> load MagicCode m;
     (if magic = STREAM_MAGIC then do {
        sub \<leftarrow> load Sub_Command m;
        (case kind_of sub of
           None \<Rightarrow> Some ([], m)
         | Some k \<Rightarrow> do {
             m \<leftarrow> CONV_SAMPLE_ADDRESS phys p2v m;
             Some ([Callback k m], m)
           })
      } else Some ([], m))
   }"

subsection \<open>Releasing\<close>

text \<open>
  The release message is the union \<open>cif_release\<close>, nine words for either variant. Its
  initializer sets the first three and clears the others.
\<close>

record cif_stream_release =
  r_MagicCode :: u32
  r_Format_Version :: u32
  r_Command :: u32
  r_Sub_Command :: u32
  r_stype :: u32
  r_sformat :: u32
  r_stream_id :: u32
  r_stream_end_flg :: u32
  r_area_index :: u32

record cif_stream_release_meta =
  m_MagicCode :: u32
  m_Format_Version :: u32
  m_Command :: u32
  m_Sub_Command :: u32
  m_stype :: u32
  m_stream_id :: u32
  m_sample_address :: u32

definition stream_release_words :: "cif_stream_release \<Rightarrow> u32 list" where
  "stream_release_words r = [r_MagicCode r, r_Format_Version r, r_Command r, r_Sub_Command r,
     r_stype r, r_sformat r, r_stream_id r, r_stream_end_flg r, r_area_index r]"

definition meta_release_words :: "cif_stream_release_meta \<Rightarrow> u32 list" where
  "meta_release_words r = [m_MagicCode r, m_Format_Version r, m_Command r, m_Sub_Command r,
     m_stype r, m_stream_id r, m_sample_address r]"

definition RELEASE_WORDS :: nat where "RELEASE_WORDS = 9"

definition release_image :: "u32 list \<Rightarrow> byte list" where
  "release_image ws = concat (map le_bytes32 (ws @ replicate (RELEASE_WORDS - length ws) 0))"

text \<open>\<open>send\<close> is the result of \<open>FJ_IPCU_Send\<close> on the message.\<close>

definition release_stream :: "(byte list \<Rightarrow> int) \<Rightarrow> byte list \<Rightarrow> (int \<times> event list) option" where
  "release_stream send m = do {
     magic \<leftarrow> load MagicCode m;
     (if magic = STREAM_MAGIC then do {
        sub \<leftarrow> load Sub_Command m;
        ws \<leftarrow> (if sub \<noteq> 0x00010000 then do {
            st \<leftarrow> load stype m;
            sf \<leftarrow> load sformat m;
            si \<leftarrow> load stream_id m;
            se \<leftarrow> load stream_end_flg m;
            ai \<leftarrow> load area_index m;
            Some (stream_release_words \<lparr>r_MagicCode = 0xAAAAFFFF, r_Format_Version = 0x00000001,
              r_Command = 0x00010100, r_Sub_Command = sub, r_stype = st, r_sformat = sf,
              r_stream_id = si, r_stream_end_flg = se, r_area_index = ai\<rparr>)
          } else do {
            st \<leftarrow> load stype m;
            si \<leftarrow> load stream_id m;
            sa \<leftarrow> load sample_address m;
            Some (meta_release_words \<lparr>m_MagicCode = 0xAAAAFFFF, m_Format_Version = 0x00000001,
              m_Command = 0x00010100, m_Sub_Command = 0x00010000, m_stype = st,
              m_stream_id = si, m_sample_address = sa\<rparr>)
          });
        let msg = release_image ws;
        Some (send msg, [Send msg])
      } else Some (-1, []))
   }"

subsection \<open>What the two functions need and keep\<close>

lemma recv_stream_some:
  assumes "44 \<le> length m"
  shows "\<exists>es m'. recv_stream phys p2v m = Some (es, m') \<and> length m' = length m"
proof -
  obtain g s a where l: "load MagicCode m = Some g" "load Sub_Command m = Some s" "load sample_address m = Some a"
    using load_some[OF assms] by metis
  obtain m' where m': "store sample_address (if \<not> phys then p2v a else a) m = Some m'"
    using store_some[OF assms] by blast
  from m' have "length m' = length m" by (rule length_store)
  then show ?thesis
    using l m' by (auto simp: recv_stream_def CONV_SAMPLE_ADDRESS_def split: option.split)
qed

lemma recv_stream_keeps:
  "recv_stream phys p2v m = Some (es, m') \<Longrightarrow> f \<noteq> sample_address \<Longrightarrow> load f m' = load f m"
  by (auto simp: recv_stream_def CONV_SAMPLE_ADDRESS_def load_store_other Option.bind_eq_Some_conv
      split: if_splits option.splits)

lemma length_release_image: "length ws \<le> RELEASE_WORDS \<Longrightarrow> length (release_image ws) = 36"
  by (simp add: release_image_def RELEASE_WORDS_def length_concat comp_def sum_list_replicate map_replicate_const
      sum_list_triv)

end
