(* ===== verification/StreamThread.thy ===== *)
theory StreamThread
  imports StreamMessage
begin

text \<open>
  The stream thread of \<open>src/src/sample_library.c\<close> (lines 662 to 679 and 731 to 794): its
  start and stop, what it does when it leaves its loop, and the system it forms with the
  driver callback that enqueues and the clients that release. The system is a step
  relation: each step is one critical section of the code, run by one of the threads in
  any order. Clients are assumed to release only commands that were handed to them, each
  at most as often as its counter allows at a time (the steps \<open>count\<close>, \<open>release_check\<close>
  and \<open>release_remove\<close>); \<open>release_race\<close> shows what happens otherwise.
\<close>

subsection \<open>Start, exit and stop of the thread\<close>

text \<open>\<open>create\<close> is the result of \<open>pthread_create\<close>: its return code and the new handle.\<close>

definition start_stream_thread :: "int \<times> nat \<Rightarrow> stream_lib \<Rightarrow> int \<times> stream_lib" where
  "start_stream_thread create s =
    (let s = s\<lparr>stop_stream_thread_flag := False\<rparr>
     in (fst create, s\<lparr>stream_thread := (if fst create \<noteq> 0 then 0 else snd create)\<rparr>))"

text \<open>What \<open>stream_thread_proc\<close> does after its loop.\<close>

definition stream_thread_exit :: "(int \<times> stream_lib) list \<Rightarrow> stream_lib \<Rightarrow> stream_lib option" where
  "stream_thread_exit ws s = do {
     (ret, s) \<leftarrow> wait_release_list_empty ws s;
     (if ret = 0 then force_remove_release_command s else Some s)
   }"

text \<open>\<open>join\<close> gives the state in which \<open>pthread_join\<close> finds the library.\<close>

definition stop_stream_thread :: "(stream_lib \<Rightarrow> stream_lib) \<Rightarrow> stream_lib \<Rightarrow> stream_lib" where
  "stop_stream_thread join s =
    (if stream_thread s \<noteq> 0
     then (join (s\<lparr>stop_stream_thread_flag := True\<rparr>))\<lparr>stream_thread := 0\<rparr>
     else s)"

definition initialize_stream_thread ::
  "node_malloc \<Rightarrow> int \<times> nat \<Rightarrow> stream_lib \<Rightarrow> (int \<times> stream_lib) option" where
  "initialize_stream_thread m create s = do {
     (ret, s) \<leftarrow> initialize_stream_pool m s;
     (if ret \<noteq> 0 then Some (ret, s) else Some (start_stream_thread create s))
   }"

definition finalize_stream_thread :: "(stream_lib \<Rightarrow> stream_lib) \<Rightarrow> stream_lib \<Rightarrow> stream_lib option" where
  "finalize_stream_thread join s = do {
     (_, s) \<leftarrow> finalize_stream_pool (stop_stream_thread join s);
     Some s
   }"

lemma wait_zero_empty: "wait_release_list_empty ws s = Some (0, t) \<Longrightarrow> release_list t = None"
  by (induction ws s rule: wait_release_list_empty.induct) (auto split: if_splits)

lemma force_remove_empty: "lib_rep t A \<Longrightarrow> a_rel A = [] \<Longrightarrow> force_remove_release_command t = Some t"
  using rel.pop_empty[of t A]
  by (cases A) (simp add: force_remove_release_command_def drain.simps[of pop_release_list])

lemma thread_exit_same:
  assumes "wait_release_list_empty ws s = Some (ret, t)" and "lib_rep t A"
  shows "stream_thread_exit ws s = Some t"
proof (cases "ret = 0")
  case True
  with assms wait_zero_empty[of ws s t] lib_rep_heads(3)[OF assms(2)] have "a_rel A = []" by simp
  with assms True show ?thesis by (simp add: stream_thread_exit_def force_remove_empty)
next
  case False
  with assms show ?thesis by (simp add: stream_thread_exit_def)
qed

subsection \<open>The threads as a step relation\<close>

datatype thread_pc =
    Looping          \<comment> \<open>about to dequeue, or waiting for a command\<close>
  | Holding addr     \<comment> \<open>a dequeued node, not yet on the release list\<close>
  | Handing addr     \<comment> \<open>the node is on the release list, its callback is about to run\<close>
  | Draining         \<comment> \<open>left the loop, waiting for the release list to empty\<close>
  | Finished

text \<open>
  \<open>known\<close> are the commands that callbacks were given and that are not yet being released,
  \<open>releasing\<close> those whose counter has reached zero and that are about to be removed,
  \<open>orphans\<close> the commands for which no callback was called, so that no client knows them.
  \<open>accepted\<close> and \<open>delivered\<close> record the command buffers that went into the queue and those
  that \<open>recv_stream\<close> was given, \<open>calls\<close> the callbacks it called. \<open>phys\<close> is \<open>phys_addr_on\<close>
  and \<open>p2v\<close> the driver's \<open>FJ_MM_phys_to_virt\<close>.
\<close>

record stream_sys =
  lib :: stream_lib
  pc :: thread_pc
  known :: "addr set"
  releasing :: "addr set"
  orphans :: "addr set"
  accepted :: "byte list list"
  delivered :: "byte list list"
  calls :: "event list"

definition node_message :: "stream_lib \<Rightarrow> addr \<Rightarrow> byte list" where
  "node_message s q = (case nodes s q of None \<Rightarrow> [] | Some n \<Rightarrow> sq_command n)"

inductive stream_step :: "bool \<Rightarrow> (u32 \<Rightarrow> u32) \<Rightarrow> stream_sys \<Rightarrow> stream_sys \<Rightarrow> bool"
  for phys p2v where
  enqueue: "unat len \<le> length cmd \<Longrightarrow> enqueue_recv_command cmd len (lib \<sigma>) = Some (r, s) \<Longrightarrow>
    stream_step phys p2v \<sigma> (\<sigma>\<lparr>lib := s, accepted := accepted \<sigma> @ (if r = 0 then [command_buffer cmd len] else [])\<rparr>)"
| dequeue: "pc \<sigma> = Looping \<Longrightarrow> dequeue_recv_command (lib \<sigma>) = Some (Dequeued q, s) \<Longrightarrow>
    stream_step phys p2v \<sigma> (\<sigma>\<lparr>lib := s, pc := Holding q\<rparr>)"
| leave: "pc \<sigma> = Looping \<Longrightarrow> dequeue_recv_command (lib \<sigma>) = Some (Stopped, s) \<Longrightarrow>
    stream_step phys p2v \<sigma> (\<sigma>\<lparr>lib := s, pc := Draining\<rparr>)"
| store: "pc \<sigma> = Holding q \<Longrightarrow> store_release_command q (lib \<sigma>) = Some s \<Longrightarrow>
    stream_step phys p2v \<sigma> (\<sigma>\<lparr>lib := s, pc := Handing q\<rparr>)"
| hand_over: "pc \<sigma> = Handing q \<Longrightarrow> nodes (lib \<sigma>) q = Some n \<Longrightarrow>
    recv_stream phys p2v (sq_command n) = Some (es, c) \<Longrightarrow>
    node_set (nodes (lib \<sigma>)) q (\<lambda>n. n\<lparr>sq_command := c\<rparr>) = Some h \<Longrightarrow>
    stream_step phys p2v \<sigma> (\<sigma>\<lparr>lib := (lib \<sigma>)\<lparr>nodes := h\<rparr>, pc := Looping,
      known := known \<sigma> \<union> (if es = [] then {} else {q}),
      orphans := orphans \<sigma> \<union> (if es = [] then {q} else {}),
      delivered := delivered \<sigma> @ [sq_command n], calls := calls \<sigma> @ es\<rparr>)"
| count: "c \<in> known \<sigma> \<Longrightarrow> set_release_count c k (lib \<sigma>) = Some (r, s) \<Longrightarrow>
    stream_step phys p2v \<sigma> (\<sigma>\<lparr>lib := s\<rparr>)"
| release_check: "c \<in> known \<sigma> \<Longrightarrow> check_release_counter c (lib \<sigma>) = Some (r, l, s) \<Longrightarrow>
    stream_step phys p2v \<sigma> (if r = 0 then \<sigma>\<lparr>lib := s, known := known \<sigma> - {c}, releasing := insert c (releasing \<sigma>)\<rparr>
                   else \<sigma>\<lparr>lib := s\<rparr>)"
| release_remove: "a \<in> releasing \<sigma> \<Longrightarrow> remove_release_command a (lib \<sigma>) = Some s \<Longrightarrow>
    stream_step phys p2v \<sigma> (\<sigma>\<lparr>lib := s, releasing := releasing \<sigma> - {a}\<rparr>)"
| stop: "stream_step phys p2v \<sigma> (\<sigma>\<lparr>lib := (lib \<sigma>)\<lparr>stop_stream_thread_flag := True\<rparr>\<rparr>)"
| drained: "pc \<sigma> = Draining \<Longrightarrow> release_list (lib \<sigma>) = None \<Longrightarrow>
    force_remove_release_command (lib \<sigma>) = Some s \<Longrightarrow>
    stream_step phys p2v \<sigma> (\<sigma>\<lparr>lib := s, pc := Finished\<rparr>)"
| timed_out: "pc \<sigma> = Draining \<Longrightarrow> stream_step phys p2v \<sigma> (\<sigma>\<lparr>pc := Finished\<rparr>)"

inductive_cases stream_stepE: "stream_step phys p2v \<sigma> \<tau>"

text \<open>The system as \<open>initialize_stream_thread\<close> leaves it when it succeeds.\<close>

inductive stream_init :: "stream_sys \<Rightarrow> bool" where
  start: "malloc_fresh m \<Longrightarrow> initialize_stream_thread m create fresh_lib = Some (0, s) \<Longrightarrow>
    stream_init \<lparr>lib = s, pc = Looping, known = {}, releasing = {}, orphans = {},
      accepted = [], delivered = [], calls = []\<rparr>"

inductive stream_reachable :: "bool \<Rightarrow> (u32 \<Rightarrow> u32) \<Rightarrow> stream_sys \<Rightarrow> bool" for phys p2v where
  init: "stream_init \<sigma> \<Longrightarrow> stream_reachable phys p2v \<sigma>"
| step: "stream_reachable phys p2v \<sigma> \<Longrightarrow> stream_step phys p2v \<sigma> \<tau> \<Longrightarrow> stream_reachable phys p2v \<tau>"

subsection \<open>The invariant\<close>

definition held_by :: "thread_pc \<Rightarrow> addr set" where
  "held_by p = (case p of Holding q \<Rightarrow> {q} | _ \<Rightarrow> {})"

definition handed_by :: "thread_pc \<Rightarrow> addr set" where
  "handed_by p = (case p of Handing q \<Rightarrow> {q} | _ \<Rightarrow> {})"

definition in_transit :: "thread_pc \<Rightarrow> addr list" where
  "in_transit p = (case p of Holding q \<Rightarrow> [q] | Handing q \<Rightarrow> [q] | _ \<Rightarrow> [])"

lemma pc_sets [simp]:
  "held_by Looping = {}" "held_by (Holding q) = {q}" "held_by (Handing q) = {}"
  "held_by Draining = {}" "held_by Finished = {}"
  "handed_by Looping = {}" "handed_by (Holding q) = {}" "handed_by (Handing q) = {q}"
  "handed_by Draining = {}" "handed_by Finished = {}"
  "in_transit Looping = []" "in_transit (Holding q) = [q]" "in_transit (Handing q) = [q]"
  "in_transit Draining = []" "in_transit Finished = []"
  by (simp_all add: held_by_def handed_by_def in_transit_def)

text \<open>The nodes on the release list that nobody is about to remove.\<close>

definition kept :: "stream_sys \<Rightarrow> addr set" where
  "kept \<sigma> = known \<sigma> \<union> orphans \<sigma> \<union> handed_by (pc \<sigma>)"

lemma kept_upd [simp]:
  "kept (\<sigma>\<lparr>lib := s\<rparr>) = kept \<sigma>" "kept (\<sigma>\<lparr>accepted := ms\<rparr>) = kept \<sigma>"
  "kept (\<sigma>\<lparr>releasing := X\<rparr>) = kept \<sigma>"
  "kept (\<sigma>\<lparr>pc := p\<rparr>) = known \<sigma> \<union> orphans \<sigma> \<union> handed_by p"
  by (simp_all add: kept_def)

definition recv_calls :: "bool \<Rightarrow> (u32 \<Rightarrow> u32) \<Rightarrow> byte list \<Rightarrow> event list" where
  "recv_calls phys p2v m = (case recv_stream phys p2v m of None \<Rightarrow> [] | Some (es, _) \<Rightarrow> es)"

definition stream_inv :: "bool \<Rightarrow> (u32 \<Rightarrow> u32) \<Rightarrow> stream_sys \<Rightarrow> alib \<Rightarrow> bool" where
  "stream_inv phys p2v \<sigma> A \<longleftrightarrow> lib_rep (lib \<sigma>) A \<and> clean A \<and> card (parts A) = STREAM_QUEUE_SIZE \<and>
     a_owned A = held_by (pc \<sigma>) \<and>
     set (a_rel A) = kept \<sigma> \<union> releasing \<sigma> \<and> kept \<sigma> \<inter> releasing \<sigma> = {} \<and>
     known \<sigma> \<inter> orphans \<sigma> = {} \<and> handed_by (pc \<sigma>) \<inter> (known \<sigma> \<union> orphans \<sigma>) = {} \<and>
     accepted \<sigma> = delivered \<sigma> @ map (message_at A) (in_transit (pc \<sigma>)) @ queued A \<and>
     calls \<sigma> = concat (map (recv_calls phys p2v) (delivered \<sigma>))"

lemma stream_invI:
  assumes "lib_rep (lib \<sigma>) A" "clean A" "card (parts A) = STREAM_QUEUE_SIZE"
    "a_owned A = held_by (pc \<sigma>)" "set (a_rel A) = kept \<sigma> \<union> releasing \<sigma>"
    "kept \<sigma> \<inter> releasing \<sigma> = {}" "known \<sigma> \<inter> orphans \<sigma> = {}"
    "handed_by (pc \<sigma>) \<inter> (known \<sigma> \<union> orphans \<sigma>) = {}"
    "accepted \<sigma> = delivered \<sigma> @ map (message_at A) (in_transit (pc \<sigma>)) @ queued A"
    "calls \<sigma> = concat (map (recv_calls phys p2v) (delivered \<sigma>))"
  shows "stream_inv phys p2v \<sigma> A"
  using assms by (simp add: stream_inv_def)

lemma node_message_rep: "lib_rep s A \<Longrightarrow> q \<in> parts A \<Longrightarrow> node_message s q = message_at A q"
  using lib_rep_alive[of s A q] lib_rep_data[of s A q]
  by (auto simp: node_message_def message_at_def payload_def)

lemma size_parts:
  assumes "separated A" and "finite (a_owned A)"
  shows "card (parts A) = length (a_pool A) + length (a_recv A) + length (a_rel A) + card (a_owned A)"
proof -
  let ?l = "a_pool A @ a_recv A @ a_rel A"
  have "card (set ?l) = length ?l" using assms(1) by (intro distinct_card) (simp add: separated_def)
  moreover have "parts A = set ?l \<union> a_owned A" by (auto simp: parts_def)
  moreover have "set ?l \<inter> a_owned A = {}" using assms(1) by (auto simp: separated_def)
  ultimately show ?thesis using assms(2) by (simp add: card_Un_disjoint)
qed

lemma a_enqueue_frame:
  "parts (snd (a_enqueue cmd len A)) = parts A" "a_owned (snd (a_enqueue cmd len A)) = a_owned A"
  "a_rel (snd (a_enqueue cmd len A)) = a_rel A"
  "p \<notin> set (a_pool A) \<Longrightarrow> message_at (snd (a_enqueue cmd len A)) p = message_at A p"
  by (auto simp: a_enqueue_def parts_def message_at_def split: list.splits)

lemma inv_in_transit:
  "stream_inv phys p2v \<sigma> A \<Longrightarrow> p \<in> set (in_transit (pc \<sigma>)) \<Longrightarrow> p \<in> a_owned A \<union> set (a_rel A)"
  by (cases "pc \<sigma>") (auto simp: stream_inv_def kept_def)

lemma separated_pool:
  "separated A \<Longrightarrow> p \<in> a_owned A \<union> set (a_rel A) \<Longrightarrow> p \<notin> set (a_pool A)"
  "separated A \<Longrightarrow> p \<in> a_owned A \<union> set (a_rel A) \<Longrightarrow> p \<notin> set (a_recv A)"
  by (auto simp: separated_def)

lemma inv_enqueue:
  assumes inv: "stream_inv phys p2v \<sigma> A" and len: "unat len \<le> length cmd"
    and e: "enqueue_recv_command cmd len (lib \<sigma>) = Some (r, s)"
  shows "\<exists>A'. stream_inv phys p2v (\<sigma>\<lparr>lib := s,
    accepted := accepted \<sigma> @ (if r = 0 then [command_buffer cmd len] else [])\<rparr>) A'"
proof -
  let ?A = "snd (a_enqueue cmd len A)"
  have A: "lib_rep (lib \<sigma>) A" "clean A" "separated A" using inv by (auto simp: stream_inv_def lib_rep_def)
  from enqueue_sim[OF A(1,2) len] e have s: "lib_rep s ?A" "r = fst (a_enqueue cmd len A)" by auto
  have "map (message_at ?A) (in_transit (pc \<sigma>)) = map (message_at A) (in_transit (pc \<sigma>))"
    using inv_in_transit[OF inv] separated_pool[OF A(3)] by (auto simp: a_enqueue_frame)
  then have "stream_inv phys p2v (\<sigma>\<lparr>lib := s,
      accepted := accepted \<sigma> @ (if r = 0 then [command_buffer cmd len] else [])\<rparr>) ?A"
    using inv s clean_enqueue[OF A(2,3) len] queued_enqueue[OF A(3), of cmd len]
    by (simp add: stream_inv_def a_enqueue_frame)
  then show ?thesis by blast
qed

lemma message_take [simp]: "message_at (a_take_recv A) p = message_at A p"
  by (simp add: message_at_def a_take_recv_def)

lemma inv_dequeue:
  assumes inv: "stream_inv phys p2v \<sigma> A" and pc: "pc \<sigma> = Looping"
    and d: "dequeue_recv_command (lib \<sigma>) = Some (Dequeued q, s)"
  shows "\<exists>A'. stream_inv phys p2v (\<sigma>\<lparr>lib := s, pc := Holding q\<rparr>) A'"
proof -
  have A: "lib_rep (lib \<sigma>) A" using inv by (simp add: stream_inv_def)
  from dequeue_sim[OF A] d obtain qs where q: "a_recv A = q # qs" "lib_rep s (a_take_recv A)"
    by (auto split: list.splits if_splits)
  then have m: "queued A = message_at A q # queued (a_take_recv A)"
    by (auto simp: queued_def a_take_recv_def message_at_def)
  have "stream_inv phys p2v (\<sigma>\<lparr>lib := s, pc := Holding q\<rparr>) (a_take_recv A)"
    by (rule stream_invI)
      (use inv pc q m in \<open>simp_all add: stream_inv_def kept_def clean_take_recv, simp_all add: a_take_recv_def\<close>)
  then show ?thesis by blast
qed

lemma inv_leave:
  assumes inv: "stream_inv phys p2v \<sigma> A" and pc: "pc \<sigma> = Looping"
    and d: "dequeue_recv_command (lib \<sigma>) = Some (Stopped, s)"
  shows "\<exists>A'. stream_inv phys p2v (\<sigma>\<lparr>lib := s, pc := Draining\<rparr>) A'"
proof -
  have A: "lib_rep (lib \<sigma>) A" using inv by (simp add: stream_inv_def)
  from dequeue_sim[OF A] d have q: "a_recv A = []" "lib_rep s (a_take_recv A)"
    by (auto split: list.splits if_splits)
  then have "a_take_recv A = A" by (cases A) (simp add: a_take_recv_def)
  with inv pc q have "stream_inv phys p2v (\<sigma>\<lparr>lib := s, pc := Draining\<rparr>) A"
    by (simp add: stream_inv_def kept_def)
  then show ?thesis by blast
qed

lemma message_push_rel [simp]: "message_at (a_push_rel q A) p = message_at A p"
  by (simp add: message_at_def a_push_rel_def)

lemma queued_push_rel [simp]: "queued (a_push_rel q A) = queued A"
  by (simp add: queued_def a_push_rel_def message_at_def)

lemma inv_store:
  assumes inv: "stream_inv phys p2v \<sigma> A" and pc: "pc \<sigma> = Holding q"
    and d: "store_release_command q (lib \<sigma>) = Some s"
  shows "\<exists>A'. stream_inv phys p2v (\<sigma>\<lparr>lib := s, pc := Handing q\<rparr>) A'"
proof -
  have A: "lib_rep (lib \<sigma>) A" "q \<in> a_owned A" "clean A" using inv pc by (auto simp: stream_inv_def kept_def)
  let ?A = "a_push_rel q (a_set_counter q 1 A)"
  have s: "lib_rep s ?A" using store_sim[OF A(1,2)] d by auto
  have "q \<notin> set (a_pool A)" "q \<notin> set (a_rel A)" using A by (auto simp: lib_rep_def separated_def)
  then have "stream_inv phys p2v (\<sigma>\<lparr>lib := s, pc := Handing q\<rparr>) ?A"
    by (intro stream_invI)
      (use inv pc s A in \<open>auto simp: stream_inv_def kept_def clean_set_counter clean_push_rel\<close>,
       auto simp: a_push_rel_def)
  then show ?thesis by blast
qed

text \<open>The address translation rewrites the command of a node on the release list.\<close>

lemma clean_at: "clean A \<Longrightarrow> a_data A q = Some (c, l, k) \<Longrightarrow>
    length c = STREAM_COMMAND_MAX \<and> unat l \<le> STREAM_COMMAND_MAX"
  unfolding clean_def by blast

lemma a_write_rel:
  assumes "lib_rep s A" and "clean A" and "q \<in> set (a_rel A)" and "nodes s q = Some n"
    and "length c = STREAM_COMMAND_MAX"
  shows "clean (a_write q (payload (n\<lparr>sq_command := c\<rparr>)) A)"
    and "queued (a_write q (payload (n\<lparr>sq_command := c\<rparr>)) A) = queued A"
proof -
  have q: "q \<notin> set (a_pool A)" "q \<notin> set (a_recv A)"
    using assms(1,3) by (auto simp: lib_rep_def separated_def)
  have "a_data A q = Some (sq_command n, sq_length n, sq_release_counter n)"
    using lib_rep_data[OF assms(1,4)] by (simp add: payload_def)
  from clean_at[OF assms(2) this] have "unat (sq_length n) \<le> STREAM_COMMAND_MAX" by simp
  with q assms(2,5) show "clean (a_write q (payload (n\<lparr>sq_command := c\<rparr>)) A)"
    by (auto simp: clean_def a_write_def payload_def)
  show "queued (a_write q (payload (n\<lparr>sq_command := c\<rparr>)) A) = queued A"
    using q by (intro queued_cong) (auto simp: a_write_def)
qed

lemma inv_hand_over:
  assumes inv: "stream_inv phys p2v \<sigma> A" and pc: "pc \<sigma> = Handing q" and n: "nodes (lib \<sigma>) q = Some n"
    and r: "recv_stream phys p2v (sq_command n) = Some (es, c)"
    and h: "node_set (nodes (lib \<sigma>)) q (\<lambda>n. n\<lparr>sq_command := c\<rparr>) = Some h"
  shows "\<exists>A'. stream_inv phys p2v (\<sigma>\<lparr>lib := (lib \<sigma>)\<lparr>nodes := h\<rparr>, pc := Looping,
      known := known \<sigma> \<union> (if es = [] then {} else {q}),
      orphans := orphans \<sigma> \<union> (if es = [] then {q} else {}),
      delivered := delivered \<sigma> @ [sq_command n], calls := calls \<sigma> @ es\<rparr>) A'"
proof -
  let ?A = "a_write q (payload (n\<lparr>sq_command := c\<rparr>)) A"
  have A: "lib_rep (lib \<sigma>) A" "clean A" and q: "q \<in> set (a_rel A)" "q \<in> parts A"
    using inv pc by (auto simp: stream_inv_def kept_def parts_def)
  from node_set_write[OF A(1) q(2), of "\<lambda>n. n\<lparr>sq_command := c\<rparr>"] n h
  have rep: "lib_rep ((lib \<sigma>)\<lparr>nodes := h\<rparr>) ?A" by auto
  have d: "a_data A q = Some (payload n)" by (rule lib_rep_data[OF A(1) n])
  then have m: "message_at A q = sq_command n" by (simp add: message_at_def payload_def)
  have len: "length (sq_command n) = STREAM_COMMAND_MAX"
    using clean_at[OF A(2)] d by (simp add: payload_def)
  from recv_stream_some[of "sq_command n" phys p2v] r len
  have "length c = STREAM_COMMAND_MAX" by (simp add: STREAM_COMMAND_MAX_def)
  note w = a_write_rel[OF A q(1) n this]
  have calls: "recv_calls phys p2v (sq_command n) = es" using r by (simp add: recv_calls_def)
  have i: "card (parts A) = STREAM_QUEUE_SIZE" "a_owned A = {}"
    "set (a_rel A) = kept \<sigma> \<union> releasing \<sigma>" "kept \<sigma> \<inter> releasing \<sigma> = {}"
    "known \<sigma> \<inter> orphans \<sigma> = {}" "q \<notin> known \<sigma>" "q \<notin> orphans \<sigma>"
    "accepted \<sigma> = delivered \<sigma> @ [sq_command n] @ queued A"
    "calls \<sigma> = concat (map (recv_calls phys p2v) (delivered \<sigma>))"
    using inv pc m by (auto simp: stream_inv_def)
  have k: "kept \<sigma> = insert q (known \<sigma> \<union> orphans \<sigma>)" using pc by (auto simp: kept_def)
  obtain B where B: "B = ?A" by blast
  have ab: "parts B = parts A" "a_owned B = a_owned A" "a_rel B = a_rel A" by (simp_all add: B)
  let ?\<tau> = "\<sigma>\<lparr>lib := (lib \<sigma>)\<lparr>nodes := h\<rparr>, pc := Looping,
      known := known \<sigma> \<union> (if es = [] then {} else {q}),
      orphans := orphans \<sigma> \<union> (if es = [] then {q} else {}),
      delivered := delivered \<sigma> @ [sq_command n], calls := calls \<sigma> @ es\<rparr>"
  have k': "kept ?\<tau> = kept \<sigma>" unfolding k by (auto simp: kept_def)
  have "known ?\<tau> \<inter> orphans ?\<tau> = {}" using i(5-7) by auto
  then have "stream_inv phys p2v ?\<tau> B"
    by (intro stream_invI) (use rep w i(1-4,8,9) k' calls in \<open>simp_all add: ab flip: B\<close>)
  then show ?thesis by blast
qed

lemma inv_set_counter:
  assumes inv: "stream_inv phys p2v \<sigma> A" and s: "lib_rep s (a_set_counter c k A)" and c: "c \<in> set (a_rel A)"
  shows "stream_inv phys p2v (\<sigma>\<lparr>lib := s\<rparr>) (a_set_counter c k A)"
proof -
  have "c \<notin> set (a_pool A)" using inv c by (auto simp: stream_inv_def kept_def lib_rep_def separated_def)
  then show ?thesis
    by (intro stream_invI) (use inv s in \<open>auto simp: stream_inv_def kept_def clean_set_counter\<close>)
qed

lemma inv_count:
  assumes inv: "stream_inv phys p2v \<sigma> A" and c: "c \<in> known \<sigma>" and d: "set_release_count c k (lib \<sigma>) = Some (r, s)"
  shows "\<exists>A'. stream_inv phys p2v (\<sigma>\<lparr>lib := s\<rparr>) A'"
proof -
  have A: "lib_rep (lib \<sigma>) A" "c \<in> set (a_rel A)" using inv c by (auto simp: stream_inv_def kept_def)
  with set_count_sim[OF A(1), of c k] d have "lib_rep s (a_set_counter c k A)" by auto
  from inv_set_counter[OF inv this A(2)] show ?thesis by blast
qed

lemma inv_release_check:
  assumes inv: "stream_inv phys p2v \<sigma> A" and c: "c \<in> known \<sigma>"
    and d: "check_release_counter c (lib \<sigma>) = Some (r, l, s)"
  shows "\<exists>A'. stream_inv phys p2v (if r = 0 then \<sigma>\<lparr>lib := s, known := known \<sigma> - {c},
      releasing := insert c (releasing \<sigma>)\<rparr> else \<sigma>\<lparr>lib := s\<rparr>) A'"
proof -
  have A: "lib_rep (lib \<sigma>) A" "c \<in> set (a_rel A)" using inv c by (auto simp: stream_inv_def kept_def)
  let ?A = "a_set_counter c (counter_of A c - 1) A"
  from check_sim[OF A(1), of c] d A(2) have "lib_rep s ?A" by auto
  from inv_set_counter[OF inv this A(2)] have "stream_inv phys p2v (\<sigma>\<lparr>lib := s\<rparr>) ?A" .
  then have "stream_inv phys p2v (if r = 0 then \<sigma>\<lparr>lib := s, known := known \<sigma> - {c},
      releasing := insert c (releasing \<sigma>)\<rparr> else \<sigma>\<lparr>lib := s\<rparr>) ?A"
    using c by (auto simp: stream_inv_def kept_def)
  then show ?thesis by blast
qed

lemma inv_release_remove:
  assumes inv: "stream_inv phys p2v \<sigma> A" and a: "a \<in> releasing \<sigma>"
    and d: "remove_release_command a (lib \<sigma>) = Some s"
  shows "\<exists>A'. stream_inv phys p2v (\<sigma>\<lparr>lib := s, releasing := releasing \<sigma> - {a}\<rparr>) A'"
proof -
  let ?A = "a_recycle a (A\<lparr>a_rel := remove1 a (a_rel A)\<rparr>)"
  have A: "lib_rep (lib \<sigma>) A" "a \<in> set (a_rel A)" "clean A"
    using inv a by (auto simp: stream_inv_def)
  from remove_sim[OF A(1,2)] d have s: "lib_rep s ?A" by auto
  have sep: "separated A" using A by (simp add: lib_rep_def)
  then have rel: "set (remove1 a (a_rel A)) = set (a_rel A) - {a}" and "a \<notin> set (a_recv A)"
    using A(2) by (auto simp: separated_def)
  then have q: "queued ?A = queued A"
    by (auto simp: queued_def a_recycle_def message_at_def)
  have "a \<notin> set (in_transit (pc \<sigma>))"
    using inv a A sep by (cases "pc \<sigma>") (auto simp: stream_inv_def kept_def separated_def)
  then have m: "map (message_at ?A) (in_transit (pc \<sigma>)) = map (message_at A) (in_transit (pc \<sigma>))"
    by (auto simp: message_at_def a_recycle_def)
  have p: "parts ?A = parts A" using A(2) rel by (auto simp: parts_def a_recycle_def)
  have rd: "a_rel ?A = remove1 a (a_rel A)" "a_owned ?A = a_owned A" by (simp_all add: a_recycle_def)
  have i: "card (parts A) = STREAM_QUEUE_SIZE" "a_owned A = held_by (pc \<sigma>)"
    "set (a_rel A) = kept \<sigma> \<union> releasing \<sigma>" "kept \<sigma> \<inter> releasing \<sigma> = {}"
    "known \<sigma> \<inter> orphans \<sigma> = {}" "handed_by (pc \<sigma>) \<inter> (known \<sigma> \<union> orphans \<sigma>) = {}"
    "accepted \<sigma> = delivered \<sigma> @ map (message_at A) (in_transit (pc \<sigma>)) @ queued A"
    "calls \<sigma> = concat (map (recv_calls phys p2v) (delivered \<sigma>))"
    using inv by (simp_all only: stream_inv_def)
  have sets: "set (a_rel A) - {a} = kept \<sigma> \<union> (releasing \<sigma> - {a})" "kept \<sigma> \<inter> (releasing \<sigma> - {a}) = {}"
    using i(3,4) a by blast+
  have c: "clean ?A" by (rule clean_recycle[OF A(3)])
  obtain B where B: "B = ?A" by blast
  have "stream_inv phys p2v (\<sigma>\<lparr>lib := s, releasing := releasing \<sigma> - {a}\<rparr>) B"
    by (rule stream_invI)
      (use s c p m q rd rel i(1,2,5-8) sets in \<open>simp_all flip: B\<close>)
  then show ?thesis by blast
qed

lemma inv_stop:
  assumes "stream_inv phys p2v \<sigma> A"
  shows "stream_inv phys p2v (\<sigma>\<lparr>lib := (lib \<sigma>)\<lparr>stop_stream_thread_flag := True\<rparr>\<rparr>) (A\<lparr>a_stop := True\<rparr>)"
  using assms
  by (auto simp: stream_inv_def lib_rep_def separated_def parts_def clean_def queued_def message_at_def)

lemma inv_drained:
  assumes inv: "stream_inv phys p2v \<sigma> A" and "pc \<sigma> = Draining" and e: "release_list (lib \<sigma>) = None"
    and d: "force_remove_release_command (lib \<sigma>) = Some s"
  shows "stream_inv phys p2v (\<sigma>\<lparr>lib := s, pc := Finished\<rparr>) A"
proof -
  have A: "lib_rep (lib \<sigma>) A" using inv by (simp add: stream_inv_def)
  with lib_rep_heads(3)[OF A] e have "a_rel A = []" by (metis head_of_eq_None)
  from force_remove_empty[OF A this] d have "s = lib \<sigma>" by simp
  with assms show ?thesis by (simp add: stream_inv_def kept_def)
qed

lemma inv_timed_out:
  "stream_inv phys p2v \<sigma> A \<Longrightarrow> pc \<sigma> = Draining \<Longrightarrow> stream_inv phys p2v (\<sigma>\<lparr>pc := Finished\<rparr>) A"
  by (simp add: stream_inv_def kept_def)

lemma stream_step_inv:
  "stream_step phys p2v \<sigma> \<tau> \<Longrightarrow> stream_inv phys p2v \<sigma> A \<Longrightarrow> \<exists>B. stream_inv phys p2v \<tau> B"
  by (induction rule: stream_step.induct)
    (blast intro: inv_enqueue inv_dequeue inv_leave inv_store inv_hand_over inv_count
      inv_release_check inv_release_remove inv_stop inv_drained inv_timed_out)+

lemma stream_init_inv: "stream_init \<sigma> \<Longrightarrow> \<exists>A. stream_inv phys p2v \<sigma> A"
proof (induction rule: stream_init.induct)
  case (start m create s)
  from initialize_sim[OF start(1) fresh_rep] obtain r t A where
    t: "initialize_stream_pool m fresh_lib = Some (r, t)" "lib_rep t A" "clean A" "a_recv A = []"
      "a_rel A = []" "a_owned A = {}" "r = 0 \<longrightarrow> length (a_pool A) = STREAM_QUEUE_SIZE"
      "r = 0 \<or> r = -1"
    by (auto simp: fresh_alib_def)
  with start(2) have r: "r = 0" and s: "s = snd (start_stream_thread create t)"
    by (auto simp: initialize_stream_thread_def split: if_splits)
  have n: "length (a_pool A) = STREAM_QUEUE_SIZE" using t r by simp
  have sep: "separated A" using t by (simp add: lib_rep_def)
  let ?B = "A\<lparr>a_stop := False, a_thread := stream_thread s\<rparr>"
  have "lib_rep s ?B"
    using t s by (simp add: lib_rep_def start_stream_thread_def Let_def separated_def parts_def)
  moreover have "card (parts ?B) = STREAM_QUEUE_SIZE"
    using size_parts[OF sep] t n by (simp add: parts_def)
  moreover have "clean ?B" using t by (simp add: clean_def)
  ultimately show ?case
    using t by (intro exI[of _ ?B] stream_invI) (auto simp: queued_def kept_def)
qed

lemma stream_reachable_inv: "stream_reachable phys p2v \<sigma> \<Longrightarrow> \<exists>A. stream_inv phys p2v \<sigma> A"
  by (induction rule: stream_reachable.induct) (blast intro: stream_init_inv stream_step_inv)+

end
