(* ===== verification/StreamService.thy ===== *)
theory StreamService
  imports StreamThread
begin

text \<open>
  What the stream library of \<open>src/src/sample_library.c\<close> guarantees as a whole: in every
  state that its threads reach, no node is lost or shared, messages are delivered once and
  in order, and no operation touches memory that is not a live node. The properties are
  statements over the model of the code; their proofs read them off the invariant of
  \<open>StreamThread\<close> and the simulation lemmas of \<open>StreamPool\<close>.
\<close>

subsection \<open>Facts shared by the properties\<close>

lemma reachable_rep:
  assumes "stream_reachable phys p2v \<sigma>"
  obtains A where "stream_inv phys p2v \<sigma> A" "lib_rep (lib \<sigma>) A" "clean A" "separated A"
    "set (a_rel A) = kept \<sigma> \<union> releasing \<sigma>" "a_owned A = held_by (pc \<sigma>)"
  using stream_reachable_inv[OF assms] by (auto simp: stream_inv_def lib_rep_def)

lemma held_finite [simp]: "finite (held_by p)"
  by (cases p) auto

text \<open>\<open>n\<close> calls of \<open>check_release_counter\<close> in a row, with what each returns.\<close>

fun checks :: "addr \<Rightarrow> nat \<Rightarrow> stream_lib \<Rightarrow> (int list \<times> stream_lib) option" where
  "checks c 0 s = Some ([], s)"
| "checks c (Suc n) s = do {
     (r, _, s) \<leftarrow> check_release_counter c s;
     (rs, s) \<leftarrow> checks c n s;
     Some (r # rs, s)
   }"

lemma counter_set [simp]: "a_data A c \<noteq> None \<Longrightarrow> counter_of (a_set_counter c k A) c = k"
  by (auto simp: counter_of_def a_set_counter_def with_counter_def)

lemma set_counter_twice [simp]: "a_set_counter c k (a_set_counter c l A) = a_set_counter c k A"
  by (cases A) (simp add: a_set_counter_def option.map_comp o_def, simp add: with_counter_def[abs_def])

lemma rel_data: "lib_rep s A \<Longrightarrow> c \<in> set (a_rel A) \<Longrightarrow> a_data A c \<noteq> None"
proof -
  assume A: "lib_rep s A" and "c \<in> set (a_rel A)"
  with lib_rep_alive[OF A, of c] obtain n where "nodes s c = Some n" by (auto simp: parts_def)
  from lib_rep_data[OF A this] show ?thesis by simp
qed

lemma checks_sim:
  "lib_rep s (a_set_counter c k A) \<Longrightarrow> c \<in> set (a_rel A) \<Longrightarrow> a_data A c \<noteq> None \<Longrightarrow>
    \<exists>s'. checks c n s = Some (map (\<lambda>i. max 0 (sint (k - of_nat i))) [1..<Suc n], s') \<and>
      lib_rep s' (a_set_counter c (k - of_nat n) A)"
proof (induction n arbitrary: s k)
  case 0
  then show ?case by auto
next
  case (Suc n)
  from check_sim[OF Suc.prems(1), of c] Suc.prems(2,3) obtain t where
    t: "check_release_counter c s = Some (max 0 (sint (k - 1)), Some c, t)"
      "lib_rep t (a_set_counter c (k - 1) A)" by auto
  from Suc.IH[OF t(2) Suc.prems(2,3)] obtain u where
    u: "checks c n t = Some (map (\<lambda>i. max 0 (sint (k - 1 - of_nat i))) [1..<Suc n], u)"
      "lib_rep u (a_set_counter c (k - 1 - of_nat n) A)" by blast
  have "map (\<lambda>i. max 0 (sint (k - of_nat i))) [1..<Suc (Suc n)] =
      max 0 (sint (k - 1)) # map (\<lambda>i. max 0 (sint (k - 1 - of_nat i))) [1..<Suc n]"
    by (rule nth_equalityI) (auto simp: nth_Cons' nth_append algebra_simps simp del: upt_Suc)
  with t u show ?case by (auto simp: algebra_simps simp del: upt_Suc)
qed

subsection \<open>A concrete allocator\<close>

text \<open>For the witnesses: the lowest free address below 200, with zero contents.\<close>

definition low_malloc :: node_malloc where
  "low_malloc h = map_option (\<lambda>a. (a, zero_node)) (find (\<lambda>a. h a = None) [0..<200])"

lemma low_malloc_fresh: "malloc_fresh low_malloc"
  by (auto simp: malloc_fresh_def low_malloc_def find_Some_iff)

lemma low_malloc_some: "finite (dom h) \<Longrightarrow> card (dom h) < 200 \<Longrightarrow> low_malloc h \<noteq> None"
proof
  assume h: "finite (dom h)" "card (dom h) < 200" and "low_malloc h = None"
  then have "{0..<200} \<subseteq> dom h" by (auto simp: low_malloc_def find_None_iff)
  from card_mono[OF h(1) this] h(2) show False by simp
qed

definition demo_lib :: stream_lib where
  "demo_lib = snd (the (initialize_stream_thread low_malloc (0, 1) fresh_lib))"

definition demo_sys :: stream_sys where
  "demo_sys = \<lparr>lib = demo_lib, pc = Looping, known = {}, releasing = {}, orphans = {},
     accepted = [], delivered = [], calls = []\<rparr>"

lemma demo_pool:
  "\<exists>t A. initialize_stream_pool low_malloc fresh_lib = Some (0, t) \<and> lib_rep t A \<and>
    a_recv A = [] \<and> a_rel A = []"
proof -
  from initialize_sim[OF low_malloc_fresh fresh_rep] obtain r t A where
    t: "initialize_stream_pool low_malloc fresh_lib = Some (r, t)" "lib_rep t A"
      "a_recv A = []" "a_rel A = []" "a_owned A = {}"
      "r = 0 \<or> r = -1 \<and> length (a_pool A) < STREAM_QUEUE_SIZE \<and> low_malloc (nodes t) = None"
    by (auto simp: fresh_alib_def)
  have d: "dom (nodes t) = set (a_pool A)" using t by (simp add: lib_rep_def parts_def)
  then have "card (dom (nodes t)) \<le> length (a_pool A)" by (simp add: card_length)
  with t(6) low_malloc_some[of "nodes t"] d have "r = 0" by (auto simp: STREAM_QUEUE_SIZE_def)
  with t(1) have "initialize_stream_pool low_malloc fresh_lib = Some (0, t)" by simp
  with t(2-4) show ?thesis by blast
qed

lemma demo_start: "initialize_stream_thread low_malloc (0, 1) fresh_lib = Some (0, demo_lib)"
  using demo_pool by (auto simp: initialize_stream_thread_def demo_lib_def start_stream_thread_def Let_def)

lemma demo_init: "stream_init demo_sys"
  unfolding demo_sys_def by (rule stream_init.start[OF low_malloc_fresh demo_start])

lemma demo_reachable: "stream_reachable phys p2v demo_sys"
  by (rule stream_reachable.init) (rule demo_init)


lemma demo_inv: "\<exists>A. stream_inv phys p2v demo_sys A \<and> a_recv A = [] \<and> a_rel A = [] \<and> a_pool A \<noteq> [] \<and> \<not> a_stop A"
proof -
  from demo_pool obtain t B where t: "initialize_stream_pool low_malloc fresh_lib = Some (0, t)"
    "lib_rep t B" "a_recv B = []" "a_rel B = []" by blast
  then have lib: "demo_lib = snd (start_stream_thread (0, 1) t)"
    by (simp add: demo_lib_def initialize_stream_thread_def)
  have q: "recv_queue demo_lib = None" "release_list demo_lib = None"
    "stop_stream_thread_flag demo_lib = False"
    unfolding lib using lib_rep_heads(2,3)[OF t(2)] t(3,4) by (simp_all add: start_stream_thread_def Let_def)
  obtain A where A: "stream_inv phys p2v demo_sys A" using stream_init_inv[OF demo_init] by blast
  then have rep: "lib_rep demo_lib A" "a_owned A = {}" "card (parts A) = STREAM_QUEUE_SIZE" "separated A"
    by (auto simp: stream_inv_def demo_sys_def lib_rep_def)
  have e: "a_recv A = []" "a_rel A = []" "\<not> a_stop A"
    using q lib_rep_heads(2,3)[OF rep(1)] lib_rep_control(1)[OF rep(1)] by (metis head_of_eq_None)+
  with size_parts[OF rep(4)] rep(2,3) have "a_pool A \<noteq> []" by (auto simp: STREAM_QUEUE_SIZE_def)
  with A e show ?thesis by blast
qed

lemma demo_lists_empty: "recv_queue (lib demo_sys) = None" "release_list (lib demo_sys) = None"
  using demo_inv[of True id] lib_rep_heads(2,3)[of "lib demo_sys"] by (auto simp: stream_inv_def)

text \<open>
  One command, received and passed on: a command with an unknown sub-command, for which no
  callback is called, or one of the video stream.
\<close>

definition video_command :: "byte list" where
  "video_command = concat (map le_bytes32 [STREAM_MAGIC, 1, 0x10100, 0x100, 0, 0, 0, 0, 0, 0, 0])"

lemma demo_passed:
  assumes cmd: "length cmd = unat len" "unat len \<le> 256"
  shows "\<exists>\<sigma> q es c. stream_reachable phys p2v \<sigma> \<and> recv_stream phys p2v (command_buffer cmd len) = Some (es, c) \<and>
    known \<sigma> = (if es = [] then {} else {q}) \<and> orphans \<sigma> = (if es = [] then {q} else {})"
proof -
  from demo_inv obtain A where A: "stream_inv phys p2v demo_sys A" "a_recv A = []" "a_pool A \<noteq> []" "\<not> a_stop A" by blast
  then have rep: "lib_rep (lib demo_sys) A" "clean A" by (auto simp: stream_inv_def)
  then obtain q qs where q: "a_pool A = q # qs" using A(3) by (cases "a_pool A") auto
  let ?B = "snd (a_enqueue cmd len A)"
  from enqueue_sim[OF rep, of len cmd] A q cmd obtain s1 where
    s1: "enqueue_recv_command cmd len (lib demo_sys) = Some (0, s1)" "lib_rep s1 ?B"
    by (auto simp: a_enqueue_def STREAM_COMMAND_MAX_def)
  have B: "a_recv ?B = [q]" "a_data ?B q = Some (command_image cmd len)"
    using A q cmd by (simp_all add: a_enqueue_def STREAM_COMMAND_MAX_def)
  let ?s1 = "demo_sys\<lparr>lib := s1, accepted := [command_buffer cmd len]\<rparr>"
  have r1: "stream_reachable phys p2v ?s1"
    using stream_step.enqueue[of len cmd demo_sys 0 s1] s1(1) cmd stream_reachable.step[OF demo_reachable]
    by (simp add: demo_sys_def)
  from dequeue_sim[OF s1(2)] B obtain s2 where
    s2: "dequeue_recv_command s1 = Some (Dequeued q, s2)" "lib_rep s2 (a_take_recv ?B)" by auto
  let ?s2 = "?s1\<lparr>lib := s2, pc := Holding q\<rparr>"
  have r2: "stream_reachable phys p2v ?s2"
    using stream_step.dequeue[of ?s1 q s2] s2(1) stream_reachable.step[OF r1] by (simp add: demo_sys_def)
  let ?C = "a_take_recv ?B"
  have own: "q \<in> a_owned ?C" "a_data ?C q = Some (command_image cmd len)"
    using B by (simp_all add: a_take_recv_def)
  from store_sim[OF s2(2) own(1)] obtain s3 where s3: "store_release_command q s2 = Some s3"
    "lib_rep s3 (a_push_rel q (a_set_counter q 1 ?C))" by blast
  let ?s3 = "?s2\<lparr>lib := s3, pc := Handing q\<rparr>"
  have r3: "stream_reachable phys p2v ?s3"
    using stream_step.store[of ?s2 q s3] s3 stream_reachable.step[OF r2] by simp
  have "q \<in> parts (a_push_rel q (a_set_counter q 1 ?C))" by (simp add: parts_def a_push_rel_def)
  from lib_rep_alive[OF s3(2) this] obtain n where n: "nodes s3 q = Some n" by blast
  from lib_rep_data[OF s3(2) n] own(2) have c: "sq_command n = command_buffer cmd len"
    by (auto simp: a_push_rel_def a_set_counter_def with_counter_def payload_def command_image_def)
  have "length (command_buffer cmd len) = 256" using cmd by (simp add: command_buffer_def STREAM_COMMAND_MAX_def)
  with recv_stream_some[of "command_buffer cmd len" phys p2v] obtain es c' where
    r: "recv_stream phys p2v (command_buffer cmd len) = Some (es, c')" by auto
  have h: "node_set (nodes s3) q (\<lambda>n. n\<lparr>sq_command := c'\<rparr>) = Some ((nodes s3)(q \<mapsto> n\<lparr>sq_command := c'\<rparr>))"
    using n by (simp add: node_set_def)
  from stream_step.hand_over[of ?s3 q n phys p2v es c'] n r h c stream_reachable.step[OF r3]
  have r4: "stream_reachable phys p2v (?s3\<lparr>lib := s3\<lparr>nodes := (nodes s3)(q \<mapsto> n\<lparr>sq_command := c'\<rparr>)\<rparr>,
      pc := Looping, known := {} \<union> (if es = [] then {} else {q}), orphans := {} \<union> (if es = [] then {q} else {}),
      delivered := [] @ [sq_command n], calls := [] @ es\<rparr>)"
    by (simp add: demo_sys_def)
  show ?thesis
    by (rule exI, rule exI[of _ q], rule exI[of _ es], rule exI[of _ c'], intro conjI, rule r4, rule r) simp_all
qed

lemma demo_handed: "\<exists>\<sigma> c. stream_reachable phys p2v \<sigma> \<and> c \<in> known \<sigma>"
proof -
  have "length video_command = unat (44 :: u32)" "unat (44 :: u32) \<le> 256"
    by (simp_all add: video_command_def)
  from demo_passed[OF this, of phys p2v] obtain \<sigma> q es c where
    s: "stream_reachable phys p2v \<sigma>" "recv_stream phys p2v (command_buffer video_command 44) = Some (es, c)"
      "known \<sigma> = (if es = [] then {} else {q})" by blast
  have "load MagicCode (command_buffer video_command 44) = Some STREAM_MAGIC"
    "load Sub_Command (command_buffer video_command 44) = Some 0x100"
    by (simp_all add: load_def window_def command_buffer_def video_command_def le_bytes32_def STREAM_COMMAND_MAX_def
        le_word32_def STREAM_MAGIC_def)
  with s(2) have "es \<noteq> []" by (auto simp: recv_stream_def kind_of_def Option.bind_eq_Some_conv)
  with s show ?thesis by auto
qed

lemma demo_orphan: "\<exists>\<sigma> c. stream_reachable phys p2v \<sigma> \<and> c \<in> orphans \<sigma>"
proof -
  have "length ([] :: byte list) = unat (0 :: u32)" "unat (0 :: u32) \<le> 256" by simp_all
  from demo_passed[OF this, of phys p2v] obtain \<sigma> q es c where
    s: "stream_reachable phys p2v \<sigma>" "recv_stream phys p2v (command_buffer [] 0) = Some (es, c)"
      "orphans \<sigma> = (if es = [] then {q} else {})" by blast
  have "load MagicCode (command_buffer [] 0) = Some 0"
    by (simp add: load_def window_def command_buffer_def le_word32_def STREAM_COMMAND_MAX_def eval_nat_numeral)
  with s(2) have "es = []" by (auto simp: recv_stream_def STREAM_MAGIC_def)
  with s show ?thesis by auto
qed

text \<open>Removing a node from the release list a second time, when it is already in the pool.\<close>

lemma remove_again:
  assumes "dlist (nodes u) (stream_pool u) (c # xs)"
  shows "\<exists>v w. remove_release_command c u = Some v \<and> release_list v = head_of xs \<and>
    pops pop_stream_pool 2 v = Some ([Some c, Some c], w)"
proof (cases xs)
  case Nil
  with assms obtain n where n: "stream_pool u = Some c" "nodes u c = Some n" "sq_next n = None" "sq_prev n = None"
    by (auto simp: dlist_def split: option.splits)
  with Nil show ?thesis
    by (simp add: remove_release_command_def remove_release_list_def list_unlink_def node_set_def prev_of_def
        push_stream_pool_def list_push_front_def pop_stream_pool_def list_pop_def numeral_2_eq_2 Let_def)
next
  case (Cons x ys)
  with assms obtain n m where n: "stream_pool u = Some c" "nodes u c = Some n" "sq_next n = Some x"
    "sq_prev n = None" "nodes u x = Some m" "x \<noteq> c"
    by (auto simp: dlist_def split: option.splits)
  with Cons show ?thesis
    by (simp add: remove_release_command_def remove_release_list_def list_unlink_def node_set_def prev_of_def
        push_stream_pool_def list_push_front_def pop_stream_pool_def list_pop_def numeral_2_eq_2 Let_def)
qed

text \<open>A command without a client stays where it is.\<close>

lemma orphans_stay: "stream_step phys p2v \<sigma> \<tau> \<Longrightarrow> orphans \<sigma> \<subseteq> orphans \<tau>"
  by (induction rule: stream_step.induct) auto

inductive stream_steps :: "bool \<Rightarrow> (u32 \<Rightarrow> u32) \<Rightarrow> stream_sys \<Rightarrow> stream_sys \<Rightarrow> bool" for phys p2v where
  none: "stream_steps phys p2v \<sigma> \<sigma>"
| more: "stream_steps phys p2v \<sigma> \<tau> \<Longrightarrow> stream_step phys p2v \<tau> \<upsilon> \<Longrightarrow> stream_steps phys p2v \<sigma> \<upsilon>"

lemma steps_keep:
  "stream_steps phys p2v \<sigma> \<tau> \<Longrightarrow> stream_reachable phys p2v \<sigma> \<Longrightarrow>
    stream_reachable phys p2v \<tau> \<and> orphans \<sigma> \<subseteq> orphans \<tau>"
  by (induction rule: stream_steps.induct) (auto intro: stream_reachable.step dest: orphans_stay)

subsection \<open>Properties\<close>

text \<open>C5: In every state the threads reach, the 128 nodes of the pool are all there: each is in
  exactly one of the three lists, once, or in the hands of the stream thread, and the
  lists are well-formed doubly linked lists over live nodes.\<close>

theorem stream_nodes_conserved:
  assumes "stream_reachable phys p2v \<sigma>"
  shows "\<exists>pool recv rel. dlist (nodes (lib \<sigma>)) (stream_pool (lib \<sigma>)) pool \<and>
    dlist (nodes (lib \<sigma>)) (recv_queue (lib \<sigma>)) recv \<and>
    dlist (nodes (lib \<sigma>)) (release_list (lib \<sigma>)) rel \<and>
    distinct (pool @ recv @ rel) \<and> held_by (pc \<sigma>) \<inter> set (pool @ recv @ rel) = {} \<and>
    dom (nodes (lib \<sigma>)) = set (pool @ recv @ rel) \<union> held_by (pc \<sigma>) \<and>
    length pool + length recv + length rel + card (held_by (pc \<sigma>)) = STREAM_QUEUE_SIZE"
proof -
  from assms obtain A where A: "stream_inv phys p2v \<sigma> A" "lib_rep (lib \<sigma>) A" and "clean A"
    and sep: "separated A" and "set (a_rel A) = kept \<sigma> \<union> releasing \<sigma>"
    and o: "a_owned A = held_by (pc \<sigma>)" by (rule reachable_rep)
  have "card (parts A) = STREAM_QUEUE_SIZE" using A(1) by (simp add: stream_inv_def)
  with size_parts[OF sep] o have n: "length (a_pool A) + length (a_recv A) + length (a_rel A) +
    card (held_by (pc \<sigma>)) = STREAM_QUEUE_SIZE" by simp
  have "held_by (pc \<sigma>) \<inter> set (a_pool A @ a_recv A @ a_rel A) = {}" "distinct (a_pool A @ a_recv A @ a_rel A)"
    using sep o by (auto simp: separated_def)
  moreover have "dom (nodes (lib \<sigma>)) = set (a_pool A @ a_recv A @ a_rel A) \<union> held_by (pc \<sigma>)"
    using A(2) o by (auto simp: lib_rep_def parts_def)
  ultimately show ?thesis
    using A(2) n by (intro exI[of _ "a_pool A"] exI[of _ "a_recv A"] exI[of _ "a_rel A"])
      (simp add: lib_rep_def)
qed

theorem stream_nodes_conserved_witness:
  "\<exists>pool recv rel. dlist (nodes (lib demo_sys)) (stream_pool (lib demo_sys)) pool \<and>
    dlist (nodes (lib demo_sys)) (recv_queue (lib demo_sys)) recv \<and>
    dlist (nodes (lib demo_sys)) (release_list (lib demo_sys)) rel \<and>
    distinct (pool @ recv @ rel) \<and> held_by (pc demo_sys) \<inter> set (pool @ recv @ rel) = {} \<and>
    dom (nodes (lib demo_sys)) = set (pool @ recv @ rel) \<union> held_by (pc demo_sys) \<and>
    length pool + length recv + length rel + card (held_by (pc demo_sys)) = STREAM_QUEUE_SIZE"
  by (rule stream_nodes_conserved[OF demo_reachable])

text \<open>C6: Commands are delivered once and in order: what was accepted is what \<open>recv_stream\<close> was
  given, then the command the stream thread is working on, then the receive queue; and the
  callbacks called are exactly those of the delivered commands, in that order.\<close>

theorem stream_delivery_in_order:
  assumes "stream_reachable phys p2v \<sigma>"
  shows "\<exists>recv. dlist (nodes (lib \<sigma>)) (recv_queue (lib \<sigma>)) recv \<and>
    accepted \<sigma> = delivered \<sigma> @ map (node_message (lib \<sigma>)) (in_transit (pc \<sigma>) @ recv) \<and>
    calls \<sigma> = concat (map (recv_calls phys p2v) (delivered \<sigma>))"
proof -
  from reachable_rep[OF assms] obtain A where A: "stream_inv phys p2v \<sigma> A" "lib_rep (lib \<sigma>) A" by blast
  have "map (node_message (lib \<sigma>)) (in_transit (pc \<sigma>) @ a_recv A) =
      map (message_at A) (in_transit (pc \<sigma>) @ a_recv A)"
    using inv_in_transit[OF A(1)] node_message_rep[OF A(2)] by (auto simp: parts_def)
  then show ?thesis
    using A by (intro exI[of _ "a_recv A"]) (simp add: stream_inv_def lib_rep_def queued_def)
qed

theorem stream_delivery_in_order_witness:
  "\<exists>recv. dlist (nodes (lib demo_sys)) (recv_queue (lib demo_sys)) recv \<and>
    accepted demo_sys = delivered demo_sys @ map (node_message (lib demo_sys)) (in_transit (pc demo_sys) @ recv) \<and>
    calls demo_sys = concat (map (recv_calls True id) (delivered demo_sys))"
  by (rule stream_delivery_in_order[OF demo_reachable])

text \<open>C17: No operation of the library dereferences a pointer to no live node or runs forever, in
  any state the threads reach.\<close>

theorem stream_operations_defined:
  assumes "stream_reachable phys p2v \<sigma>"
  shows "(unat len \<le> length cmd \<longrightarrow> enqueue_recv_command cmd len (lib \<sigma>) \<noteq> None) \<and>
    dequeue_recv_command (lib \<sigma>) \<noteq> None \<and>
    (pc \<sigma> = Holding q \<longrightarrow> store_release_command q (lib \<sigma>) \<noteq> None) \<and>
    check_release_counter c (lib \<sigma>) \<noteq> None \<and>
    set_release_count c k (lib \<sigma>) \<noteq> None \<and>
    (a \<in> releasing \<sigma> \<longrightarrow> remove_release_command a (lib \<sigma>) \<noteq> None) \<and>
    force_remove_release_command (lib \<sigma>) \<noteq> None"
proof -
  from assms obtain A where "stream_inv phys p2v \<sigma> A" and A: "lib_rep (lib \<sigma>) A" "clean A" and "separated A"
    and rel: "set (a_rel A) = kept \<sigma> \<union> releasing \<sigma>"
    and own: "a_owned A = held_by (pc \<sigma>)" by (rule reachable_rep)
  have "pc \<sigma> = Holding q \<longrightarrow> store_release_command q (lib \<sigma>) \<noteq> None"
  proof
    assume "pc \<sigma> = Holding q"
    with own have "q \<in> a_owned A" by simp
    from store_sim[OF A(1) this] show "store_release_command q (lib \<sigma>) \<noteq> None" by blast
  qed
  moreover have "a \<in> releasing \<sigma> \<longrightarrow> remove_release_command a (lib \<sigma>) \<noteq> None"
  proof
    assume "a \<in> releasing \<sigma>"
    with rel have "a \<in> set (a_rel A)" by blast
    from remove_sim[OF A(1) this] show "remove_release_command a (lib \<sigma>) \<noteq> None" by blast
  qed
  moreover have "unat len \<le> length cmd \<longrightarrow> enqueue_recv_command cmd len (lib \<sigma>) \<noteq> None"
    using enqueue_sim[OF A(1,2), of len cmd] by auto
  moreover have "dequeue_recv_command (lib \<sigma>) \<noteq> None" using dequeue_sim[OF A(1)] by auto
  moreover have "check_release_counter c (lib \<sigma>) \<noteq> None" using check_sim[OF A(1), of c] by auto
  moreover have "set_release_count c k (lib \<sigma>) \<noteq> None" using set_count_sim[OF A(1), of c k] by auto
  moreover have "force_remove_release_command (lib \<sigma>) \<noteq> None" using force_remove_sim[OF A(1)] by auto
  ultimately show ?thesis by blast
qed

theorem stream_operations_defined_witness:
  "enqueue_recv_command [1, 2] 2 (lib demo_sys) \<noteq> None"
  using stream_operations_defined[OF demo_reachable, of 2 "[1, 2]"] by simp

text \<open>What \<open>enqueue_recv_command\<close> returns on each branch and what it does to the lists: a
  command that is too long, a stopped thread and an exhausted pool change nothing; otherwise
  the first pool node goes to the end of the receive queue and carries the command.\<close>

theorem enqueue_result:
  assumes "stream_reachable phys p2v \<sigma>" and "unat len \<le> length cmd"
  shows "\<exists>pool recv s. dlist (nodes (lib \<sigma>)) (stream_pool (lib \<sigma>)) pool \<and>
    dlist (nodes (lib \<sigma>)) (recv_queue (lib \<sigma>)) recv \<and>
    enqueue_recv_command cmd len (lib \<sigma>) = Some
      (if 256 < unat len then -1 else if stop_stream_thread_flag (lib \<sigma>) then 1
       else if pool = [] then -1 else 0, s) \<and>
    (if 256 < unat len \<or> stop_stream_thread_flag (lib \<sigma>) \<or> pool = []
     then dlist (nodes s) (stream_pool s) pool \<and> dlist (nodes s) (recv_queue s) recv
     else dlist (nodes s) (stream_pool s) (tl pool) \<and>
       dlist (nodes s) (recv_queue s) (recv @ [hd pool]) \<and>
       node_message s (hd pool) = command_buffer cmd len)"
proof -
  from reachable_rep[OF assms(1)] obtain A where A: "lib_rep (lib \<sigma>) A" "clean A" "separated A" by blast
  from enqueue_sim[OF A(1,2) assms(2)] obtain s where s:
    "enqueue_recv_command cmd len (lib \<sigma>) = Some (fst (a_enqueue cmd len A), s)"
    "lib_rep s (snd (a_enqueue cmd len A))" by blast
  have d: "dlist (nodes (lib \<sigma>)) (stream_pool (lib \<sigma>)) (a_pool A)"
    "dlist (nodes (lib \<sigma>)) (recv_queue (lib \<sigma>)) (a_recv A)"
    "dlist (nodes s) (stream_pool s) (a_pool (snd (a_enqueue cmd len A)))"
    "dlist (nodes s) (recv_queue s) (a_recv (snd (a_enqueue cmd len A)))"
    using A(1) s(2) by (simp_all add: lib_rep_def)
  have f: "stop_stream_thread_flag (lib \<sigma>) = a_stop A" by (rule lib_rep_control(1)[OF A(1)])
  show ?thesis
  proof (cases "256 < unat len \<or> a_stop A \<or> a_pool A = []")
    case True
    then have "a_enqueue cmd len A = (if 256 < unat len then -1 else if a_stop A then 1 else -1, A)"
      by (auto simp: a_enqueue_def STREAM_COMMAND_MAX_def)
    with True s(1) d f show ?thesis
      by (intro exI[of _ "a_pool A"] exI[of _ "a_recv A"] exI[of _ s]) auto
  next
    case False
    then obtain q qs where q: "a_pool A = q # qs" by (cases "a_pool A") auto
    with False have e: "a_enqueue cmd len A = (0, A\<lparr>a_pool := qs, a_recv := a_recv A @ [q],
        a_data := (a_data A)(q \<mapsto> command_image cmd len)\<rparr>)"
      by (auto simp: a_enqueue_def STREAM_COMMAND_MAX_def)
    have "node_message s q = message_at (snd (a_enqueue cmd len A)) q"
      by (rule node_message_rep[OF s(2)]) (simp add: e parts_def)
    also have "\<dots> = command_buffer cmd len" by (rule message_image) (simp add: e)
    finally show ?thesis
      using False s(1) d f q e
      by (intro exI[of _ "a_pool A"] exI[of _ "a_recv A"] exI[of _ s]) simp
  qed
qed

theorem enqueue_result_witness:
  "\<exists>pool s. dlist (nodes (lib demo_sys)) (stream_pool (lib demo_sys)) pool \<and>
    enqueue_recv_command (replicate 300 7) 300 (lib demo_sys) = Some (-1, s)"
proof -
  have "unat (300 :: u32) = 300" by simp
  with enqueue_result[OF demo_reachable, of 300 "replicate 300 7"] show ?thesis by auto
qed

text \<open>Creating the pool either builds all 128 nodes, all of them in the pool, or fails with -1
  because \<open>malloc\<close> failed; nothing else can happen.\<close>

theorem initialize_builds_pool:
  assumes "malloc_fresh m"
  shows "\<exists>r s pool. initialize_stream_pool m fresh_lib = Some (r, s) \<and>
    dlist (nodes s) (stream_pool s) pool \<and> dom (nodes s) = set pool \<and>
    recv_queue s = None \<and> release_list s = None \<and>
    (if r = 0 then length pool = STREAM_QUEUE_SIZE
     else r = -1 \<and> length pool < STREAM_QUEUE_SIZE \<and> m (nodes s) = None)"
proof -
  from initialize_sim[OF assms fresh_rep] obtain r s A where
    s: "initialize_stream_pool m fresh_lib = Some (r, s)" "lib_rep s A" "a_recv A = []" "a_rel A = []"
      "a_owned A = {}"
    and r: "r = 0 \<and> length (a_pool A) = STREAM_QUEUE_SIZE \<or>
      r = -1 \<and> length (a_pool A) < STREAM_QUEUE_SIZE \<and> m (nodes s) = None"
    by (auto simp: fresh_alib_def)
  have "dlist (nodes s) (stream_pool s) (a_pool A)" "dom (nodes s) = set (a_pool A)"
    "recv_queue s = None" "release_list s = None"
    using s by (simp_all add: lib_rep_def parts_def)
  with s(1) r show ?thesis
    by (intro exI[of _ r] exI[of _ s] exI[of _ "a_pool A"]) auto
qed

theorem initialize_builds_pool_witness:
  "\<exists>r s pool. initialize_stream_pool (\<lambda>_. None) fresh_lib = Some (r, s) \<and>
    dlist (nodes s) (stream_pool s) pool \<and> dom (nodes s) = set pool \<and> recv_queue s = None"
proof -
  have "malloc_fresh (\<lambda>_. None)" by (simp add: malloc_fresh_def)
  from initialize_builds_pool[OF this] show ?thesis by blast
qed

text \<open>\<open>finalize_stream_pool\<close> refuses while commands are queued or not released, and otherwise
  frees every node there is.\<close>

theorem finalize_frees_all:
  assumes "stream_reachable phys p2v \<sigma>" and "held_by (pc \<sigma>) = {}"
  shows "\<exists>s. finalize_stream_pool (lib \<sigma>) = Some
      (if recv_queue (lib \<sigma>) = None \<and> release_list (lib \<sigma>) = None then 0 else -1, s) \<and>
    (if recv_queue (lib \<sigma>) = None \<and> release_list (lib \<sigma>) = None
     then nodes s = Map.empty \<and> stream_pool s = None else s = lib \<sigma>)"
proof -
  from assms(1) obtain A where "stream_inv phys p2v \<sigma> A" and A: "lib_rep (lib \<sigma>) A" and "clean A" "separated A"
    and "set (a_rel A) = kept \<sigma> \<union> releasing \<sigma>"
    and own: "a_owned A = held_by (pc \<sigma>)" by (rule reachable_rep)
  have h: "recv_queue (lib \<sigma>) = None \<longleftrightarrow> a_recv A = []" "release_list (lib \<sigma>) = None \<longleftrightarrow> a_rel A = []"
    using lib_rep_heads(2,3)[OF A] by simp_all
  from finalize_sim[OF A] obtain s where
    s: "finalize_stream_pool (lib \<sigma>) = Some (if a_recv A = [] \<and> a_rel A = [] then 0 else -1, s)"
      "if a_recv A = [] \<and> a_rel A = [] then pool_rep s [] (fold a_free (a_pool A) A) else s = lib \<sigma>" by blast
  have "nodes s = Map.empty \<and> stream_pool s = None" if "a_recv A = [] \<and> a_rel A = []"
  proof -
    from s(2) that have p: "pool_rep s [] (fold a_free (a_pool A) A)" by simp
    then have "dom (nodes s) = {}" using that own assms(2) by (simp add: lib_rep_def parts_def)
    with p show ?thesis by (simp add: lib_rep_def)
  qed
  with s h show ?thesis by auto
qed

theorem finalize_frees_all_witness:
  "\<exists>s. finalize_stream_pool (lib demo_sys) = Some (0, s) \<and> nodes s = Map.empty"
proof -
  have "held_by (pc demo_sys) = {}" by (simp add: demo_sys_def)
  from finalize_frees_all[OF demo_reachable this] demo_lists_empty show ?thesis by auto
qed

text \<open>C33: When the stream thread leaves its loop it waits up to its time limit for the clients to
  release their commands, and then removes nothing, whether the wait succeeded or timed out: a
  command that was never released stays on the release list, and from then on the pool can
  neither be finalized nor initialized again.\<close>

theorem thread_exit_leaves_unreleased:
  assumes "wait_release_list_empty ws s = Some (ret, lib \<tau>)" and "stream_reachable phys p2v \<tau>"
  shows "stream_thread_exit ws s = Some (lib \<tau>) \<and>
    (release_list (lib \<tau>) \<noteq> None \<longrightarrow> ret \<noteq> 0 \<and>
      finalize_stream_pool (lib \<tau>) = Some (-1, lib \<tau>) \<and>
      initialize_stream_pool m (lib \<tau>) = Some (-1, lib \<tau>))"
proof -
  from assms(2) obtain A where "stream_inv phys p2v \<tau> A" and A: "lib_rep (lib \<tau>) A" and "clean A" "separated A"
    and "set (a_rel A) = kept \<tau> \<union> releasing \<tau>"
    and "a_owned A = held_by (pc \<tau>)" by (rule reachable_rep)
  have "stream_thread_exit ws s = Some (lib \<tau>)" by (rule thread_exit_same[OF assms(1) A])
  moreover have "ret \<noteq> 0" if "release_list (lib \<tau>) \<noteq> None"
    using wait_zero_empty[of ws s "lib \<tau>"] assms(1) that by auto
  ultimately show ?thesis
    by (simp add: finalize_stream_pool_def initialize_stream_pool_def)
qed

theorem thread_exit_leaves_unreleased_witness:
  "\<exists>\<tau>. stream_reachable True id \<tau> \<and> release_list (lib \<tau>) \<noteq> None \<and>
    stream_thread_exit [(110, lib \<tau>)] (lib \<tau>) = Some (lib \<tau>) \<and>
    finalize_stream_pool (lib \<tau>) = Some (-1, lib \<tau>)"
proof -
  from demo_handed obtain \<tau> c where t: "stream_reachable True id \<tau>" "c \<in> known \<tau>" by blast
  from t(1) obtain A where "stream_inv True id \<tau> A" and A: "lib_rep (lib \<tau>) A" and "clean A" "separated A"
    and r: "set (a_rel A) = kept \<tau> \<union> releasing \<tau>"
    and "a_owned A = held_by (pc \<tau>)" by (rule reachable_rep)
  have "a_rel A \<noteq> []" using r t(2) by (auto simp: kept_def)
  then have n: "release_list (lib \<tau>) \<noteq> None" using lib_rep_heads(3)[OF A] by simp
  then have "wait_release_list_empty [(110, lib \<tau>)] (lib \<tau>) = Some (110, lib \<tau>)" by simp
  from thread_exit_leaves_unreleased[OF this t(1)] n t(1) show ?thesis by blast
qed

text \<open>C32: Counting down and removing are two critical sections. When two clients release the same
  command at once, both counts can be taken before either removal; both then return 0 and
  both remove the node. After the second removal the release list is the old free pool, and
  the pool hands out the same node twice in a row.\<close>

theorem release_race:
  assumes "stream_reachable phys p2v \<sigma>" and "c \<in> known \<sigma>"
  shows "\<exists>s t u v w. set_release_count c 1 (lib \<sigma>) = Some (0, s) \<and> checks c 2 s = Some ([0, 0], t) \<and>
    remove_release_command c t = Some u \<and> remove_release_command c u = Some v \<and>
    release_list v = stream_pool (lib \<sigma>) \<and>
    pops pop_stream_pool 2 v = Some ([Some c, Some c], w)"
proof -
  from assms(1) obtain A where "stream_inv phys p2v \<sigma> A" and A: "lib_rep (lib \<sigma>) A" and "clean A" "separated A"
    and rel: "set (a_rel A) = kept \<sigma> \<union> releasing \<sigma>"
    and "a_owned A = held_by (pc \<sigma>)" by (rule reachable_rep)
  have c: "c \<in> set (a_rel A)" using rel assms(2) by (simp add: kept_def)
  note d = rel_data[OF A c]
  from set_count_sim[OF A, of c 1] c obtain s where
    s: "set_release_count c 1 (lib \<sigma>) = Some (0, s)" "lib_rep s (a_set_counter c 1 A)" by auto
  have z: "map (\<lambda>i. max 0 (sint (1 - of_nat i :: u32))) [1..<Suc 2] = [0, 0]" by (simp add: upt_rec)
  from checks_sim[OF s(2) c d, of 2] obtain t where
    t: "checks c 2 s = Some ([0, 0], t)" "lib_rep t (a_set_counter c (1 - of_nat 2) A)" unfolding z by blast
  let ?B = "a_set_counter c (1 - of_nat 2) A"
  from remove_sim[OF t(2), of c] c obtain u where
    u: "remove_release_command c t = Some u" "lib_rep u (a_recycle c (?B\<lparr>a_rel := remove1 c (a_rel A)\<rparr>))"
    by auto
  then have "dlist (nodes u) (stream_pool u) (c # a_pool A)" by (simp add: lib_rep_def a_recycle_def)
  from remove_again[OF this] obtain v w where v: "remove_release_command c u = Some v"
    "release_list v = head_of (a_pool A)" "pops pop_stream_pool 2 v = Some ([Some c, Some c], w)" by blast
  with s(1) t(1) u(1) lib_rep_heads(1)[OF A] show ?thesis by auto
qed

theorem release_race_witness:
  "\<exists>\<sigma> c s t u v w. stream_reachable True id \<sigma> \<and> set_release_count c 1 (lib \<sigma>) = Some (0, s) \<and>
    checks c 2 s = Some ([0, 0], t) \<and> remove_release_command c t = Some u \<and>
    remove_release_command c u = Some v \<and> pops pop_stream_pool 2 v = Some ([Some c, Some c], w)"
proof -
  from demo_handed obtain \<sigma> c where s: "stream_reachable True id \<sigma>" "c \<in> known \<sigma>" by blast
  from release_race[OF s] s(1) show ?thesis by blast
qed

text \<open>A command that \<open>recv_stream\<close> does not recognise (a wrong magic code or an unknown
  sub-command) was put on the release list before it was looked at, and no client is told of it:
  whatever the threads do from then on, its node stays on the release list.\<close>

theorem unknown_command_leaks:
  assumes "stream_reachable phys p2v \<sigma>" and "q \<in> orphans \<sigma>" and "stream_steps phys p2v \<sigma> \<tau>"
  shows "\<exists>rel. dlist (nodes (lib \<tau>)) (release_list (lib \<tau>)) rel \<and> q \<in> set rel"
proof -
  from steps_keep[OF assms(3,1)] assms(2) have t: "stream_reachable phys p2v \<tau>" "q \<in> orphans \<tau>" by auto
  from t(1) obtain A where "stream_inv phys p2v \<tau> A" and A: "lib_rep (lib \<tau>) A" and "clean A" "separated A"
    and rel: "set (a_rel A) = kept \<tau> \<union> releasing \<tau>"
    and "a_owned A = held_by (pc \<tau>)" by (rule reachable_rep)
  have "q \<in> set (a_rel A)" using rel t(2) by (simp add: kept_def)
  with A show ?thesis by (auto simp: lib_rep_def)
qed

theorem unknown_command_leaks_witness:
  "\<exists>\<sigma> q rel. stream_reachable True id \<sigma> \<and> q \<in> orphans \<sigma> \<and>
    dlist (nodes (lib \<sigma>)) (release_list (lib \<sigma>)) rel \<and> q \<in> set rel"
proof -
  from demo_orphan obtain \<sigma> q where s: "stream_reachable True id \<sigma>" "q \<in> orphans \<sigma>" by blast
  from unknown_command_leaks[OF s stream_steps.none] s show ?thesis by blast
qed

end
