(* ===== verification/StreamApi.thy ===== *)
theory StreamApi
  imports StreamService
begin

text \<open>
  The entry points of \<open>src/src/sample_library.c\<close>: the three receiver callbacks that the
  driver calls (lines 823 to 962), opening and closing the stream channels (lines 964 to
  1100) and the release functions of the clients (lines 1102 to 1126). The driver
  (\<open>FJ_IPCU_*\<close>, \<open>FJ_MM_phys_to_virt\<close>), the client callbacks, \<open>malloc\<close> and the thread
  functions of the C library are parameters.
\<close>

subsection \<open>Receiver callbacks\<close>

text \<open>
  \<open>cb k m\<close> is what the client callback of stream \<open>k\<close> returns for the command \<open>m\<close>. The first
  translation is the same for meta data and the others: the address is at the same offset.
\<close>

definition translate_address :: "(u32 \<Rightarrow> u32) \<Rightarrow> byte list \<Rightarrow> byte list option" where
  "translate_address p2v m = do {
     a \<leftarrow> load sample_address m;
     store sample_address (p2v a) m
   }"

definition callback_camif ::
  "bool \<Rightarrow> (u32 \<Rightarrow> u32) \<Rightarrow> (stream_kind \<Rightarrow> byte list \<Rightarrow> int) \<Rightarrow> (byte list \<Rightarrow> int) \<Rightarrow>
   byte list \<Rightarrow> (event list \<times> byte list) option" where
  "callback_camif phys p2v cb send m = do {
     m \<leftarrow> (if \<not> phys then translate_address p2v m else Some m);
     magic \<leftarrow> load MagicCode m;
     (if magic = STREAM_MAGIC then do {
        sub \<leftarrow> load Sub_Command m;
        (ret, es, m) \<leftarrow> (case kind_of sub of
            None \<Rightarrow> Some (1, [], m)
          | Some k \<Rightarrow> do {
              m \<leftarrow> (if k = Meta \<and> \<not> phys then translate_address p2v m else Some m);
              Some (cb k m, [Callback k m], m)
            });
        (if ret > 0 then Some (es, m)
         else do { (_, rs) \<leftarrow> release_stream send m; Some (es @ rs, m) })
      } else Some ([], m))
   }"

text \<open>
  The state of the asynchronous callback is the library and the time of its last log line;
  the flag of the result tells whether a line was logged.
\<close>

definition callback_camif_async ::
  "(byte list \<Rightarrow> int) \<Rightarrow> int \<Rightarrow> byte list \<Rightarrow> u32 \<Rightarrow> stream_lib \<times> int \<Rightarrow>
   (event list \<times> bool \<times> stream_lib \<times> int) option" where
  "callback_camif_async send now m len = (\<lambda>(s, last_logt_time). do {
     (r, s) \<leftarrow> enqueue_recv_command m len s;
     (if r \<noteq> 0 then do {
        (_, es) \<leftarrow> release_stream send m;
        (if last_logt_time + 1 < now then Some (es, True, s, now)
         else Some (es, False, s, last_logt_time))
      } else Some ([], False, s, last_logt_time))
   })"

text \<open>
  \<open>callback_simple\<close> wraps the data in a dummy message (\<open>junk\<close> is the uninitialized local
  variable \<open>p\<close>), advances the read pointer of the ring buffer in \<open>mem\<close>, as the callback leaves
  it, to its write pointer, and answers \<open>OK\<close>.
\<close>

definition callback_simple ::
  "(u32 \<Rightarrow> u32) \<Rightarrow> byte list \<Rightarrow> u32 \<Rightarrow> u32 \<Rightarrow> (u32 \<Rightarrow> u32) \<Rightarrow> (event list \<times> (u32 \<Rightarrow> u32)) option" where
  "callback_simple p2v junk pdata len mem = do {
     p \<leftarrow> store sample_size len junk;
     p \<leftarrow> store sample_address pdata p;
     p \<leftarrow> store Sub_Command 0x00000100 p;
     let read_ptr = p2v 0x4FE90048;
     let write_ptr = p2v 0x4FE9004C;
     Some ([Callback Video p, Send [0x4F, 0x4B]], mem(read_ptr := mem write_ptr))
   }"

subsection \<open>Opening and closing the channels\<close>

datatype receiver = callback_camif_async_fn | callback_simple_fn | callback_camif_fn | no_receiver

datatype ipcu_call = Open int | Close byte | SetReceiverCB byte receiver

text \<open>
  The driver's answers: the result and the identifier of opening a channel, and the result
  of setting a receiver. \<open>0\<close> is \<open>FJ_ERR_OK\<close>.
\<close>

record ipcu_driver =
  open_result :: "int \<Rightarrow> int \<times> byte"
  setcb_result :: "byte \<Rightarrow> receiver \<Rightarrow> int"
  close_result :: "byte \<Rightarrow> int"

text \<open>The callbacks of a client, each possibly \<open>NULL\<close>, and \<open>user_data\<close>.\<close>

datatype client_callback = dummy_callback | client_fn nat

record cb_main_func =
  cb_of :: "stream_kind \<Rightarrow> nat option"
  cb_user_data :: nat

record ipcu_param =
  p_sw :: int
  p_phys :: int
  p_chid :: int
  p_ackid :: int

record stream_if =
  if_lib :: stream_lib
  ts_id :: byte
  res_id :: byte
  phys_addr_on :: bool
  func_p :: "stream_kind \<Rightarrow> client_callback"
  func_user_data :: nat

definition channels_of :: "ipcu_param \<Rightarrow> int \<times> int" where
  "channels_of p =
    (if p_chid p = p_ackid p then (6, 7)
     else if (0 > p_chid p \<and> p_chid p > 16) \<or> (0 > p_ackid p \<and> p_ackid p > 16) then (6, 7)
     else (p_chid p, p_ackid p))"

definition install_callbacks :: "cb_main_func \<Rightarrow> stream_if \<Rightarrow> stream_if" where
  "install_callbacks func st =
    st\<lparr>func_p := (\<lambda>k. case cb_of func k of Some f \<Rightarrow> client_fn f | None \<Rightarrow> dummy_callback),
       func_user_data := cb_user_data func\<rparr>"

text \<open>The receiver of the mode \<open>sw\<close>; mode 2 starts the stream thread first.\<close>

definition start_receiver ::
  "ipcu_driver \<Rightarrow> node_malloc \<Rightarrow> int \<times> nat \<Rightarrow> int \<Rightarrow> stream_if \<Rightarrow> (int \<times> ipcu_call list \<times> stream_if) option" where
  "start_receiver drv m create sw st =
    (if sw = 2 then do {
       (ret, s) \<leftarrow> initialize_stream_thread m create (if_lib st);
       let st = st\<lparr>if_lib := s\<rparr>;
       (if ret = 0
        then Some (setcb_result drv (ts_id st) callback_camif_async_fn,
                   [SetReceiverCB (ts_id st) callback_camif_async_fn], st)
        else Some (ret, [], st))
     }
     else if sw = 1 then Some (setcb_result drv (ts_id st) callback_simple_fn,
            [SetReceiverCB (ts_id st) callback_simple_fn], st)
     else Some (setcb_result drv (ts_id st) callback_camif_fn,
            [SetReceiverCB (ts_id st) callback_camif_fn], st))"

definition Stream_ipcu_ch_init ::
  "ipcu_driver \<Rightarrow> node_malloc \<Rightarrow> int \<times> nat \<Rightarrow> cb_main_func option \<Rightarrow> ipcu_param \<Rightarrow> stream_if \<Rightarrow>
   (int \<times> ipcu_call list \<times> stream_if) option" where
  "Stream_ipcu_ch_init drv m create func p st =
    (let (chid, ackid) = channels_of p;
         st = st\<lparr>phys_addr_on := (p_phys p = 1)\<rparr>;
         (ret, id1) = open_result drv chid
     in if ret \<noteq> 0 then Some (-1, [Open chid], st\<lparr>ts_id := id1\<rparr>)
        else let st = st\<lparr>ts_id := id1\<rparr>;
                 (ret, id2) = open_result drv ackid;
                 st = st\<lparr>res_id := id2\<rparr>
        in if ret \<noteq> 0 then Some (-1, [Open chid, Open ackid, Close (ts_id st)], st)
        else do {
          (ret, es, st) \<leftarrow> (case func of
              Some f \<Rightarrow> start_receiver drv m create (p_sw p) (install_callbacks f st)
            | None \<Rightarrow> Some (1, [], st));
          (if ret \<noteq> 0
           then Some (-1, [Open chid, Open ackid] @ es @ [Close (res_id st), Close (ts_id st)], st)
           else Some (0, [Open chid, Open ackid] @ es, st))
        })"

definition Stream_ipcu_ch_close ::
  "ipcu_driver \<Rightarrow> (stream_lib \<Rightarrow> stream_lib) \<Rightarrow> stream_if \<Rightarrow> (int \<times> ipcu_call list \<times> stream_if) option" where
  "Stream_ipcu_ch_close drv join st = do {
     s \<leftarrow> finalize_stream_thread join (if_lib st);
     let st = st\<lparr>if_lib := s\<rparr>;
     let ret = setcb_result drv (ts_id st) no_receiver;
     (if ret \<noteq> 0 then Some (-1, [SetReceiverCB (ts_id st) no_receiver], st)
      else Some (close_result drv (ts_id st),
             [SetReceiverCB (ts_id st) no_receiver, Close (res_id st), Close (ts_id st)], st))
   }"

subsection \<open>Releasing\<close>

definition Stream_release :: "(byte list \<Rightarrow> int) \<Rightarrow> byte list \<Rightarrow> (int \<times> event list) option" where
  "Stream_release send m = release_stream send m"

definition Stream_release_with_queue ::
  "(byte list \<Rightarrow> int) \<Rightarrow> addr \<Rightarrow> stream_lib \<Rightarrow> (int \<times> event list \<times> stream_lib) option" where
  "Stream_release_with_queue send c s = do {
     (ret, queue, s) \<leftarrow> check_release_counter c s;
     (if ret = 0 then do {
        q \<leftarrow> queue;
        n \<leftarrow> nodes s q;
        (ret, es) \<leftarrow> release_stream send (sq_command n);
        s \<leftarrow> remove_release_command q s;
        Some (ret, es, s)
      } else Some (ret, [], s))
   }"

definition Stream_release_set_count :: "addr \<Rightarrow> u32 \<Rightarrow> stream_lib \<Rightarrow> (int \<times> stream_lib) option" where
  "Stream_release_set_count c count s = set_release_count c count s"

subsection \<open>Lemmas\<close>

lemma fields_exist:
  assumes "44 \<le> length m"
  obtains g s t f i e a d where "load MagicCode m = Some g" "load Sub_Command m = Some s"
    "load stype m = Some t" "load sformat m = Some f" "load stream_id m = Some i"
    "load stream_end_flg m = Some e" "load area_index m = Some a" "load sample_address m = Some d"
  using load_some[OF assms] by metis

lemma release_stream_some:
  assumes "44 \<le> length m"
  shows "\<exists>msg. release_stream send m =
    Some (if load MagicCode m = Some STREAM_MAGIC then (send msg, [Send msg]) else (-1, []))"
  by (rule fields_exist[OF assms]) (simp add: release_stream_def Let_def)

lemma translate_some:
  assumes "load sample_address m = Some a"
  shows "\<exists>m'. translate_address p2v m = Some m' \<and> load sample_address m' = Some (p2v a) \<and>
    length m' = length m \<and> (\<forall>f. f \<noteq> sample_address \<longrightarrow> load f m' = load f m)"
proof -
  have "4 * word_index sample_address + 4 \<le> length m" using assms by (simp add: load_def split: if_splits)
  then obtain m' where m': "store sample_address (p2v a) m = Some m'" by (auto simp: store_def)
  show ?thesis
  proof (intro exI[of _ m'] conjI allI impI)
    show "translate_address p2v m = Some m'" using assms m' by (simp add: translate_address_def)
    show "load f m' = load f m" if "f \<noteq> sample_address" for f
      using load_store_other[OF m', of f] that by simp
  qed (use load_store_same[OF m'] length_store[OF m'] in simp_all)
qed

lemma translate_if:
  assumes "load sample_address m = Some a"
  shows "\<exists>m'. (if c then translate_address p2v m else Some m) = Some m' \<and>
    load sample_address m' = Some (if c then p2v a else a) \<and> length m' = length m \<and>
    (\<forall>f. f \<noteq> sample_address \<longrightarrow> load f m' = load f m)"
  using translate_some[OF assms, of p2v] assms by (cases c) auto

lemma image_words:
  assumes "length ws \<le> RELEASE_WORDS"
  shows "map (\<lambda>i. le_word32 (window (4 * i) 4 (release_image ws))) [0..<9] = ws @ replicate (9 - length ws) 0"
proof -
  obtain l where l: "l = ws @ replicate (RELEASE_WORDS - length ws) 0" by blast
  then have "length l = 9" using assms by (simp add: RELEASE_WORDS_def)
  moreover have "release_image ws = concat (map le_bytes32 l)" by (simp only: release_image_def l)
  ultimately have "map (\<lambda>i. le_word32 (window (4 * i) 4 (release_image ws))) [0..<9] = map (\<lambda>i. l ! i) [0..<9]"
    by (intro map_cong refl) (simp add: window_words)
  also have "\<dots> = l" using map_nth[of l] \<open>length l = 9\<close> by simp
  finally show ?thesis by (simp add: l RELEASE_WORDS_def)
qed

text \<open>The identifiers that the calls of a trace opened and closed.\<close>

definition opened :: "ipcu_driver \<Rightarrow> ipcu_call list \<Rightarrow> byte list" where
  "opened drv es = concat (map (\<lambda>e. case e of
     Open ch \<Rightarrow> if fst (open_result drv ch) = 0 then [snd (open_result drv ch)] else [] | _ \<Rightarrow> []) es)"

definition closed :: "ipcu_call list \<Rightarrow> byte list" where
  "closed es = concat (map (\<lambda>e. case e of Close i \<Rightarrow> [i] | _ \<Rightarrow> []) es)"

lemma opened_closed_simps [simp]:
  "opened drv [] = []" "closed [] = []"
  "opened drv (Open ch # es) =
     (if fst (open_result drv ch) = 0 then [snd (open_result drv ch)] else []) @ opened drv es"
  "opened drv (Close i # es) = opened drv es" "opened drv (SetReceiverCB i r # es) = opened drv es"
  "closed (Open ch # es) = closed es" "closed (Close i # es) = i # closed es"
  "closed (SetReceiverCB i r # es) = closed es"
  by (simp_all add: opened_def closed_def)

lemma install_frame [simp]:
  "if_lib (install_callbacks f st) = if_lib st" "ts_id (install_callbacks f st) = ts_id st"
  "res_id (install_callbacks f st) = res_id st"
  by (simp_all add: install_callbacks_def)

definition receiver_of :: "int \<Rightarrow> receiver" where
  "receiver_of sw = (if sw = 2 then callback_camif_async_fn
     else if sw = 1 then callback_simple_fn else callback_camif_fn)"

lemma initialize_thread_some:
  assumes "malloc_fresh m"
  shows "\<exists>ret s. initialize_stream_thread m create fresh_lib = Some (ret, s) \<and>
    (ret = 0 \<longrightarrow> stream_pool s \<noteq> None \<and> stream_thread s = snd create \<and> \<not> stop_stream_thread_flag s)"
proof -
  from initialize_sim[OF assms fresh_rep] obtain r s A where
    s: "initialize_stream_pool m fresh_lib = Some (r, s)" "lib_rep s A"
    and r: "r = 0 \<and> length (a_pool A) = STREAM_QUEUE_SIZE \<or> r = -1"
    by (auto simp: fresh_alib_def)
  have "stream_pool s \<noteq> None" if "r = 0"
    using r that lib_rep_heads(1)[OF s(2)] by (auto simp: STREAM_QUEUE_SIZE_def)
  then show ?thesis
    using s(1) by (auto simp: initialize_stream_thread_def start_stream_thread_def Let_def)
qed

lemma start_receiver_some:
  assumes "malloc_fresh m" and "if_lib st = fresh_lib"
  shows "\<exists>ret es st'. start_receiver drv m create sw st = Some (ret, es, st') \<and>
    ts_id st' = ts_id st \<and> res_id st' = res_id st \<and> opened drv es = [] \<and> closed es = [] \<and>
    (ret = 0 \<longrightarrow> es = [SetReceiverCB (ts_id st) (receiver_of sw)])"
  using initialize_thread_some[OF assms(1), of create] assms(2)
  by (auto simp: start_receiver_def receiver_of_def Let_def)

subsection \<open>Properties\<close>

text \<open>The release of a command sends nine words that the other processor reads back as the
  fields of the command: for a stream its type, format, identifier, end flag and area; for
  meta data its type, identifier and sample address, and two words of zero.\<close>

theorem release_message_layout:
  assumes "44 \<le> length m" and "load MagicCode m = Some STREAM_MAGIC"
  shows "\<exists>msg. release_stream send m = Some (send msg, [Send msg]) \<and> length msg = 36 \<and>
    map (\<lambda>i. le_word32 (window (4 * i) 4 msg)) [0..<9] =
      (if load Sub_Command m = Some 0x10000
       then [0xAAAAFFFF, 1, 0x10100, 0x10000, the (load stype m), the (load stream_id m),
             the (load sample_address m), 0, 0]
       else [0xAAAAFFFF, 1, 0x10100, the (load Sub_Command m), the (load stype m), the (load sformat m),
             the (load stream_id m), the (load stream_end_flg m), the (load area_index m)])"
proof -
  obtain g s t f i e a d where l: "load MagicCode m = Some g" "load Sub_Command m = Some s"
    "load stype m = Some t" "load sformat m = Some f" "load stream_id m = Some i"
    "load stream_end_flg m = Some e" "load area_index m = Some a" "load sample_address m = Some d"
    by (rule fields_exist[OF assms(1)])
  let ?ws = "if s = 0x10000 then [0xAAAAFFFF, 1, 0x10100, 0x10000, t, i, d]
    else [0xAAAAFFFF, 1, 0x10100, s, t, f, i, e, a]"
  have r: "release_stream send m = Some (send (release_image ?ws), [Send (release_image ?ws)])"
    using l assms(2) by (simp add: release_stream_def stream_release_words_def meta_release_words_def Let_def)
  have len: "length ?ws \<le> RELEASE_WORDS" by (simp add: RELEASE_WORDS_def)
  have two: "replicate 2 (0 :: u32) = [0, 0]" by (simp add: numeral_2_eq_2)
  show ?thesis
    using r l length_release_image[OF len] image_words[OF len] two by (cases "s = 0x10000") auto
qed

theorem release_message_layout_witness:
  "\<exists>msg. release_stream (\<lambda>_. 0) video_command = Some (0, [Send msg]) \<and> length msg = 36"
proof -
  have "44 \<le> length video_command" by (simp add: video_command_def)
  moreover have "load MagicCode video_command = Some STREAM_MAGIC"
    by (simp add: load_def window_def video_command_def)
  ultimately show ?thesis using release_message_layout[of video_command "\<lambda>_. 0"] by blast
qed

lemma camif_callback_run:
  assumes "44 \<le> length m"
  shows "\<exists>m' es. callback_camif phys p2v cb send m = Some (es, m') \<and>
    (\<forall>f. f \<noteq> sample_address \<longrightarrow> load f m' = load f m) \<and>
    load sample_address m' = map_option (\<lambda>a. if phys then a
      else if load MagicCode m = Some STREAM_MAGIC \<and> load Sub_Command m = Some 0x10000 then p2v (p2v a)
      else p2v a) (load sample_address m) \<and>
    es = (if load MagicCode m \<noteq> Some STREAM_MAGIC then []
      else case kind_of (the (load Sub_Command m)) of None \<Rightarrow> []
        | Some k \<Rightarrow> Callback k m' # (if cb k m' > 0 then [] else snd (the (release_stream send m'))))"
proof -
  obtain g s a where l: "load MagicCode m = Some g" "load Sub_Command m = Some s"
    "load sample_address m = Some a" by (rule fields_exist[OF assms])
  have k: "kind_of s = Some Meta \<longleftrightarrow> s = 0x10000" by (simp add: kind_of_def)
  obtain m1 where m1: "(if \<not> phys then translate_address p2v m else Some m) = Some m1"
    "load sample_address m1 = Some (if \<not> phys then p2v a else a)" "length m1 = length m"
    "\<forall>f. f \<noteq> sample_address \<longrightarrow> load f m1 = load f m"
    using translate_if[OF l(3)] by blast
  have run: "callback_camif phys p2v cb send m =
     (if g = STREAM_MAGIC then do {
        (ret, es, m) \<leftarrow> (case kind_of s of
            None \<Rightarrow> Some (1, [], m1)
          | Some k \<Rightarrow> do {
              m \<leftarrow> (if k = Meta \<and> \<not> phys then translate_address p2v m1 else Some m1);
              Some (cb k m, [Callback k m], m)
            });
        (if ret > 0 then Some (es, m)
         else do { (_, rs) \<leftarrow> release_stream send m; Some (es @ rs, m) })
      } else Some ([], m1))"
    using m1(4) l by (simp add: callback_camif_def m1(1))
  consider (bad) "g \<noteq> STREAM_MAGIC" | (unknown) "g = STREAM_MAGIC" "kind_of s = None"
    | (known) c where "g = STREAM_MAGIC" "kind_of s = Some c" by (cases "kind_of s") auto
  then show ?thesis
  proof cases
    case bad
    with m1 l show ?thesis by (intro exI[of _ m1] exI[of _ "[]"]) (simp add: run)
  next
    case unknown
    then have "s \<noteq> 0x10000" by (auto simp: kind_of_def)
    with unknown m1 l show ?thesis by (intro exI[of _ m1] exI[of _ "[]"]) (simp add: run)
  next
    case known
    then have c: "c = Meta \<longleftrightarrow> s = 0x10000" using k by auto
    obtain m2 where m2: "(if c = Meta \<and> \<not> phys then translate_address p2v m1 else Some m1) = Some m2"
      "load sample_address m2 = Some (if c = Meta \<and> \<not> phys then p2v (if \<not> phys then p2v a else a)
         else if \<not> phys then p2v a else a)"
      "length m2 = length m1" "\<forall>f. f \<noteq> sample_address \<longrightarrow> load f m2 = load f m1"
      using translate_if[OF m1(2)] by blast
    have len: "44 \<le> length m2" using m2(3) m1(3) assms by simp
    from release_stream_some[OF len, of send] obtain r rs where
      rr: "release_stream send m2 = Some (r, rs)" by (metis surj_pair)
    have e: "callback_camif phys p2v cb send m =
        Some (Callback c m2 # (if cb c m2 > 0 then [] else snd (the (release_stream send m2))), m2)"
      using known rr by (simp add: run m2(1))
    have "load sample_address m2 = Some (if phys then a else if s = 0x10000 then p2v (p2v a) else p2v a)"
      using m2(2) c by simp
    with known m2(4) m1(4) l e show ?thesis by (intro exI[of _ m2] exI conjI) (assumption, simp_all)
  qed
qed

text \<open>\<open>callback_camif\<close> calls the callback of the stream with the command, its sample address
  translated to a virtual one, and releases the command exactly if the callback does not keep it
  (a result of at most 0). A command with another magic code or an unknown sub-command is neither
  passed on nor released. The address of meta data is translated twice.\<close>

theorem camif_callback_releases:
  assumes "44 \<le> length m"
  shows "\<exists>m' es. callback_camif phys p2v cb send m = Some (es, m') \<and>
    (\<forall>f. f \<noteq> sample_address \<longrightarrow> load f m' = load f m) \<and>
    load sample_address m' = map_option (\<lambda>a. if phys then a
      else if load MagicCode m = Some STREAM_MAGIC \<and> load Sub_Command m = Some 0x10000 then p2v (p2v a)
      else p2v a) (load sample_address m) \<and>
    es = (if load MagicCode m \<noteq> Some STREAM_MAGIC then []
      else case kind_of (the (load Sub_Command m)) of None \<Rightarrow> []
        | Some k \<Rightarrow> Callback k m' # (if cb k m' > 0 then [] else snd (the (release_stream send m'))))"
  by (rule camif_callback_run [OF assms])

theorem camif_callback_releases_witness:
  "\<exists>m' es. callback_camif False (\<lambda>a. a + 0x1000) (\<lambda>_ _. 0) (\<lambda>_. 0) video_command = Some (es, m') \<and>
    load sample_address m' = Some 0x1000"
proof -
  have "44 \<le> length video_command" by (simp add: video_command_def)
  moreover have "load sample_address video_command = Some 0" "load Sub_Command video_command = Some 0x100"
    by (simp_all add: load_def window_def video_command_def le_bytes32_def le_word32_def)
  ultimately show ?thesis
    using camif_callback_releases[of video_command False "\<lambda>a. a + 0x1000" "\<lambda>_ _. 0" "\<lambda>_. 0"] by auto
qed



text \<open>A client's release: a command that is not outstanding is refused, one with further
  releases outstanding only counts down, and the last release sends the release message of the
  command once, returns the result of sending it, and puts the node back into the pool even if
  sending failed.\<close>

theorem release_with_queue_result:
  assumes "stream_reachable phys p2v \<sigma>"
  shows "\<exists>rel ret es s. dlist (nodes (lib \<sigma>)) (release_list (lib \<sigma>)) rel \<and>
    Stream_release_with_queue send c (lib \<sigma>) = Some (ret, es, s) \<and>
    (if c \<notin> set rel then ret = -1 \<and> es = [] \<and> dlist (nodes s) (release_list s) rel
     else let k = sint (sq_release_counter (the (nodes (lib \<sigma>) c)) - 1);
              sent = the (release_stream send (node_message (lib \<sigma>) c))
       in if 0 < k then ret = k \<and> es = [] \<and> dlist (nodes s) (release_list s) rel
          else ret = fst sent \<and> es = snd sent \<and> dlist (nodes s) (release_list s) (remove1 c rel) \<and>
            stream_pool s = Some c)"
proof -
  from assms obtain A where "stream_inv phys p2v \<sigma> A" and A: "lib_rep (lib \<sigma>) A" "clean A"
    and "separated A" "set (a_rel A) = kept \<sigma> \<union> releasing \<sigma>" "a_owned A = held_by (pc \<sigma>)"
    by (rule reachable_rep)
  have d: "dlist (nodes (lib \<sigma>)) (release_list (lib \<sigma>)) (a_rel A)" using A(1) by (simp add: lib_rep_def)
  let ?B = "a_set_counter c (counter_of A c - 1) A"
  show ?thesis
  proof (cases "c \<in> set (a_rel A)")
    case False
    with check_sim[OF A(1), of c] obtain s where
      "check_release_counter c (lib \<sigma>) = Some (-1, None, s)" "lib_rep s A" by auto
    then show ?thesis using d False
      by (intro exI[of _ "a_rel A"] exI[of _ "-1"] exI[of _ "[]"] exI[of _ s])
        (simp add: Stream_release_with_queue_def lib_rep_def)
  next
    case True
    with check_sim[OF A(1), of c] obtain s where
      s: "check_release_counter c (lib \<sigma>) = Some (max 0 (sint (counter_of A c - 1)), Some c, s)" "lib_rep s ?B" by auto
    have cp: "c \<in> parts A" "c \<in> parts ?B" using True by (simp_all add: parts_def)
    obtain n0 where n0: "nodes (lib \<sigma>) c = Some n0" using lib_rep_alive[OF A(1) cp(1)] by blast
    have a: "a_data A c = Some (payload n0)" by (rule lib_rep_data[OF A(1) n0])
    then have cnt: "counter_of A c = sq_release_counter n0" by (simp add: counter_of_def payload_def)
    obtain n where n: "nodes s c = Some n" using lib_rep_alive[OF s(2) cp(2)] by blast
    have cmd: "sq_command n = node_message (lib \<sigma>) c"
      using lib_rep_data[OF s(2) n] a n0
      by (simp add: a_set_counter_def with_counter_def payload_def node_message_def)
    have len: "44 \<le> length (sq_command n)"
      using clean_at[OF A(2), of c] a n0 cmd
      by (simp add: payload_def node_message_def STREAM_COMMAND_MAX_def)
    show ?thesis
    proof (cases "0 < sint (counter_of A c - 1)")
      case pos: True
      have "dlist (nodes s) (release_list s) (a_rel A)" using s(2) by (simp add: lib_rep_def)
      with pos s(1) True d n0 cnt show ?thesis
        by (intro exI[of _ "a_rel A"] exI[of _ "sint (counter_of A c - 1)"] exI[of _ "[]"] exI[of _ s])
          (simp add: Stream_release_with_queue_def Let_def)
    next
      case last: False
      have cB: "c \<in> set (a_rel ?B)" using True by simp
      from remove_sim[OF s(2) cB] obtain t where t: "remove_release_command c s = Some t"
        "lib_rep t (a_recycle c (?B\<lparr>a_rel := remove1 c (a_rel ?B)\<rparr>))" by blast
      from release_stream_some[OF len, of send] obtain r es where
        r: "release_stream send (sq_command n) = Some (r, es)" by (metis surj_pair)
      have "dlist (nodes t) (release_list t) (remove1 c (a_rel A))" "stream_pool t = Some c"
        using t(2) lib_rep_heads(1)[OF t(2)] by (simp_all add: lib_rep_def a_recycle_def)
      moreover have "Stream_release_with_queue send c (lib \<sigma>) = Some (r, es, t)"
        using s(1) last n r t(1) by (simp add: Stream_release_with_queue_def)
      ultimately show ?thesis using True d n0 cnt last r cmd
        by (intro exI[of _ "a_rel A"] exI[of _ r] exI[of _ es] exI[of _ t]) (simp add: Let_def)
    qed
  qed
qed

theorem release_with_queue_result_witness:
  "\<exists>\<sigma> c ret es s. stream_reachable True id \<sigma> \<and> c \<in> known \<sigma> \<and>
    Stream_release_with_queue (\<lambda>_. 0) c (lib \<sigma>) = Some (ret, es, s)"
proof -
  from demo_handed obtain \<sigma> c where s: "stream_reachable True id \<sigma>" "c \<in> known \<sigma>" by blast
  from release_with_queue_result[OF s(1), of "\<lambda>_. 0" c] s show ?thesis by blast
qed

text \<open>A client that releases one command \<open>n\<close> times: what the calls return and send.\<close>

fun queue_releases ::
  "(byte list \<Rightarrow> int) \<Rightarrow> addr \<Rightarrow> nat \<Rightarrow> stream_lib \<Rightarrow> (int list \<times> event list \<times> stream_lib) option" where
  "queue_releases send c 0 s = Some ([], [], s)"
| "queue_releases send c (Suc n) s = do {
     (r, es, s) \<leftarrow> Stream_release_with_queue send c s;
     (rs, fs, s) \<leftarrow> queue_releases send c n s;
     Some (r # rs, es @ fs, s)
   }"

lemma sint_of_nat: "n < 2 ^ 31 \<Longrightarrow> sint (of_nat n :: u32) = int n"
  by (transfer, simp add: signed_take_bit_int_eq_self)

lemma queue_releases_sim:
  "lib_rep s (a_set_counter c (of_nat (Suc n)) A) \<Longrightarrow> c \<in> set (a_rel A) \<Longrightarrow> a_data A c \<noteq> None \<Longrightarrow>
    Suc n < 2 ^ 31 \<Longrightarrow> m \<le> n \<Longrightarrow>
    \<exists>s'. queue_releases send c m s = Some (map (\<lambda>i. int (n - i)) [0..<m], [], s') \<and>
      lib_rep s' (a_set_counter c (of_nat (Suc n - m)) A)"
proof (induction m arbitrary: s n)
  case 0
  then show ?case by auto
next
  case (Suc m)
  then obtain n' where n: "n = Suc n'" by (cases n) auto
  have k: "of_nat (Suc n) - 1 = (of_nat (Suc n') :: u32)" by (simp add: n)
  have pos: "sint (of_nat (Suc n') :: u32) = int n"
    using Suc.prems(4) sint_of_nat [of "Suc n'"] by (simp add: n)
  from check_sim[OF Suc.prems(1), of c] Suc.prems(2,3) k obtain t where
    t: "check_release_counter c s = Some (max 0 (sint (of_nat (Suc n') :: u32)), Some c, t)"
      "lib_rep t (a_set_counter c (of_nat (Suc n')) A)" by auto
  have one: "Stream_release_with_queue send c s = Some (int n, [], t)"
    using t(1) pos by (simp add: Stream_release_with_queue_def n)
  from Suc.IH[OF t(2) Suc.prems(2,3)] Suc.prems(4,5) obtain u where
    u: "queue_releases send c m t = Some (map (\<lambda>i. int (n' - i)) [0..<m], [], u)"
      "lib_rep u (a_set_counter c (of_nat (Suc n' - m)) A)" by (auto simp: n)
  have "map (\<lambda>i. int (n - i)) [0..<Suc m] = int n # map (\<lambda>i. int (n' - i)) [0..<m]"
    by (simp add: map_upt_Suc n del: upt_Suc)
  with one u show ?case by (simp add: n del: upt_Suc)
qed

lemma queue_releases_snoc:
  "queue_releases send c (Suc n) s =
    (case queue_releases send c n s of None \<Rightarrow> None | Some (rs, es, t) \<Rightarrow>
      (case Stream_release_with_queue send c t of None \<Rightarrow> None | Some (r, fs, u) \<Rightarrow> Some (rs @ [r], es @ fs, u)))"
proof (induction n arbitrary: s)
  case 0
  then show ?case by (auto split: option.split bind_split)
next
  case (Suc n)
  show ?case
    by (subst queue_releases.simps(2), subst Suc.IH) (auto split: option.split bind_splits)
qed

lemma last_release:
  assumes rep: "lib_rep s A" "clean A" and t: "lib_rep t (a_set_counter c 1 A)" and c: "c \<in> set (a_rel A)"
  obtains msg u where "release_stream send (node_message s c) = Some
      (if load MagicCode (node_message s c) = Some STREAM_MAGIC then (send msg, [Send msg]) else (- 1, []))"
    "Stream_release_with_queue send c t = Some (fst (the (release_stream send (node_message s c))),
      snd (the (release_stream send (node_message s c))), u)"
    "lib_rep u (a_recycle c ((a_set_counter c 0 A)\<lparr>a_rel := remove1 c (a_rel A)\<rparr>))"
proof -
  let ?B = "a_set_counter c 0 A"
  from check_sim[OF t, of c] c rel_data[OF rep(1) c] obtain v where
    v: "check_release_counter c t = Some (0, Some c, v)" "lib_rep v ?B" by auto
  obtain n0 where n0: "nodes s c = Some n0"
    using lib_rep_alive[OF rep(1), of c] c by (auto simp: parts_def)
  obtain nv where nv: "nodes v c = Some nv"
    using lib_rep_alive[OF v(2), of c] c by (auto simp: parts_def)
  have cmd: "sq_command nv = node_message s c"
    using lib_rep_data[OF v(2) nv] lib_rep_data[OF rep(1) n0] n0
    by (simp add: a_set_counter_def with_counter_def payload_def node_message_def)
  have len: "44 \<le> length (node_message s c)"
    using clean_at[OF rep(2), of c] lib_rep_data[OF rep(1) n0] n0
    by (simp add: payload_def node_message_def STREAM_COMMAND_MAX_def)
  from release_stream_some[OF len, of send] obtain msg where
    msg: "release_stream send (node_message s c) = Some
      (if load MagicCode (node_message s c) = Some STREAM_MAGIC then (send msg, [Send msg]) else (- 1, []))" by blast
  from remove_sim[OF v(2), of c] c obtain u where
    u: "remove_release_command c v = Some u" "lib_rep u (a_recycle c (?B\<lparr>a_rel := remove1 c (a_rel A)\<rparr>))" by auto
  from that [OF msg _ u(2)] v(1) nv cmd u(1) msg show thesis by (simp add: Stream_release_with_queue_def)
qed

text \<open>C22: A command that several clients share. After its counter is set to \<open>n + 1\<close> (a positive \<open>int\<close>),
  the first \<open>n\<close> releases return the number of those still outstanding, \<open>n\<close> down to 1; none of them sends
  anything, and after each of them the command is on the release list and the pool has not changed. Release
  \<open>n + 1\<close> sends the release message of the command once (nothing if the client has overwritten
  its magic code) and returns the result of sending; after it the node is the first of the pool
  and off the release list, whose other commands keep their places.\<close>

theorem release_counted:
  assumes "stream_reachable phys p2v \<sigma>" and "c \<in> known \<sigma>" and "Suc n < 2 ^ 31"
  shows "\<exists>rel pool s u msg. dlist (nodes (lib \<sigma>)) (release_list (lib \<sigma>)) rel \<and> c \<in> set rel \<and>
    dlist (nodes (lib \<sigma>)) (stream_pool (lib \<sigma>)) pool \<and>
    Stream_release_set_count c (of_nat (Suc n)) (lib \<sigma>) = Some (0, s) \<and>
    (\<forall>m\<le>n. \<exists>t. queue_releases send c m s = Some (map (\<lambda>i. int (n - i)) [0..<m], [], t) \<and>
      dlist (nodes t) (release_list t) rel \<and> dlist (nodes t) (stream_pool t) pool) \<and>
    release_stream send (node_message (lib \<sigma>) c) =
      Some (if load MagicCode (node_message (lib \<sigma>) c) = Some STREAM_MAGIC then (send msg, [Send msg]) else (- 1, [])) \<and>
    queue_releases send c (Suc n) s =
      (if load MagicCode (node_message (lib \<sigma>) c) = Some STREAM_MAGIC
       then Some (map (\<lambda>i. int (n - i)) [0..<n] @ [send msg], [Send msg], u)
       else Some (map (\<lambda>i. int (n - i)) [0..<n] @ [- 1], [], u)) \<and>
    dlist (nodes u) (release_list u) (remove1 c rel) \<and> dlist (nodes u) (stream_pool u) (c # pool)"
proof -
  from assms(1) obtain A where "stream_inv phys p2v \<sigma> A" and A: "lib_rep (lib \<sigma>) A" "clean A"
    and "separated A" and rel: "set (a_rel A) = kept \<sigma> \<union> releasing \<sigma>" and "a_owned A = held_by (pc \<sigma>)"
    by (rule reachable_rep)
  have c: "c \<in> set (a_rel A)" using rel assms(2) by (simp add: kept_def)
  note d = rel_data[OF A(1) c]
  from set_count_sim[OF A(1), of c "of_nat (Suc n)"] c obtain s where
    s: "set_release_count c (of_nat (Suc n)) (lib \<sigma>) = Some (0, s)" "lib_rep s (a_set_counter c (of_nat (Suc n)) A)"
    by auto
  have some: "\<exists>t. queue_releases send c m s = Some (map (\<lambda>i. int (n - i)) [0..<m], [], t) \<and>
      lib_rep t (a_set_counter c (of_nat (Suc n - m)) A)" if "m \<le> n" for m
    using queue_releases_sim[OF s(2) c d assms(3) that] .
  then obtain t where t: "queue_releases send c n s = Some (map (\<lambda>i. int (n - i)) [0..<n], [], t)"
    "lib_rep t (a_set_counter c 1 A)" by (metis Suc_diff_le diff_self_eq_0 of_nat_1 One_nat_def order_refl)
  from last_release[OF A t(2) c, of send] obtain msg u where
    msg: "release_stream send (node_message (lib \<sigma>) c) = Some
      (if load MagicCode (node_message (lib \<sigma>) c) = Some STREAM_MAGIC then (send msg, [Send msg]) else (- 1, []))"
    and final: "Stream_release_with_queue send c t = Some (fst (the (release_stream send (node_message (lib \<sigma>) c))),
      snd (the (release_stream send (node_message (lib \<sigma>) c))), u)"
    and u: "lib_rep u (a_recycle c ((a_set_counter c 0 A)\<lparr>a_rel := remove1 c (a_rel A)\<rparr>))" by blast
  let ?ok = "load MagicCode (node_message (lib \<sigma>) c) = Some STREAM_MAGIC"
  have all: "queue_releases send c (Suc n) s =
      (if ?ok then Some (map (\<lambda>i. int (n - i)) [0..<n] @ [send msg], [Send msg], u)
       else Some (map (\<lambda>i. int (n - i)) [0..<n] @ [- 1], [], u))"
    using final unfolding queue_releases_snoc t(1) msg by simp
  have lists: "dlist (nodes w) (release_list w) (a_rel B)" "dlist (nodes w) (stream_pool w) (a_pool B)"
    if "lib_rep w B" for w B using that by (simp_all add: lib_rep_def)
  have mid: "\<forall>m\<le>n. \<exists>t. queue_releases send c m s = Some (map (\<lambda>i. int (n - i)) [0..<m], [], t) \<and>
      dlist (nodes t) (release_list t) (a_rel A) \<and> dlist (nodes t) (stream_pool t) (a_pool A)"
    using some lists by fastforce
  have set: "Stream_release_set_count c (of_nat (Suc n)) (lib \<sigma>) = Some (0, s)"
    using s(1) by (simp add: Stream_release_set_count_def)
  have ends: "dlist (nodes u) (release_list u) (remove1 c (a_rel A))" "dlist (nodes u) (stream_pool u) (c # a_pool A)"
    using lists [OF u] by (simp_all add: a_recycle_def)
  show ?thesis
    by (intro exI[of _ "a_rel A"] exI[of _ "a_pool A"] exI[of _ s] exI[of _ u] exI[of _ msg] conjI)
      (rule lists [OF A(1)] c set mid msg all ends)+
qed

text \<open>A frame that two clients share.\<close>

theorem release_counted_witness:
  "\<exists>\<sigma> c s t. stream_reachable True id \<sigma> \<and> c \<in> known \<sigma> \<and> Stream_release_set_count c 2 (lib \<sigma>) = Some (0, s) \<and>
    queue_releases (\<lambda>_. 0) c 1 s = Some ([1], [], t)"
proof -
  from demo_handed obtain \<sigma> c where s: "stream_reachable True id \<sigma>" "c \<in> known \<sigma>" by blast
  have "Suc 1 < 2 ^ 31" by simp
  from release_counted[OF s this, of "\<lambda>_. 0"] obtain s' where
    "Stream_release_set_count c (of_nat (Suc 1)) (lib \<sigma>) = Some (0, s')"
    "\<forall>m\<le>1. \<exists>t. queue_releases (\<lambda>_. 0) c m s' = Some (map (\<lambda>i. int (1 - i)) [0..<m], [], t)" by blast
  moreover have "(of_nat (Suc 1) :: u32) = 2" by simp
  ultimately have "Stream_release_set_count c 2 (lib \<sigma>) = Some (0, s')"
    "\<exists>t. queue_releases (\<lambda>_. 0) c 1 s' = Some (map (\<lambda>i. int (1 - i)) [0..<1], [], t)" by (metis, blast)
  moreover have "map (\<lambda>i. int (1 - i)) [0..<1] = [1]" by simp
  ultimately show ?thesis using s by metis
qed

text \<open>C38: Opening the stream channels either succeeds with both channels open, the receiver of the
  requested mode set and no callback missing, or it returns -1 and has closed every channel it
  opened. The channel numbers are the client's, unless they are equal, in which case they are
  6 and 7; no range is checked.\<close>

theorem ch_init_balanced:
  assumes "malloc_fresh m" and "if_lib st = fresh_lib"
  shows "\<exists>ret es st'. Stream_ipcu_ch_init drv m create func p st = Some (ret, es, st') \<and>
    (let (chid, ackid) = (if p_chid p = p_ackid p then (6, 7) else (p_chid p, p_ackid p))
     in if ret = 0
        then es = [Open chid, Open ackid, SetReceiverCB (ts_id st') (receiver_of (p_sw p))] \<and>
          ts_id st' = snd (open_result drv chid) \<and> res_id st' = snd (open_result drv ackid) \<and>
          opened drv es = [ts_id st', res_id st']
        else ret = -1 \<and> closed es = rev (opened drv es))"
proof -
  have "channels_of p = (if p_chid p = p_ackid p then (6, 7) else (p_chid p, p_ackid p))"
    by (auto simp: channels_of_def)
  then obtain chid ackid where ch: "channels_of p = (chid, ackid)"
    "(if p_chid p = p_ackid p then (6, 7) else (p_chid p, p_ackid p)) = (chid, ackid)"
    by (metis surj_pair)
  obtain r1 i1 r2 i2 where o: "open_result drv chid = (r1, i1)" "open_result drv ackid = (r2, i2)"
    by (metis surj_pair)
  let ?st = "st\<lparr>phys_addr_on := (p_phys p = 1), ts_id := i1, res_id := i2\<rparr>"
  have some: "\<exists>ret es st'. (case func of
        Some f \<Rightarrow> start_receiver drv m create (p_sw p) (install_callbacks f ?st)
      | None \<Rightarrow> Some (1, [], ?st)) = Some (ret, es, st') \<and>
    ts_id st' = i1 \<and> res_id st' = i2 \<and> opened drv es = [] \<and> closed es = [] \<and>
    (ret = 0 \<longrightarrow> es = [SetReceiverCB i1 (receiver_of (p_sw p))])"
  proof (cases func)
    case (Some f)
    from start_receiver_some[OF assms(1), of "install_callbacks f ?st" drv create "p_sw p"] assms(2) Some
    show ?thesis by auto
  qed simp
  then obtain ret es st' where r: "(case func of
        Some f \<Rightarrow> start_receiver drv m create (p_sw p) (install_callbacks f ?st)
      | None \<Rightarrow> Some (1, [], ?st)) = Some (ret, es, st')"
    "ts_id st' = i1" "res_id st' = i2" "opened drv es = []" "closed es = []"
    "ret = 0 \<longrightarrow> es = [SetReceiverCB i1 (receiver_of (p_sw p))]" by blast
  have app: "opened drv (es @ fs) = opened drv es @ opened drv fs" "closed (es @ fs) = closed es @ closed fs" for es fs
    by (simp_all add: opened_def closed_def)
  consider "r1 \<noteq> 0" | "r1 = 0" "r2 \<noteq> 0" | "r1 = 0" "r2 = 0" "ret \<noteq> 0" | "r1 = 0" "r2 = 0" "ret = 0" by blast
  then show ?thesis
    by cases (use r in \<open>auto simp: Stream_ipcu_ch_init_def ch o app\<close>)
qed

theorem ch_init_balanced_witness:
  "\<exists>ret es st'. Stream_ipcu_ch_init \<lparr>open_result = (\<lambda>ch. if ch = 99 then (0, 3) else (1, 0)),
      setcb_result = (\<lambda>_ _. 0), close_result = (\<lambda>_. 0)\<rparr> (\<lambda>_. None) (0, 1) None
      \<lparr>p_sw = 2, p_phys = 0, p_chid = 99, p_ackid = 5\<rparr>
      \<lparr>if_lib = fresh_lib, ts_id = 0, res_id = 0, phys_addr_on = False,
        func_p = (\<lambda>_. dummy_callback), func_user_data = 0\<rparr> = Some (ret, es, st')"
proof -
  have "malloc_fresh (\<lambda>_. None)" by (simp add: malloc_fresh_def)
  moreover have "if_lib \<lparr>if_lib = fresh_lib, ts_id = 0, res_id = 0, phys_addr_on = False,
      func_p = (\<lambda>_. dummy_callback), func_user_data = 0\<rparr> = fresh_lib" by simp
  ultimately show ?thesis using ch_init_balanced by blast
qed

text \<open>When the asynchronous mode cannot set its receiver, opening fails and the channels are
  closed, but the stream thread keeps running on its pool, and every later attempt to open
  the channels in that mode fails.\<close>

theorem ch_init_leaves_thread:
  assumes "malloc_fresh m" and "if_lib st = fresh_lib" and "p_sw p = 2" and "fst create = 0"
    and "initialize_stream_pool m fresh_lib = Some (0, s)"
    and "\<And>ch. fst (open_result drv ch) = 0" and "\<And>i r. setcb_result drv i r \<noteq> 0"
  shows "\<exists>es st'. Stream_ipcu_ch_init drv m create (Some f) p st = Some (-1, es, st') \<and>
    stream_thread (if_lib st') = snd create \<and> \<not> stop_stream_thread_flag (if_lib st') \<and>
    (\<forall>drv' m' create' f'. \<exists>es' st''. Stream_ipcu_ch_init drv' m' create' (Some f') p st' = Some (-1, es', st''))"
proof -
  obtain chid ackid where ch: "channels_of p = (chid, ackid)" by (metis surj_pair)
  from initialize_thread_some[OF assms(1), of create] assms(4,5) obtain t where
    t: "initialize_stream_thread m create fresh_lib = Some (0, t)" "stream_pool t \<noteq> None"
      "stream_thread t = snd create" "\<not> stop_stream_thread_flag t"
    by (auto simp: initialize_stream_thread_def start_stream_thread_def)
  obtain i1 i2 where o: "open_result drv chid = (0, i1)" "open_result drv ackid = (0, i2)"
    using assms(6) by (metis prod.collapse)
  have again: "initialize_stream_thread m' create' t = Some (-1, t)" for m' create'
    using t(2) by (simp add: initialize_stream_thread_def initialize_stream_pool_def)
  have "\<exists>es st'. Stream_ipcu_ch_init drv m create (Some f) p st = Some (-1, es, st') \<and> if_lib st' = t"
    using assms(2,3,7) t(1) by (simp add: Stream_ipcu_ch_init_def ch o start_receiver_def Let_def)
  then obtain es st' where st': "Stream_ipcu_ch_init drv m create (Some f) p st = Some (-1, es, st')"
    "if_lib st' = t" by blast
  have "\<exists>es' st''. Stream_ipcu_ch_init drv' m' create' (Some f') p st' = Some (-1, es', st'')"
    for drv' m' create' f'
  proof -
    obtain r1 j1 r2 j2 where "open_result drv' chid = (r1, j1)" "open_result drv' ackid = (r2, j2)"
      by (metis surj_pair)
    then show ?thesis
      using st'(2) assms(3) again by (simp add: Stream_ipcu_ch_init_def ch start_receiver_def Let_def)
  qed
  with st' t show ?thesis by blast
qed

theorem ch_init_leaves_thread_witness:
  "\<exists>es st'. Stream_ipcu_ch_init \<lparr>open_result = (\<lambda>ch. (0, 3)), setcb_result = (\<lambda>_ _. 1), close_result = (\<lambda>_. 0)\<rparr>
      low_malloc (0, 1) (Some \<lparr>cb_of = (\<lambda>_. None), cb_user_data = 0\<rparr>)
      \<lparr>p_sw = 2, p_phys = 0, p_chid = 9, p_ackid = 5\<rparr>
      \<lparr>if_lib = fresh_lib, ts_id = 0, res_id = 0, phys_addr_on = False,
        func_p = (\<lambda>_. dummy_callback), func_user_data = 0\<rparr> = Some (-1, es, st') \<and>
    stream_thread (if_lib st') = 1"
proof -
  from demo_pool obtain s where "initialize_stream_pool low_malloc fresh_lib = Some (0, s)" by blast
  from ch_init_leaves_thread[OF low_malloc_fresh _ _ _ this,
      of "\<lparr>if_lib = fresh_lib, ts_id = 0, res_id = 0, phys_addr_on = False,
        func_p = (\<lambda>_. dummy_callback), func_user_data = 0\<rparr>"
        "\<lparr>p_sw = 2, p_phys = 0, p_chid = 9, p_ackid = 5\<rparr>" "(0, 1)"
        "\<lparr>open_result = (\<lambda>ch. (0, 3)), setcb_result = (\<lambda>_ _. 1), close_result = (\<lambda>_. 0)\<rparr>"
        "\<lparr>cb_of = (\<lambda>_. None), cb_user_data = 0\<rparr>"]
  show ?thesis by auto
qed

end
