(* ===== verification/CameraIf.thy ===== *)
theory CameraIf
  imports StreamMessage "HOL-Library.Multiset"
begin

text \<open>
  The command interface to the camera processor (\<open>src/src/sample_library.c\<close>, lines 1128 to
  1319) and \<open>rtos_cmd\<close> of \<open>src/src/ipcu_stream.c\<close>: a request is sent on one channel and the
  answer, received by a callback of the driver, wakes the sender through a semaphore. The
  driver and what it delivers before the wait ends are parameters.
\<close>

subsection \<open>Data\<close>

definition D_CPU_IF_MCODE_COMMAND_REQ :: u32 where "D_CPU_IF_MCODE_COMMAND_REQ = 0x5555AAAA"
definition D_CPU_IF_MCODE_COOMNAD_ACK :: u32 where "D_CPU_IF_MCODE_COOMNAD_ACK = 0x6666BBBB"
definition D_CPU_IF_COM_FORMAT_VERSION :: u32 where "D_CPU_IF_COM_FORMAT_VERSION = 0x00000001"
definition D_CONTINUE :: u32 where "D_CONTINUE = 1"

datatype E_CAMERA_IF_RES_CODE = RES_CODE_OK | RES_CODE_ERROR | RES_CODE_NOTSUPPORT | RES_CODE_OTHER u32

text \<open>The four words of a \<open>ULONG[4]\<close>.\<close>

type_synonym params = "u32 \<times> u32 \<times> u32 \<times> u32"

record camera_if_return =
  ret_res :: E_CAMERA_IF_RES_CODE
  ret_code :: u32
  ret_param :: params

record camera_if_cmd =
  ci_cmd_set :: u32
  ci_cmd :: u32
  send_param :: params
  recv_param :: params
  to_sec :: u32
  dec_pos :: u32
  exp_time :: u32

text \<open>The static variables of the interface; \<open>cb_sem\<close> is the value of the semaphore.\<close>

record camera_if =
  current_cmd_set :: u32
  current_cmd :: u32
  cmd_send_id :: byte
  cmd_rcv_id :: byte
  cmd_ret_value :: camera_if_return
  cb_sem :: nat

definition no_return :: camera_if_return where
  "no_return = \<lparr>ret_res = RES_CODE_OK, ret_code = 0, ret_param = (0, 0, 0, 0)\<rparr>"

definition res_code :: "u32 \<Rightarrow> E_CAMERA_IF_RES_CODE" where
  "res_code w = (if w = 0 then RES_CODE_OK else if w = 1 then RES_CODE_ERROR
     else if w = 2 then RES_CODE_NOTSUPPORT else RES_CODE_OTHER w)"

text \<open>Requests and acknowledges are ten words; \<open>words_of\<close> reads them from memory.\<close>

definition ACK_SIZE :: nat where "ACK_SIZE = 40"

definition words_of :: "byte list \<Rightarrow> u32 list" where
  "words_of m = map (\<lambda>i. le_word32 (window (4 * i) 4 m)) [0..<10]"

definition request_image :: "camera_if_cmd \<Rightarrow> byte list" where
  "request_image c = (case send_param c of (p1, p2, p3, p4) \<Rightarrow>
     concat (map le_bytes32 [D_CPU_IF_MCODE_COMMAND_REQ, D_CPU_IF_COM_FORMAT_VERSION,
       ci_cmd_set c, ci_cmd c, p1, p2, p3, p4, dec_pos c, exp_time c]))"

text \<open>One call of the receiver callback: identifier, memory at \<open>pdata\<close>, length, flags.\<close>

record response =
  rsp_id :: byte
  rsp_data :: "byte list"
  rsp_length :: u32
  rsp_cont :: u32
  rsp_total :: u32

text \<open>
  The driver: results of opening a mailbox, setting the receiver and sending, and what
  \<open>sem_timedwait\<close> returns when nothing posts the semaphore (-1 with \<open>errno\<close> set).
\<close>

record cam_driver =
  cam_open :: "int \<Rightarrow> int \<times> byte"
  cam_setcb :: int
  cam_send :: "byte list \<Rightarrow> int"
  cam_wait :: int

datatype cam_call = CamOpen int | CamClose byte | CamSetCB byte | CamSend byte "byte list"

subsection \<open>The receiver callback\<close>

definition camera_if_cmd_rcv_callback :: "response \<Rightarrow> camera_if \<Rightarrow> camera_if option" where
  "camera_if_cmd_rcv_callback r st =
    (if cmd_rcv_id st \<noteq> rsp_id r \<or> unat (rsp_length r) \<noteq> ACK_SIZE \<or>
        rsp_length r \<noteq> rsp_total r \<or> rsp_cont r = D_CONTINUE
     then Some (st\<lparr>cmd_ret_value := (cmd_ret_value st)\<lparr>ret_res := RES_CODE_ERROR\<rparr>,
                   cb_sem := Suc (cb_sem st)\<rparr>)
     else if length (rsp_data r) < ACK_SIZE then None
     else (let w = words_of (rsp_data r) in
       if w ! 0 \<noteq> D_CPU_IF_MCODE_COOMNAD_ACK \<or> w ! 1 \<noteq> D_CPU_IF_COM_FORMAT_VERSION \<or>
          w ! 2 \<noteq> current_cmd_set st \<or> w ! 3 \<noteq> current_cmd st
       then Some (st\<lparr>cmd_ret_value := (cmd_ret_value st)\<lparr>ret_res := RES_CODE_ERROR\<rparr>,
                     cb_sem := Suc (cb_sem st)\<rparr>)
       else Some (st\<lparr>cmd_ret_value := \<lparr>ret_res = res_code (w ! 4), ret_code = w ! 5,
                     ret_param = (w ! 4, w ! 5, w ! 6, w ! 7)\<rparr>, cb_sem := Suc (cb_sem st)\<rparr>)))"

fun deliver :: "response list \<Rightarrow> camera_if \<Rightarrow> camera_if option" where
  "deliver [] st = Some st"
| "deliver (r # rs) st = do { st \<leftarrow> camera_if_cmd_rcv_callback r st; deliver rs st }"

subsection \<open>Opening and closing\<close>

definition camera_if_ipcu_ch_open :: "cam_driver \<Rightarrow> camera_if \<Rightarrow> int \<times> cam_call list \<times> camera_if" where
  "camera_if_ipcu_ch_open drv st =
    (let (ret, id) = cam_open drv 1; st = st\<lparr>cmd_send_id := id\<rparr>
     in if ret \<noteq> 0 then (-1, [CamOpen 1], st\<lparr>cmd_send_id := 0xFF\<rparr>)
     else let (ret, id) = cam_open drv 0; st = st\<lparr>cmd_rcv_id := id\<rparr>
     in if ret \<noteq> 0
        then (-1, [CamOpen 1, CamOpen 0, CamClose (cmd_send_id st)],
              st\<lparr>cmd_rcv_id := 0xFF, cmd_send_id := 0xFF\<rparr>)
     else if cam_setcb drv \<noteq> 0
        then (-1, [CamOpen 1, CamOpen 0, CamSetCB (cmd_rcv_id st), CamClose (cmd_rcv_id st),
                   CamClose (cmd_send_id st)],
              st\<lparr>cmd_rcv_id := 0xFF, cmd_send_id := 0xFF\<rparr>)
     else (0, [CamOpen 1, CamOpen 0, CamSetCB (cmd_rcv_id st)], st))"

definition camera_if_ipcu_ch_close :: "camera_if \<Rightarrow> cam_call list \<times> camera_if" where
  "camera_if_ipcu_ch_close st =
    ((if cmd_send_id st \<noteq> 0xFF then [CamClose (cmd_send_id st)] else []) @
     (if cmd_rcv_id st \<noteq> 0xFF then [CamClose (cmd_rcv_id st)] else []),
     st\<lparr>cmd_send_id := 0xFF, cmd_rcv_id := 0xFF\<rparr>)"

subsection \<open>Sending a command\<close>

text \<open>
  \<open>EINTR\<close> and \<open>ETIMEDOUT\<close> are the positive values of \<open>errno.h\<close>; the code compares them with
  the result of \<open>sem_timedwait\<close>. \<open>rs\<close> are the responses delivered before the wait ends.
\<close>

definition EINTR :: int where "EINTR = 4"
definition ETIMEDOUT :: int where "ETIMEDOUT = 110"

definition camera_if_send_cmd ::
  "cam_driver \<Rightarrow> response list \<Rightarrow> camera_if_cmd \<Rightarrow> camera_if \<Rightarrow>
   (int \<times> cam_call list \<times> camera_if_cmd \<times> camera_if) option" where
  "camera_if_send_cmd drv rs c st =
    (let st = st\<lparr>cmd_ret_value := no_return, current_cmd_set := ci_cmd_set c, current_cmd := ci_cmd c\<rparr>;
         req = request_image c
     in if cb_sem st = 0 then Some (-1, [], c, st)
     else let st = st\<lparr>cb_sem := cb_sem st - 1\<rparr>; es = [CamSend (cmd_send_id st) req]
     in if cam_send drv req \<noteq> 0 then Some (cam_send drv req, es, c, st)
     else do {
       st \<leftarrow> deliver rs st;
       let (ret, st) = (if cb_sem st > 0 then (0, st\<lparr>cb_sem := cb_sem st - 1\<rparr>) else (cam_wait drv, st));
       (if ret = 0 then Some (0, es, c\<lparr>recv_param := ret_param (cmd_ret_value st)\<rparr>, st)
        else if ret = EINTR then Some (-1, es, c, st)
        else if ret = ETIMEDOUT then Some (-2, es, c, st)
        else Some (-1, es, c, st))
     })"

definition camera_if_command ::
  "cam_driver \<Rightarrow> response list \<Rightarrow> camera_if_cmd \<Rightarrow> camera_if \<Rightarrow>
   (int \<times> cam_call list \<times> camera_if_cmd \<times> camera_if) option" where
  "camera_if_command drv rs c st =
    (let (ret, es, st) = camera_if_ipcu_ch_open drv st
     in if ret \<noteq> 0 then let (fs, st) = camera_if_ipcu_ch_close st in Some (-1, es @ fs, c, st)
     else do {
       (ret, es', c, st) \<leftarrow> camera_if_send_cmd drv rs c (st\<lparr>cb_sem := 1\<rparr>);
       let ret = (if ret \<noteq> 0 then -1 else 0);
       let (fs, st) = camera_if_ipcu_ch_close st;
       Some (ret, es @ es' @ fs, c, st)
     })"

definition rtos_cmd ::
  "cam_driver \<Rightarrow> response list \<Rightarrow> byte \<Rightarrow> byte \<Rightarrow> int \<Rightarrow> camera_if \<Rightarrow> (int \<times> cam_call list \<times> camera_if) option" where
  "rtos_cmd drv rs cmd_set cmd param st = do {
     (_, es, c, st) \<leftarrow> camera_if_command drv rs
        \<lparr>ci_cmd_set = ucast cmd_set, ci_cmd = ucast cmd, send_param = (word_of_int param, 0, 0, 0),
         recv_param = (0, 0, 0, 0), to_sec = 3, dec_pos = 0, exp_time = 0\<rparr> st;
     Some (sint (fst (recv_param c)), es, st)
   }"

subsection \<open>Lemmas\<close>

definition valid_ack :: "byte \<Rightarrow> u32 \<Rightarrow> u32 \<Rightarrow> response \<Rightarrow> bool" where
  "valid_ack j cset c r \<longleftrightarrow> rsp_id r = j \<and> unat (rsp_length r) = ACK_SIZE \<and> rsp_total r = rsp_length r \<and>
     rsp_cont r \<noteq> D_CONTINUE \<and>
     take 4 (words_of (rsp_data r)) = [D_CPU_IF_MCODE_COOMNAD_ACK, D_CPU_IF_COM_FORMAT_VERSION, cset, c]"

definition in_memory :: "response \<Rightarrow> bool" where
  "in_memory r \<longleftrightarrow> unat (rsp_length r) \<le> length (rsp_data r)"

lemma length_words_of [simp]: "length (words_of m) = 10"
  by (simp add: words_of_def)

lemma take_4_words:
  assumes "length (w :: u32 list) = 10"
  shows "take 4 w = [a, b, c, d] \<longleftrightarrow> w ! 0 = a \<and> w ! 1 = b \<and> w ! 2 = c \<and> w ! 3 = d"
proof -
  have "take 4 w = [w ! 0, w ! 1, w ! 2, w ! 3]"
    using assms by (simp add: list_eq_iff_nth_eq less_Suc_eq numeral_eq_Suc)
  then show ?thesis by simp
qed

definition answer :: "response \<Rightarrow> camera_if_return" where
  "answer r = (let w = words_of (rsp_data r) in
     \<lparr>ret_res = res_code (w ! 4), ret_code = w ! 5, ret_param = (w ! 4, w ! 5, w ! 6, w ! 7)\<rparr>)"

lemma callback_valid:
  assumes "valid_ack (cmd_rcv_id st) (current_cmd_set st) (current_cmd st) r" and "in_memory r"
  shows "camera_if_cmd_rcv_callback r st =
    Some (st\<lparr>cmd_ret_value := answer r, cb_sem := Suc (cb_sem st)\<rparr>)"
  using assms by (auto simp: valid_ack_def in_memory_def take_4_words camera_if_cmd_rcv_callback_def
      answer_def Let_def)

lemma callback_invalid:
  assumes "\<not> valid_ack (cmd_rcv_id st) (current_cmd_set st) (current_cmd st) r" and "in_memory r"
  shows "camera_if_cmd_rcv_callback r st = Some (st\<lparr>cmd_ret_value :=
    (cmd_ret_value st)\<lparr>ret_res := RES_CODE_ERROR\<rparr>, cb_sem := Suc (cb_sem st)\<rparr>)"
  using assms by (auto simp: valid_ack_def in_memory_def take_4_words camera_if_cmd_rcv_callback_def Let_def)

lemmas callback_cases = callback_valid callback_invalid

text \<open>What the responses leave, as a function of the responses.\<close>

lemma deliver_some:
  assumes "\<forall>r\<in>set rs. in_memory r"
  shows "\<exists>v. deliver rs st = Some (st\<lparr>cmd_ret_value := v, cb_sem := cb_sem st + length rs\<rparr>) \<and>
    ((\<forall>r\<in>set rs. \<not> valid_ack (cmd_rcv_id st) (current_cmd_set st) (current_cmd st) r) \<longrightarrow>
      ret_param v = ret_param (cmd_ret_value st))"
  using assms
proof (induction rs arbitrary: st)
  case Nil
  then show ?case by (intro exI[of _ "cmd_ret_value st"]) simp
next
  case (Cons r rs)
  then have r: "in_memory r" "\<forall>r\<in>set rs. in_memory r" by auto
  show ?case
  proof (cases "valid_ack (cmd_rcv_id st) (current_cmd_set st) (current_cmd st) r")
    case True
    from Cons.IH[OF r(2), of "st\<lparr>cmd_ret_value := answer r, cb_sem := Suc (cb_sem st)\<rparr>"] obtain v where
      "deliver rs (st\<lparr>cmd_ret_value := answer r, cb_sem := Suc (cb_sem st)\<rparr>) =
        Some (st\<lparr>cmd_ret_value := v, cb_sem := Suc (cb_sem st + length rs)\<rparr>)" by auto
    with callback_valid[OF True r(1)] True show ?thesis by (intro exI[of _ v]) simp
  next
    case False
    let ?s = "st\<lparr>cmd_ret_value := (cmd_ret_value st)\<lparr>ret_res := RES_CODE_ERROR\<rparr>, cb_sem := Suc (cb_sem st)\<rparr>"
    from Cons.IH[OF r(2), of ?s] obtain v where
      "deliver rs ?s = Some (st\<lparr>cmd_ret_value := v, cb_sem := Suc (cb_sem st + length rs)\<rparr>)"
      "(\<forall>r\<in>set rs. \<not> valid_ack (cmd_rcv_id st) (current_cmd_set st) (current_cmd st) r) \<longrightarrow>
        ret_param v = ret_param (cmd_ret_value st)" by auto
    with callback_invalid[OF False r(1)] show ?thesis by (intro exI[of _ v]) simp
  qed
qed

lemma send_cmd_some:
  assumes "\<forall>r\<in>set rs. in_memory r" and "cb_sem st = 1"
  shows "\<exists>ret c' st'. camera_if_send_cmd drv rs c st =
      Some (ret, [CamSend (cmd_send_id st) (request_image c)], c', st') \<and>
    cmd_send_id st' = cmd_send_id st \<and> cmd_rcv_id st' = cmd_rcv_id st \<and>
    (cam_send drv (request_image c) \<noteq> 0 \<or>
      (\<forall>r\<in>set rs. \<not> valid_ack (cmd_rcv_id st) (ci_cmd_set c) (ci_cmd c) r) \<longrightarrow>
      recv_param c' \<in> {recv_param c, (0, 0, 0, 0)}) \<and>
    (cam_send drv (request_image c) \<noteq> 0 \<or> rs = [] \<and> cam_wait drv \<noteq> 0 \<longrightarrow> ret \<noteq> 0 \<and> c' = c)"
proof (cases "cam_send drv (request_image c) = 0")
  case False
  with assms(2) show ?thesis by (simp add: camera_if_send_cmd_def Let_def)
next
  case True
  let ?s = "st\<lparr>cmd_ret_value := no_return, current_cmd_set := ci_cmd_set c, current_cmd := ci_cmd c, cb_sem := 0\<rparr>"
  from deliver_some[OF assms(1), of ?s] obtain v where
    v: "deliver rs ?s = Some (?s\<lparr>cmd_ret_value := v, cb_sem := length rs\<rparr>)"
    "(\<forall>r\<in>set rs. \<not> valid_ack (cmd_rcv_id st) (ci_cmd_set c) (ci_cmd c) r) \<longrightarrow> ret_param v = (0, 0, 0, 0)"
    by (auto simp: no_return_def)
  show ?thesis
  proof (cases "rs = []")
    case Nil: True
    with True assms(2) show ?thesis
      by (auto simp: camera_if_send_cmd_def Let_def no_return_def EINTR_def ETIMEDOUT_def)
  next
    case False
    with True assms(2) v show ?thesis by (simp add: camera_if_send_cmd_def Let_def)
  qed
qed

definition cam_opened :: "cam_driver \<Rightarrow> cam_call list \<Rightarrow> byte list" where
  "cam_opened drv es = concat (map (\<lambda>e. case e of
     CamOpen ch \<Rightarrow> if fst (cam_open drv ch) = 0 then [snd (cam_open drv ch)] else [] | _ \<Rightarrow> []) es)"

definition cam_closed :: "cam_call list \<Rightarrow> byte list" where
  "cam_closed es = concat (map (\<lambda>e. case e of CamClose i \<Rightarrow> [i] | _ \<Rightarrow> []) es)"

text \<open>An acknowledge as the camera processor sends it.\<close>

definition ack_for :: "byte \<Rightarrow> u32 \<Rightarrow> u32 \<Rightarrow> params \<Rightarrow> response" where
  "ack_for j cset c p = (case p of (p1, p2, p3, p4) \<Rightarrow>
     \<lparr>rsp_id = j, rsp_data = concat (map le_bytes32 [D_CPU_IF_MCODE_COOMNAD_ACK,
        D_CPU_IF_COM_FORMAT_VERSION, cset, c, p1, p2, p3, p4, 0, 0]),
      rsp_length = 40, rsp_cont = 0, rsp_total = 40\<rparr>)"

lemma words_of_image:
  assumes "length ws = 10"
  shows "words_of (concat (map le_bytes32 ws)) = ws"
proof -
  have "words_of (concat (map le_bytes32 ws)) = map (\<lambda>i. ws ! i) [0..<10]"
    unfolding words_of_def by (rule map_cong[OF refl]) (simp add: window_words assms)
  also have "\<dots> = ws" using map_nth[of ws] assms by simp
  finally show ?thesis .
qed

lemma ack_for_words:
  "words_of (rsp_data (ack_for j cset c (p1, p2, p3, p4))) =
    [D_CPU_IF_MCODE_COOMNAD_ACK, D_CPU_IF_COM_FORMAT_VERSION, cset, c, p1, p2, p3, p4, 0, 0]"
proof -
  have "length [D_CPU_IF_MCODE_COOMNAD_ACK, D_CPU_IF_COM_FORMAT_VERSION, cset, c, p1, p2, p3, p4, 0, 0] = 10"
    by simp
  from words_of_image[OF this] show ?thesis by (simp only: ack_for_def prod.case response.simps)
qed

lemma ack_for_valid: "valid_ack j cset c (ack_for j cset c p)" "in_memory (ack_for j cset c p)"
proof -
  obtain p1 p2 p3 p4 where p: "p = (p1, p2, p3, p4)" by (metis prod_cases4)
  show "valid_ack j cset c (ack_for j cset c p)"
    unfolding valid_ack_def p ack_for_words
    by (simp add: ack_for_def ACK_SIZE_def D_CONTINUE_def)
  show "in_memory (ack_for j cset c p)" by (simp add: in_memory_def p ack_for_def)
qed

lemma cam_trace_simps [simp]:
  "cam_opened drv [] = []" "cam_closed [] = []"
  "cam_opened drv (CamOpen ch # es) =
     (if fst (cam_open drv ch) = 0 then [snd (cam_open drv ch)] else []) @ cam_opened drv es"
  "cam_opened drv (CamClose i # es) = cam_opened drv es" "cam_opened drv (CamSetCB i # es) = cam_opened drv es"
  "cam_opened drv (CamSend i m # es) = cam_opened drv es"
  "cam_closed (CamOpen ch # es) = cam_closed es" "cam_closed (CamClose i # es) = i # cam_closed es"
  "cam_closed (CamSetCB i # es) = cam_closed es" "cam_closed (CamSend i m # es) = cam_closed es"
  "cam_opened drv (es @ fs) = cam_opened drv es @ cam_opened drv fs"
  "cam_closed (es @ fs) = cam_closed es @ cam_closed fs"
  by (simp_all add: cam_opened_def cam_closed_def)

lemma close_ids [simp]:
  "cmd_send_id (snd (camera_if_ipcu_ch_close st)) = 0xFF" "cmd_rcv_id (snd (camera_if_ipcu_ch_close st)) = 0xFF"
  by (simp_all add: camera_if_ipcu_ch_close_def)

text \<open>Opening fails with everything closed again, or succeeds with both channels open.\<close>

lemma ch_open_cases:
  obtains (fail) es st' where "camera_if_ipcu_ch_open drv st = (-1, es, st')"
      "cam_closed es = rev (cam_opened drv es)" "cmd_send_id st' = 0xFF"
      "fst (cam_open drv 1) = 0 \<Longrightarrow> cmd_rcv_id st' = 0xFF" "cmd_rcv_id st' \<in> {0xFF, cmd_rcv_id st}"
      "fst (cam_open drv 1) \<noteq> 0 \<or> fst (cam_open drv 0) \<noteq> 0 \<or> cam_setcb drv \<noteq> 0"
  | (ok) i j where "cam_open drv 1 = (0, i)" "cam_open drv 0 = (0, j)" "cam_setcb drv = 0"
      "camera_if_ipcu_ch_open drv st =
        (0, [CamOpen 1, CamOpen 0, CamSetCB j], st\<lparr>cmd_send_id := i, cmd_rcv_id := j\<rparr>)"
proof -
  obtain r1 i r0 j where o: "cam_open drv 1 = (r1, i)" "cam_open drv 0 = (r0, j)" by (metis surj_pair)
  consider "r1 \<noteq> 0" | "r1 = 0" "r0 \<noteq> 0" | "r1 = 0" "r0 = 0" "cam_setcb drv \<noteq> 0"
    | "r1 = 0" "r0 = 0" "cam_setcb drv = 0" by blast
  then show thesis
  proof cases
    case 1
    with o have e: "camera_if_ipcu_ch_open drv st = (-1, [CamOpen 1], st\<lparr>cmd_send_id := 0xFF\<rparr>)"
      by (simp add: camera_if_ipcu_ch_open_def Let_def)
    show ?thesis by (rule fail[OF e]) (use o 1 in simp_all)
  next
    case 2
    with o have e: "camera_if_ipcu_ch_open drv st = (-1, [CamOpen 1, CamOpen 0, CamClose i],
        st\<lparr>cmd_send_id := 0xFF, cmd_rcv_id := 0xFF\<rparr>)"
      by (cases st) (simp add: camera_if_ipcu_ch_open_def Let_def)
    show ?thesis by (rule fail[OF e]) (use o 2 in simp_all)
  next
    case 3
    with o have e: "camera_if_ipcu_ch_open drv st = (-1, [CamOpen 1, CamOpen 0, CamSetCB j, CamClose j, CamClose i],
        st\<lparr>cmd_send_id := 0xFF, cmd_rcv_id := 0xFF\<rparr>)"
      by (cases st) (simp add: camera_if_ipcu_ch_open_def Let_def)
    show ?thesis by (rule fail[OF e]) (use o 3 in simp_all)
  next
    case 4
    with o show ?thesis by (intro ok) (simp_all add: camera_if_ipcu_ch_open_def Let_def)
  qed
qed

subsection \<open>Properties\<close>

text \<open>C26: A command that the camera processor acknowledges returns the four words of the
  acknowledge; the request carries the command and its parameters, and both channels are
  closed again in the end.\<close>

theorem camera_command_answered:
  assumes "cam_open drv 1 = (0, i)" and "cam_open drv 0 = (0, j)" and "i \<noteq> 0xFF" and "j \<noteq> 0xFF"
    and "cam_setcb drv = 0" and "\<And>m. cam_send drv m = 0"
  shows "\<exists>st' req. camera_if_command drv [ack_for j (ci_cmd_set c) (ci_cmd c) p] c st =
      Some (0, [CamOpen 1, CamOpen 0, CamSetCB j, CamSend i req, CamClose i, CamClose j],
            c\<lparr>recv_param := p\<rparr>, st') \<and>
    words_of req = [0x5555AAAA, 1, ci_cmd_set c, ci_cmd c, fst (send_param c), fst (snd (send_param c)),
      fst (snd (snd (send_param c))), snd (snd (snd (send_param c))), dec_pos c, exp_time c] \<and>
    cmd_send_id st' = 0xFF \<and> cmd_rcv_id st' = 0xFF"
proof -
  obtain p1 p2 p3 p4 where p: "p = (p1, p2, p3, p4)" by (metis prod_cases4)
  obtain q1 q2 q3 q4 where q: "send_param c = (q1, q2, q3, q4)" by (metis prod_cases4)
  let ?r = "ack_for j (ci_cmd_set c) (ci_cmd c) p"
  let ?st = "st\<lparr>cmd_send_id := i, cmd_rcv_id := j, cmd_ret_value := no_return,
    current_cmd_set := ci_cmd_set c, current_cmd := ci_cmd c, cb_sem := 0\<rparr>"
  have d: "deliver [?r] ?st = Some (?st\<lparr>cmd_ret_value := answer ?r, cb_sem := Suc 0\<rparr>)"
    using callback_valid[of ?st ?r] ack_for_valid by simp
  have a: "ret_param (answer ?r) = p"
    unfolding answer_def p ack_for_words by (simp add: Let_def)
  have o: "camera_if_ipcu_ch_open drv st =
      (0, [CamOpen 1, CamOpen 0, CamSetCB j], st\<lparr>cmd_send_id := i, cmd_rcv_id := j\<rparr>)"
    using assms(1,2,5) by (simp add: camera_if_ipcu_ch_open_def Let_def)
  have "\<exists>st'. camera_if_command drv [?r] c st =
      Some (0, [CamOpen 1, CamOpen 0, CamSetCB j, CamSend i (request_image c), CamClose i, CamClose j],
            c\<lparr>recv_param := p\<rparr>, st') \<and> cmd_send_id st' = 0xFF \<and> cmd_rcv_id st' = 0xFF"
    using assms(3,4,6) d a
    by (simp add: camera_if_command_def o camera_if_send_cmd_def Let_def camera_if_ipcu_ch_close_def
        del: deliver.simps)
  moreover have "words_of (request_image c) = [0x5555AAAA, 1, ci_cmd_set c, ci_cmd c, q1, q2, q3, q4,
      dec_pos c, exp_time c]"
    unfolding request_image_def q prod.case
    by (subst words_of_image) (simp_all add: D_CPU_IF_MCODE_COMMAND_REQ_def D_CPU_IF_COM_FORMAT_VERSION_def)
  ultimately show ?thesis using q by auto
qed

definition demo_cam :: cam_driver where
  "demo_cam = \<lparr>cam_open = (\<lambda>ch. (0, word_of_int ch)), cam_setcb = 0, cam_send = (\<lambda>_. 0), cam_wait = -1\<rparr>"

definition demo_cmd :: camera_if_cmd where
  "demo_cmd = \<lparr>ci_cmd_set = 0, ci_cmd = 11, send_param = (8, 0, 0, 0), recv_param = (0, 0, 0, 0),
     to_sec = 3, dec_pos = 0, exp_time = 0\<rparr>"

definition demo_cam_st :: camera_if where
  "demo_cam_st = \<lparr>current_cmd_set = 0, current_cmd = 0, cmd_send_id = 0xFF, cmd_rcv_id = 0xFF,
     cmd_ret_value = no_return, cb_sem = 0\<rparr>"

theorem camera_command_answered_witness:
  "\<exists>es st'. camera_if_command demo_cam [ack_for 0 0 11 (7, 1, 2, 3)] demo_cmd demo_cam_st =
    Some (0, es, demo_cmd\<lparr>recv_param := (7, 1, 2, 3)\<rparr>, st')"
proof -
  have "cam_open demo_cam 1 = (0, 1)" "cam_open demo_cam 0 = (0, 0)" "(1 :: byte) \<noteq> 0xFF" "(0 :: byte) \<noteq> 0xFF"
    "cam_setcb demo_cam = 0" "\<And>m. cam_send demo_cam m = 0" by (simp_all add: demo_cam_def)
  from camera_command_answered[OF this, of demo_cmd "(7, 1, 2, 3)" demo_cam_st]
  have "ci_cmd_set demo_cmd = 0 \<Longrightarrow> ci_cmd demo_cmd = 11 \<Longrightarrow> ?thesis" by auto
  then show ?thesis by (simp add: demo_cmd_def)
qed

text \<open>\<open>rtos_cmd\<close> cannot tell a failure from a success: when a channel cannot be opened, the
  request cannot be sent, no answer comes in time, or every answer is malformed, it returns 0,
  the value of \<open>E_CAMERA_IF_RES_CODE_OK\<close>.\<close>

theorem rtos_cmd_failure_is_zero:
  assumes "\<forall>r\<in>set rs. in_memory r"
    and "fst (cam_open drv 1) \<noteq> 0 \<or> fst (cam_open drv 0) \<noteq> 0 \<or> cam_setcb drv \<noteq> 0 \<or>
      (\<forall>m. cam_send drv m \<noteq> 0) \<or>
      (\<forall>r\<in>set rs. \<not> valid_ack (snd (cam_open drv 0)) (ucast cset) (ucast c) r)"
  shows "\<exists>es st'. rtos_cmd drv rs cset c p st = Some (0, es, st')"
proof -
  let ?c = "\<lparr>ci_cmd_set = ucast cset, ci_cmd = ucast c, send_param = (word_of_int p, 0, 0, 0),
         recv_param = (0, 0, 0, 0), to_sec = 3, dec_pos = 0, exp_time = 0\<rparr>"
  have "\<exists>ret es c' st'. camera_if_command drv rs ?c st = Some (ret, es, c', st') \<and> recv_param c' = (0, 0, 0, 0)"
  proof (cases rule: ch_open_cases[of drv st])
    case (fail es st')
    then show ?thesis by (simp add: camera_if_command_def Let_def split_def)
  next
    case (ok i j)
    let ?st = "st\<lparr>cmd_send_id := i, cmd_rcv_id := j, cb_sem := 1\<rparr>"
    from send_cmd_some[OF assms(1), of ?st drv ?c] obtain ret c' st' where
      s: "camera_if_send_cmd drv rs ?c ?st = Some (ret, [CamSend i (request_image ?c)], c', st')"
      "cam_send drv (request_image ?c) \<noteq> 0 \<or> (\<forall>r\<in>set rs. \<not> valid_ack j (ucast cset) (ucast c) r) \<longrightarrow>
        recv_param c' = (0, 0, 0, 0)" by auto
    moreover have "cam_send drv (request_image ?c) \<noteq> 0 \<or> (\<forall>r\<in>set rs. \<not> valid_ack j (ucast cset) (ucast c) r)"
      using assms(2) ok(1-3) by auto
    ultimately show ?thesis by (simp add: camera_if_command_def ok(4) Let_def split_def)
  qed
  then obtain ret es c' st' where "camera_if_command drv rs ?c st = Some (ret, es, c', st')"
    "recv_param c' = (0, 0, 0, 0)" by blast
  then show ?thesis by (simp add: rtos_cmd_def)
qed

theorem rtos_cmd_failure_is_zero_witness:
  "\<exists>es st'. rtos_cmd demo_cam [] 0 11 8 demo_cam_st = Some (0, es, st')"
  using rtos_cmd_failure_is_zero[of "[]" demo_cam 0 11 8 demo_cam_st] by simp

text \<open>Every command closes exactly the channels it opened, on every path, and leaves both
  identifiers at their closed value; its result is 0 or -1.\<close>

theorem camera_channels_balanced:
  assumes "\<forall>r\<in>set rs. in_memory r" and "\<And>ch. snd (cam_open drv ch) \<noteq> 0xFF" and "cmd_rcv_id st = 0xFF"
  shows "\<exists>ret es c' st'. camera_if_command drv rs c st = Some (ret, es, c', st') \<and> (ret = 0 \<or> ret = -1) \<and>
    mset (cam_closed es) = mset (cam_opened drv es) \<and> cmd_send_id st' = 0xFF \<and> cmd_rcv_id st' = 0xFF"
proof (cases rule: ch_open_cases[of drv st])
  case (fail es st')
  then have "cmd_send_id st' = 0xFF" "cmd_rcv_id st' = 0xFF" using assms(3) by auto
  then have "camera_if_ipcu_ch_close st' = ([], st'\<lparr>cmd_send_id := 0xFF, cmd_rcv_id := 0xFF\<rparr>)"
    by (simp add: camera_if_ipcu_ch_close_def)
  with fail show ?thesis by (simp add: camera_if_command_def Let_def)
next
  case (ok i j)
  let ?st = "st\<lparr>cmd_send_id := i, cmd_rcv_id := j, cb_sem := 1\<rparr>"
  have ids: "i \<noteq> 0xFF" "j \<noteq> 0xFF" using assms(2)[of 1] assms(2)[of 0] ok(1,2) by simp_all
  from send_cmd_some[OF assms(1), of ?st drv c] obtain ret c' st' where
    s: "camera_if_send_cmd drv rs c ?st = Some (ret, [CamSend i (request_image c)], c', st')"
    "cmd_send_id st' = i" "cmd_rcv_id st' = j" by auto
  then have "camera_if_ipcu_ch_close st' = ([CamClose i, CamClose j], st'\<lparr>cmd_send_id := 0xFF, cmd_rcv_id := 0xFF\<rparr>)"
    using ids by (simp add: camera_if_ipcu_ch_close_def)
  with s(1) ok show ?thesis by (simp add: camera_if_command_def Let_def)
qed

theorem camera_channels_balanced_witness:
  "\<exists>ret es c' st'. camera_if_command (demo_cam\<lparr>cam_open := (\<lambda>ch. (0, 3)), cam_send := (\<lambda>_. 1)\<rparr>)
    [] demo_cmd demo_cam_st = Some (ret, es, c', st') \<and> cmd_send_id st' = 0xFF"
proof -
  let ?d = "demo_cam\<lparr>cam_open := (\<lambda>ch. (0, 3)), cam_send := (\<lambda>_. 1)\<rparr>"
  have a: "\<forall>r\<in>set []. in_memory r" "\<And>ch. snd (cam_open ?d ch) \<noteq> 0xFF" "cmd_rcv_id demo_cam_st = 0xFF"
    by (simp_all add: demo_cam_st_def)
  from camera_channels_balanced[OF a, of demo_cmd] obtain ret es c' st' where
    "camera_if_command ?d [] demo_cmd demo_cam_st = Some (ret, es, c', st')" "cmd_send_id st' = 0xFF"
    by (elim exE conjE)
  then show ?thesis by (intro exI conjI)
qed

end
