(* ===== verification/IpcuStream.thy ===== *)
theory IpcuStream
  imports StreamApi CameraIf
begin

text \<open>
  \<open>src/src/ipcu_stream.c\<close> and \<open>src/include/ipcu_stream.h\<close>: the commands of the application
  to the camera processor, the choice of the recording resolution from the table of sizes,
  and the set-up of the stream channels.
\<close>

subsection \<open>The table of resolutions\<close>

text \<open>The members of the enumeration, in its order, without their common prefix.\<close>

datatype RESOLUTION_INDEX =
    SIZE_4000_3000 | SIZE_4096_2304 | SIZE_4096_2160 | SIZE_4096_2048 | SIZE_3840_2160 |
    SIZE_3840_1920 | SIZE_3000_3000 | SIZE_2704_2028 | SIZE_2704_1520 | SIZE_2560_1920 |
    SIZE_1920_1440 | SIZE_1920_1080 | SIZE_1920_960 | SIZE_1504_1504 | SIZE_1440_1080 |
    SIZE_1440_720 | SIZE_1280_960 | SIZE_1280_720 | SIZE_960_480 | SIZE_800_600 | SIZE_864_480 |
    SIZE_848_480 | SIZE_720_480 | SIZE_640_480 | SIZE_640_360 | SIZE_432_240 | SIZE_320_240 |
    SIZE_720_576 | SIZE_1024_768 | SIZE_1280_768 | SIZE_1280_1024 | SIZE_5472_3648

fun index_code :: "RESOLUTION_INDEX \<Rightarrow> nat" where
  "index_code SIZE_4000_3000 = 0"
| "index_code SIZE_4096_2304 = 1"
| "index_code SIZE_4096_2160 = 2"
| "index_code SIZE_4096_2048 = 3"
| "index_code SIZE_3840_2160 = 4"
| "index_code SIZE_3840_1920 = 5"
| "index_code SIZE_3000_3000 = 6"
| "index_code SIZE_2704_2028 = 7"
| "index_code SIZE_2704_1520 = 8"
| "index_code SIZE_2560_1920 = 9"
| "index_code SIZE_1920_1440 = 10"
| "index_code SIZE_1920_1080 = 11"
| "index_code SIZE_1920_960 = 12"
| "index_code SIZE_1504_1504 = 13"
| "index_code SIZE_1440_1080 = 14"
| "index_code SIZE_1440_720 = 15"
| "index_code SIZE_1280_960 = 16"
| "index_code SIZE_1280_720 = 17"
| "index_code SIZE_960_480 = 18"
| "index_code SIZE_800_600 = 19"
| "index_code SIZE_864_480 = 20"
| "index_code SIZE_848_480 = 21"
| "index_code SIZE_720_480 = 22"
| "index_code SIZE_640_480 = 23"
| "index_code SIZE_640_360 = 24"
| "index_code SIZE_432_240 = 25"
| "index_code SIZE_320_240 = 26"
| "index_code SIZE_720_576 = 27"
| "index_code SIZE_1024_768 = 28"
| "index_code SIZE_1280_768 = 29"
| "index_code SIZE_1280_1024 = 30"
| "index_code SIZE_5472_3648 = 31"

datatype S_RESOLUTION = S_RES (res_index: RESOLUTION_INDEX) (res_width: int) (res_height: int)

definition resolution_form :: "S_RESOLUTION list" where
  "resolution_form = [
     S_RES SIZE_4000_3000 4000 3000, S_RES SIZE_4096_2304 4096 2304,
     S_RES SIZE_4096_2160 4096 2160, S_RES SIZE_4096_2048 4096 2048,
     S_RES SIZE_3840_2160 3840 2160, S_RES SIZE_3840_1920 3840 1920,
     S_RES SIZE_3000_3000 3000 3000, S_RES SIZE_2704_2028 2704 2028,
     S_RES SIZE_2704_1520 2704 1520, S_RES SIZE_2560_1920 2560 1920,
     S_RES SIZE_1920_1440 1920 1440, S_RES SIZE_1920_1080 1920 1080,
     S_RES SIZE_1920_960 1920 960, S_RES SIZE_1504_1504 1504 1504,
     S_RES SIZE_1440_1080 1440 1080, S_RES SIZE_1440_720 1440 720, S_RES SIZE_1280_960 1280 960,
     S_RES SIZE_1280_720 1280 720, S_RES SIZE_960_480 960 480, S_RES SIZE_800_600 800 600,
     S_RES SIZE_864_480 864 480, S_RES SIZE_848_480 848 480, S_RES SIZE_720_480 720 480,
     S_RES SIZE_640_480 640 480, S_RES SIZE_640_360 640 360, S_RES SIZE_432_240 432 240,
     S_RES SIZE_320_240 320 240, S_RES SIZE_720_576 720 576, S_RES SIZE_1024_768 1024 768,
     S_RES SIZE_1280_768 1280 768, S_RES SIZE_1280_1024 1280 1024, S_RES SIZE_5472_3648 5472 3648]"

definition resolution_indices :: "RESOLUTION_INDEX list" where
  "resolution_indices = [
     SIZE_4000_3000, SIZE_4096_2304, SIZE_4096_2160, SIZE_4096_2048, SIZE_3840_2160,
     SIZE_3840_1920, SIZE_3000_3000, SIZE_2704_2028, SIZE_2704_1520, SIZE_2560_1920,
     SIZE_1920_1440, SIZE_1920_1080, SIZE_1920_960, SIZE_1504_1504, SIZE_1440_1080,
     SIZE_1440_720, SIZE_1280_960, SIZE_1280_720, SIZE_960_480, SIZE_800_600, SIZE_864_480,
     SIZE_848_480, SIZE_720_480, SIZE_640_480, SIZE_640_360, SIZE_432_240, SIZE_320_240,
     SIZE_720_576, SIZE_1024_768, SIZE_1280_768, SIZE_1280_1024, SIZE_5472_3648]"

lemma indices_code [simp]: "resolution_indices ! index_code x = x"
  by (cases x) (simp_all add: resolution_indices_def)

lemma index_code_inj: "index_code x = index_code y \<longleftrightarrow> x = y"
  by (metis indices_code)

lemma index_code_bound: "index_code x < 32"
  by (cases x) simp_all

text \<open>The enumeration is ordered by its values, as in C.\<close>

instantiation RESOLUTION_INDEX :: linorder
begin

definition less_eq_RESOLUTION_INDEX :: "RESOLUTION_INDEX \<Rightarrow> RESOLUTION_INDEX \<Rightarrow> bool" where
  "less_eq_RESOLUTION_INDEX x y \<longleftrightarrow> index_code x \<le> index_code y"

definition less_RESOLUTION_INDEX :: "RESOLUTION_INDEX \<Rightarrow> RESOLUTION_INDEX \<Rightarrow> bool" where
  "less_RESOLUTION_INDEX x y \<longleftrightarrow> index_code x < index_code y"

instance
  by standard (auto simp: less_eq_RESOLUTION_INDEX_def less_RESOLUTION_INDEX_def index_code_inj)

end

lemma length_resolution_form [simp]: "length resolution_form = 32"
  by (simp add: resolution_form_def)

lemma resolution_form_order: "map (index_code \<circ> res_index) resolution_form = [0..<32]"
  by (simp add: resolution_form_def upt_rec)

lemma resolution_form_sorted: "sorted (map res_index resolution_form)"
proof -
  have "sorted (map index_code (map res_index resolution_form))"
    using resolution_form_order by simp
  then show ?thesis by (simp add: sorted_map less_eq_RESOLUTION_INDEX_def)
qed

subsection \<open>Choosing a resolution\<close>

definition USER_0_SIZE :: nat where "USER_0_SIZE = 12"
definition H264_1_SIZE :: nat where "H264_1_SIZE = 16"

text \<open>The numbers of the settings, which the enumeration \<open>E_CATE01\<close> gives by its order.\<close>

definition E_CATE01 :: "string list" where
  "E_CATE01 = [
     ''DISP_IF'', ''CAG_EN'', ''MOV_EN'', ''MOV_AU_PORT'', ''MOV_H265_TIMELAPSE'',
     ''MOV_H264_0_TIMELAPSE'', ''MOV_H264_1_TIMELAPSE'', ''MOV_H265_SLOWMOTION'',
     ''MOV_H264_0_SLOWMOTION'', ''MOV_H264_1_SLOWMOTION'', ''SENSOR_NUM'', ''YUV_LAYOYT'',
     ''USER_0_SIZE'', ''USER_1_SIZE'', ''H265_SIZE'', ''H264_0_SIZE'', ''H264_1_SIZE'', ''H265_FPS'',
     ''H264_0_FPS'', ''H264_1_FPS'', ''FACEDETECTION'', ''PERSONDETECTION'', ''VIEW_FPS'', ''DOL_EN'',
     ''H265_BITRATE'', ''H264_0_BITRATE'', ''H264_1_BITRATE'', ''RAW_SELECT'', ''YUV_SELECT'',
     ''VIEW_YUV_FORMAT'', ''SNAPSHOT_FORMAT'', ''RAW_EXTRACT_POINT_FORCED'', ''ROI_MODE'',
     ''ZOOM_RATIO'', ''ZOOM_POS_X'', ''ZOOM_POS_Y'', ''MIRROR_FLIP'', ''ROTATE'', ''LDC_MODE'',
     ''STITCH_TYPE'', ''OP_IPU_MODE'', ''OP_3DNR_MODE'', ''OP_EIS_MODE'', ''ROI0_ZOOM_RATIO'',
     ''ROI0_ZOOM_POS_X'', ''ROI0_ZOOM_POS_Y'', ''MOV_H265_MAX_TIME'', ''MOV_H264_0_MAX_TIME'',
     ''MOV_H264_1_MAX_TIME'', ''ROI1_ZOOM_RATIO'', ''ROI1_ZOOM_POS_X'', ''ROI1_ZOOM_POS_Y'',
     ''ROI0_TRIM_RATIO'', ''ROI1_TRIM_RATIO'', ''ROI2_ZOOM_RATIO'', ''ROI2_ZOOM_POS_X'',
     ''ROI2_ZOOM_POS_Y'', ''ROI2_TRIM_RATIO'', ''AEAF_BASE_SIZE'', ''SHD_EN'', ''LTM_MODE'',
     ''SDC_EN'', ''MOV_CACHE_EN'', ''SEN_STREAM_MAPPING'', ''MOVIE_DYNAMIC_UPDATE'', ''MOVIE_GOP_NUM'',
     ''AUTO_FRAMING'', ''LOW_LATENCY_EN'', ''LOW_LATENCY_LINE'', ''SLICE_INTERRUPT_EN'',
     ''ROI_MOVEMENT_TRIM_STEP'', ''ROI_MOVEMENT_POS_X_STEP'', ''ROI_MOVEMENT_POS_Y_STEP'',
     ''ROI_MOVEMENT_COMP_FACTOR'', ''ROI_MOVEMENT_MODE'', ''AUTO_FRAMING_ROI_X'',
     ''AUTO_FRAMING_ROI_Y'', ''AUTO_FRAMING_ROI_W'', ''AUTO_FRAMING_ROI_H'', ''AUTO_FRAMING_PIP_MODE'',
     ''AUTO_FRAMING_PIP_WIN_SIZE'', ''AUTO_FRAMING_PIP_WIN_POS'', ''ROI0_CONT_MODE'',
     ''ROI0_CONT_DIR_PAN'', ''ROI0_CONT_DIR_TILT'', ''ROI0_CONT_DIR_ZOOM'',
     ''MOV_H264_EXTEND_GOP_NUM'', ''E_CATE01_MAX'']"

lemma size_settings: "map (\<lambda>i. E_CATE01 ! i) [USER_0_SIZE..<Suc H264_1_SIZE] =
    [''USER_0_SIZE'', ''USER_1_SIZE'', ''H265_SIZE'', ''H264_0_SIZE'', ''H264_1_SIZE'']"
  by (simp add: USER_0_SIZE_def H264_1_SIZE_def E_CATE01_def upt_rec)

lemma E_CATE01_distinct: "distinct E_CATE01" "length E_CATE01 = 88"
  by (simp_all add: E_CATE01_def)

text \<open>A value computed as an \<open>int\<close> of C, 32 bits wide; \<open>None\<close> where it overflows, which C leaves undefined.\<close>

definition c_int :: "int \<Rightarrow> int option" where
  "c_int x = (if - (2 ^ 31) \<le> x \<and> x < 2 ^ 31 then Some x else None)"

lemma c_int_Some: "- (2 ^ 31) \<le> x \<Longrightarrow> x < 2 ^ 31 \<Longrightarrow> c_int x = Some x"
  by (simp add: c_int_def)

definition res_distance :: "int \<Rightarrow> int \<Rightarrow> S_RESOLUTION \<Rightarrow> int option" where
  "res_distance width height r = do {
     dw \<leftarrow> c_int (res_width r - width);
     aw \<leftarrow> c_int (abs dw);
     dh \<leftarrow> c_int (res_height r - height);
     ah \<leftarrow> c_int (abs dh);
     c_int (aw + ah) }"

text \<open>The loop over the table from position \<open>i\<close>.\<close>

fun find_resolution :: "int \<Rightarrow> int \<Rightarrow> S_RESOLUTION list \<Rightarrow> nat \<Rightarrow> int \<Rightarrow> nat \<Rightarrow> nat option" where
  "find_resolution width height [] i dim result_index = Some result_index"
| "find_resolution width height (r # rs) i dim result_index =
    (if res_width r = width \<and> res_height r = height then Some i
     else do {
       d \<leftarrow> res_distance width height r;
       (if dim > d then find_resolution width height rs (Suc i) d i
        else find_resolution width height rs (Suc i) dim result_index) })"

definition resolution_index_for :: "int \<Rightarrow> int \<Rightarrow> nat option" where
  "resolution_index_for width height = do {
     dim \<leftarrow> c_int (width + height);
     find_resolution width height resolution_form 0 dim 0xb }"

subsection \<open>Commands\<close>

text \<open>
  Each command runs \<open>rtos_cmd\<close> with its numbers; \<open>drv\<close> and \<open>rs\<close> are the driver and the
  responses it delivers.
\<close>

type_synonym command_run = "camera_if \<Rightarrow> (int \<times> cam_call list \<times> camera_if) option"

definition finish_boot :: "cam_driver \<Rightarrow> response list \<Rightarrow> command_run" where
  "finish_boot drv rs = rtos_cmd drv rs 0x0 0x0 0x3"

definition start_preview :: "cam_driver \<Rightarrow> response list \<Rightarrow> command_run" where
  "start_preview drv rs = rtos_cmd drv rs 0x0 0xb 0x2"

definition start_record_cmd :: "cam_driver \<Rightarrow> response list \<Rightarrow> command_run" where
  "start_record_cmd drv rs = rtos_cmd drv rs 0x0 0xb 0x8"

definition finish_record_cmd :: "cam_driver \<Rightarrow> response list \<Rightarrow> command_run" where
  "finish_record_cmd drv rs = rtos_cmd drv rs 0x0 0xb 0x9"

definition capture_pic :: "cam_driver \<Rightarrow> response list \<Rightarrow> command_run" where
  "capture_pic drv rs = rtos_cmd drv rs 0x0 0xb 0x3"

definition reset_stream :: "cam_driver \<Rightarrow> response list \<Rightarrow> command_run" where
  "reset_stream drv rs = rtos_cmd drv rs 0x0 0xb 0x2"

definition set_resolution ::
  "cam_driver \<Rightarrow> response list \<Rightarrow> byte \<Rightarrow> u32 \<Rightarrow> u32 \<Rightarrow> command_run" where
  "set_resolution drv rs channel width height st =
    (if unat channel < USER_0_SIZE \<or> unat channel > H264_1_SIZE then Some (-1, [], st)
     else do {
       result_index \<leftarrow> resolution_index_for (sint width) (sint height);
       rtos_cmd drv rs 0x1 channel (int result_index) st })"

definition set_jpeg_quality :: "cam_driver \<Rightarrow> response list \<Rightarrow> int \<Rightarrow> command_run" where
  "set_jpeg_quality drv rs value st =
    (if value > 100 \<or> value < 0 then Some (-1, [], st) else rtos_cmd drv rs 0xb 0x6 value st)"

subsection \<open>Starting and stopping the streams\<close>

definition IPCU_STREAM_SENDID :: int where "IPCU_STREAM_SENDID = 6"
definition IPCU_STREAM_ACKID :: int where "IPCU_STREAM_ACKID = 7"

definition init_stream ::
  "ipcu_driver \<Rightarrow> node_malloc \<Rightarrow> int \<times> nat \<Rightarrow> nat \<Rightarrow> nat \<Rightarrow> stream_if \<Rightarrow>
   (int \<times> ipcu_call list \<times> stream_if) option" where
  "init_stream drv m create cb user_data st =
    Stream_ipcu_ch_init drv m create
      (Some \<lparr>cb_of = (\<lambda>k. if k = Meta then None else Some cb), cb_user_data = user_data\<rparr>)
      \<lparr>p_sw = 0, p_phys = 0, p_chid = IPCU_STREAM_SENDID, p_ackid = IPCU_STREAM_ACKID\<rparr> st"

definition stop_stream ::
  "cam_driver \<Rightarrow> response list \<Rightarrow> ipcu_driver \<Rightarrow> (stream_lib \<Rightarrow> stream_lib) \<Rightarrow> camera_if \<times> stream_if \<Rightarrow>
   (cam_call list \<times> ipcu_call list \<times> camera_if \<times> stream_if) option" where
  "stop_stream drv rs sdrv join = (\<lambda>(st, sst). do {
     (_, es, st) \<leftarrow> rtos_cmd drv rs 0x00 0x0b 0x09 st;
     (_, fs, sst) \<leftarrow> Stream_ipcu_ch_close sdrv join sst;
     Some (es, fs, st, sst)
   })"

subsection \<open>Lemmas\<close>

text \<open>The loop finds the first entry that is nearest, if one is nearer than \<open>dim\<close>.\<close>

definition nearest_at :: "('a \<Rightarrow> int) \<Rightarrow> 'a list \<Rightarrow> nat \<Rightarrow> bool" where
  "nearest_at d xs n \<longleftrightarrow> n < length xs \<and> (\<forall>m<length xs. d (xs ! n) \<le> d (xs ! m)) \<and>
     (\<forall>m<n. d (xs ! n) < d (xs ! m))"

lemma nearest_at_Cons:
  assumes "nearest_at d xs n" and "d (xs ! n) < d x"
  shows "nearest_at d (x # xs) (Suc n)"
  unfolding nearest_at_def
proof (intro conjI allI impI)
  show "Suc n < length (x # xs)" using assms(1) by (simp add: nearest_at_def)
  show "d ((x # xs) ! Suc n) \<le> d ((x # xs) ! m)" if "m < length (x # xs)" for m
    using assms that by (cases m) (auto simp: nearest_at_def)
  show "d ((x # xs) ! Suc n) < d ((x # xs) ! m)" if "m < Suc n" for m
    using assms that by (cases m) (auto simp: nearest_at_def)
qed

lemma nearest_at_0: "\<forall>y\<in>set xs. d x \<le> d y \<Longrightarrow> nearest_at d (x # xs) 0"
  by (auto simp: nearest_at_def nth_Cons split: nat.split)

text \<open>The distance of an entry from a size, as a number.\<close>

definition size_distance :: "int \<Rightarrow> int \<Rightarrow> S_RESOLUTION \<Rightarrow> int" where
  "size_distance w h r = abs (res_width r - w) + abs (res_height r - h)"

lemma res_distance_defined:
  assumes "abs w < 2 ^ 30 - 5472" "abs h < 2 ^ 30 - 5472" "0 < res_width r" "res_width r \<le> 5472"
    "0 < res_height r" "res_height r \<le> 5472"
  shows "res_distance w h r = Some (size_distance w h r)"
proof -
  have "abs (res_width r - w) < 2 ^ 30" "abs (res_height r - h) < 2 ^ 30" using assms by linarith+
  then show ?thesis by (simp add: res_distance_def size_distance_def c_int_Some)
qed

lemma find_resolution_defined:
  "\<forall>r\<in>set rs. res_distance w h r = Some (size_distance w h r) \<Longrightarrow> find_resolution w h rs i dim res \<noteq> None"
  by (induction rs arbitrary: i dim res) auto

lemma resolution_form_sizes:
  "\<forall>r\<in>set resolution_form. 0 < res_width r \<and> res_width r \<le> 5472 \<and> 0 < res_height r \<and> res_height r \<le> 5472"
  by (simp add: resolution_form_def)

lemma find_resolution_spec:
  assumes "find_resolution w h rs i dim res = Some k"
    and "\<forall>r\<in>set rs. res_distance w h r = Some (size_distance w h r)"
  shows "(\<forall>r\<in>set rs. dim \<le> size_distance w h r \<and> size_distance w h r \<noteq> 0) \<and> k = res \<or>
    (\<exists>n. nearest_at (size_distance w h) rs n \<and> k = i + n \<and>
      (size_distance w h (rs ! n) < dim \<or> size_distance w h (rs ! n) = 0))"
  using assms
proof (induction rs arbitrary: i dim res)
  case Nil
  then show ?case by simp
next
  case (Cons r rs)
  let ?d = "size_distance w h"
  have pos: "0 \<le> ?d x" for x by (simp add: size_distance_def)
  have zero: "?d r = 0 \<longleftrightarrow> res_width r = w \<and> res_height r = h" by (auto simp: size_distance_def)
  show ?case
  proof (cases "?d r = 0")
    case True
    then have "nearest_at ?d (r # rs) 0" using pos by (intro nearest_at_0) simp
    with True Cons.prems zero show ?thesis by (intro disjI2 exI[of _ 0]) auto
  next
    case ne: False
    let ?dim = "if dim > ?d r then ?d r else dim"
    let ?res = "if dim > ?d r then i else res"
    have k: "find_resolution w h rs (Suc i) ?dim ?res = Some k"
      using Cons.prems ne zero by (auto split: if_splits)
    consider (none) "\<forall>x\<in>set rs. ?dim \<le> ?d x \<and> ?d x \<noteq> 0" "k = ?res"
      | (some) n where "nearest_at ?d rs n" "k = Suc i + n" "?d (rs ! n) < ?dim \<or> ?d (rs ! n) = 0"
      using Cons.IH[OF k] Cons.prems(2) by auto
    then show ?thesis
    proof cases
      case none
      then show ?thesis using ne nearest_at_0[of rs ?d r]
        by (cases "dim > ?d r") (auto intro!: exI[of _ 0])
    next
      case some
      have lt: "?d (rs ! n) < ?d r" using some(3) ne pos[of r] by (cases "dim > ?d r") auto
      have "?d (rs ! n) < dim \<or> ?d (rs ! n) = 0" using some(3) by (cases "dim > ?d r") auto
      with nearest_at_Cons[OF some(1) lt] some(2) show ?thesis
        by (intro disjI2 exI[of _ "Suc n"]) simp
    qed
  qed
qed

subsection \<open>Properties\<close>

lemma size_distance_zero: "size_distance w h r = 0 \<longleftrightarrow> res_width r = w \<and> res_height r = h"
  by (auto simp: size_distance_def)

lemma exact_is_nearer:
  "r \<in> set resolution_form \<Longrightarrow> size_distance w h r = 0 \<Longrightarrow> size_distance w h r < w + h"
proof -
  assume r: "r \<in> set resolution_form" and zero: "size_distance w h r = 0"
  from zero have "w = res_width r" "h = res_height r" by (simp_all add: size_distance_zero)
  with r zero resolution_form_sizes show ?thesis by fastforce
qed

text \<open>The search in the range of \<open>int\<close>.\<close>

lemma resolution_found:
  assumes "abs w < 2 ^ 30 - 5472" "abs h < 2 ^ 30 - 5472"
  obtains k where "resolution_index_for w h = Some k" "k < 32"
    "if \<exists>r\<in>set resolution_form. size_distance w h r < w + h then nearest_at (size_distance w h) resolution_form k
     else resolution_form ! k = S_RES SIZE_1920_1080 1920 1080"
proof -
  let ?d = "size_distance w h"
  have dist: "\<forall>r\<in>set resolution_form. res_distance w h r = Some (?d r)"
    using res_distance_defined [OF assms] resolution_form_sizes by blast
  have dim: "c_int (w + h) = Some (w + h)" using assms by (intro c_int_Some) simp_all
  obtain k where k: "find_resolution w h resolution_form 0 (w + h) 0xb = Some k"
    using find_resolution_defined dist by blast
  then have idx: "resolution_index_for w h = Some k" by (simp add: resolution_index_for_def dim)
  from find_resolution_spec[OF k] dist
  consider (none) "\<forall>r\<in>set resolution_form. w + h \<le> ?d r" "k = 0xb"
    | (some) "nearest_at ?d resolution_form k"
      "?d (resolution_form ! k) < w + h \<or> ?d (resolution_form ! k) = 0"
    by auto
  then show thesis
  proof cases
    case none
    then have "\<not> (\<exists>r\<in>set resolution_form. ?d r < w + h)" by force
    moreover have "resolution_form ! 0xb = S_RES SIZE_1920_1080 1920 1080" by (simp add: resolution_form_def)
    ultimately show thesis using that [OF idx] none by simp
  next
    case some
    then have n: "k < 32" by (simp add: nearest_at_def)
    then have "resolution_form ! k \<in> set resolution_form" by (intro nth_mem) simp
    with some exact_is_nearer have "\<exists>r\<in>set resolution_form. ?d r < w + h" by blast
    with that [OF idx n] some(1) show thesis by simp
  qed
qed

text \<open>C39: The resolution that \<open>set_resolution\<close> sends, for sizes below \<open>2^30 - 5472\<close> in magnitude, for which no
  \<open>int\<close> of the search overflows: always an entry of the table, the first of those nearest to the
  requested size (by the sum of the differences of width and height), or 1920 x 1080 when no
  entry is nearer than width plus height; an exact match is always found. The command
  carries its position in the table on the channel of a size setting, and other channels are refused with
  -1 and no command.\<close>

theorem resolution_nearest:
  fixes width height :: u32
  assumes "abs (sint width) < 2 ^ 30 - 5472" and "abs (sint height) < 2 ^ 30 - 5472"
  defines "d \<equiv> size_distance (sint width) (sint height)"
  shows "\<exists>k. k < 32 \<and>
   (if \<exists>r\<in>set resolution_form. d r < sint width + sint height
    then nearest_at d resolution_form k
    else resolution_form ! k = S_RES SIZE_1920_1080 1920 1080) \<and>
   (\<forall>m<32. res_width (resolution_form ! m) = sint width \<and> res_height (resolution_form ! m) = sint height \<longrightarrow>
      res_width (resolution_form ! k) = sint width \<and> res_height (resolution_form ! k) = sint height) \<and>
   set_resolution drv rs channel width height st =
     (if 12 \<le> unat channel \<and> unat channel \<le> 16 then rtos_cmd drv rs 0x1 channel (int k) st else Some (-1, [], st))"
proof -
  from resolution_found [OF assms(1,2)] obtain k where
    k: "resolution_index_for (sint width) (sint height) = Some k" "k < 32"
      "if \<exists>r\<in>set resolution_form. d r < sint width + sint height then nearest_at d resolution_form k
       else resolution_form ! k = S_RES SIZE_1920_1080 1920 1080"
    unfolding d_def by blast
  have exact: "d (resolution_form ! k) = 0" if "m < 32" "d (resolution_form ! m) = 0" for m
  proof -
    have "resolution_form ! m \<in> set resolution_form" using that(1) by (intro nth_mem) simp
    then have "\<exists>r\<in>set resolution_form. d r < sint width + sint height"
      using exact_is_nearer that(2) unfolding d_def by blast
    with k(3) have "nearest_at d resolution_form k" by argo
    with that have "d (resolution_form ! k) \<le> 0" unfolding nearest_at_def by (metis length_resolution_form)
    moreover have "0 \<le> d (resolution_form ! k)" by (simp add: d_def size_distance_def)
    ultimately show ?thesis by simp
  qed
  have "set_resolution drv rs channel width height st =
     (if 12 \<le> unat channel \<and> unat channel \<le> 16 then rtos_cmd drv rs 0x1 channel (int k) st else Some (-1, [], st))"
    by (simp add: set_resolution_def k(1) USER_0_SIZE_def H264_1_SIZE_def)
  with k(2,3) exact show ?thesis unfolding d_def size_distance_zero by blast
qed

theorem resolution_nearest_witness:
  "set_resolution demo_cam [] 13 1900 1000 demo_cam_st = rtos_cmd demo_cam [] 0x1 13 12 demo_cam_st"
proof -
  have s: "sint (1900 :: u32) = 1900" "sint (1000 :: u32) = 1000" by simp_all
  have i: "resolution_index_for 1900 1000 = Some 12"
    by (simp add: resolution_index_for_def resolution_form_def res_distance_def c_int_def)
  obtain k where "set_resolution demo_cam [] 13 1900 1000 demo_cam_st = rtos_cmd demo_cam [] 0x1 13 (int k) demo_cam_st"
    using resolution_nearest[of 1900 1000 demo_cam "[]" 13 demo_cam_st] s by auto
  moreover have "set_resolution demo_cam [] 13 1900 1000 demo_cam_st = rtos_cmd demo_cam [] 0x1 13 12 demo_cam_st"
    by (simp add: set_resolution_def i s USER_0_SIZE_def H264_1_SIZE_def)
  ultimately show ?thesis by simp
qed

text \<open>Larger sizes are not checked for: their sum overflows.\<close>

lemma resolution_overflow: "2 ^ 31 \<le> w + h \<Longrightarrow> resolution_index_for w h = None"
  by (simp add: resolution_index_for_def c_int_def)

text \<open>Starting the streams opens channels 6 and 7 with the synchronous receiver and physical
  addresses translated; every stream gets the client's callback except meta data, whose
  callback does nothing and lets the message be released at once.\<close>

theorem init_stream_callbacks:
  assumes "malloc_fresh m" and "if_lib st = fresh_lib"
    and "fst (open_result drv 6) = 0" and "fst (open_result drv 7) = 0"
    and "\<And>i r. setcb_result drv i r = 0"
  shows "\<exists>st' i. init_stream drv m create cb ud st =
      Some (0, [Open 6, Open 7, SetReceiverCB i callback_camif_fn], st') \<and>
    i = snd (open_result drv 6) \<and> \<not> phys_addr_on st' \<and> func_user_data st' = ud \<and>
    (\<forall>k. func_p st' k = (if k = Meta then dummy_callback else client_fn cb)) \<and> if_lib st' = fresh_lib"
proof -
  obtain i j where o: "open_result drv 6 = (0, i)" "open_result drv 7 = (0, j)"
    using assms(3,4) by (metis prod.collapse)
  show ?thesis
    using assms(2,5) o
    by (auto simp: init_stream_def Stream_ipcu_ch_init_def channels_of_def IPCU_STREAM_SENDID_def
        IPCU_STREAM_ACKID_def start_receiver_def install_callbacks_def)
qed

theorem init_stream_callbacks_witness:
  "\<exists>st'. init_stream \<lparr>open_result = (\<lambda>ch. (0, 3)), setcb_result = (\<lambda>_ _. 0), close_result = (\<lambda>_. 0)\<rparr>
      low_malloc (0, 1) 77 5 \<lparr>if_lib = fresh_lib, ts_id = 0, res_id = 0, phys_addr_on = True,
        func_p = (\<lambda>_. dummy_callback), func_user_data = 0\<rparr> =
    Some (0, [Open 6, Open 7, SetReceiverCB 3 callback_camif_fn], st') \<and> func_p st' Video = client_fn 77"
proof -
  let ?d = "\<lparr>open_result = (\<lambda>ch. (0, 3)), setcb_result = (\<lambda>_ _. 0), close_result = (\<lambda>_. 0)\<rparr>"
  let ?st = "\<lparr>if_lib = fresh_lib, ts_id = 0, res_id = 0, phys_addr_on = True,
        func_p = (\<lambda>_. dummy_callback), func_user_data = 0\<rparr>"
  have "if_lib ?st = fresh_lib" "fst (open_result ?d 6) = 0" "fst (open_result ?d 7) = 0"
    "\<And>i r. setcb_result ?d i r = 0" by simp_all
  from init_stream_callbacks[OF low_malloc_fresh this, of "(0, 1)" 77 5] show ?thesis by auto
qed

end
