(* ===== verification/StreamReceiver.thy ===== *)
theory StreamReceiver
  imports IpcuStream
begin

text \<open>
  \<open>src/src/stream_receiver.cpp\<close>: the list of registered consumers, the callback that hands a
  frame to them, and the start of the streams. A consumer object is a value of the type \<open>'c\<close>
  (its identity); what the callback does is the sequence of the calls of
  \<open>onFrameReceivedCallback\<close> it makes, in order.
\<close>

subsection \<open>State and operations\<close>

definition COMMAND_STREAM_VIDEO :: u32 where "COMMAND_STREAM_VIDEO = 0x00000100"
definition COMMAND_STREAM_RAW :: u32 where "COMMAND_STREAM_RAW = 0x00000300"
definition COMMAND_STREAM_YUV :: u32 where "COMMAND_STREAM_YUV = 0x00000400"
definition COMMAND_STREAM_JPG :: u32 where "COMMAND_STREAM_JPG = 0x00000500"

record 'c StreamConsumer =
  fConsumer :: 'c
  streamId :: u32
  streamType :: u32

text \<open>The third argument of the call: a pointer into the message at this offset, or \<open>nullptr\<close>.\<close>

record 'c frame_call =
  f_consumer :: 'c
  f_address :: u32
  f_size :: u64
  f_extra :: "nat option"

text \<open>
  Where \<open>media.v.sample_pts\<close> and \<open>media.j.exif\<close> are in \<open>struct cif_stream_send\<close>: the union of
  the media data is aligned to 8 bytes.
\<close>

definition MEDIA_OFFSET :: nat where "MEDIA_OFFSET = 48"
definition JPEG_EXIF_OFFSET :: nat where "JPEG_EXIF_OFFSET = MEDIA_OFFSET + 10 * 4 + 2 * 8"

definition addConsumer ::
    "u32 \<Rightarrow> u32 \<Rightarrow> 'c \<Rightarrow> 'c StreamConsumer list \<Rightarrow> 'c StreamConsumer list" where
  "addConsumer typ sid c consumerList =
     consumerList @ [\<lparr>fConsumer = c, streamId = sid, streamType = typ\<rparr>]"

text \<open>The loop of \<open>removeConsumer\<close> from index \<open>i\<close>; after an \<open>erase\<close> it still advances.\<close>

function remove_from :: "'c \<Rightarrow> nat \<Rightarrow> 'c StreamConsumer list \<Rightarrow> 'c StreamConsumer list" where
  "remove_from c i xs =
    (if i < length xs
     then remove_from c (i + 1) (if fConsumer (xs ! i) = c then take i xs @ drop (i + 1) xs else xs)
     else xs)"
  by pat_completeness auto
termination by (relation "measure (\<lambda>(c, i, xs). length xs - i)") auto

declare remove_from.simps [simp del]

definition removeConsumer :: "'c \<Rightarrow> 'c StreamConsumer list \<Rightarrow> 'c StreamConsumer list" where
  "removeConsumer c consumerList = remove_from c 0 consumerList"

text \<open>The body of the loop of \<open>cb\<close> for one registered consumer.\<close>

definition cb_one :: "byte list \<Rightarrow> 'c StreamConsumer \<Rightarrow> 'c frame_call list option" where
  "cb_one p c = do {
     sub \<leftarrow> load Sub_Command p;
     (if streamType c = sub then do {
        sid \<leftarrow> load stream_id p;
        (if sid = streamId c then do {
           addr \<leftarrow> load sample_address p;
           size \<leftarrow> load sample_size p;
           let extra = (if streamType c = COMMAND_STREAM_JPG then Some JPEG_EXIF_OFFSET
                        else if streamType c = COMMAND_STREAM_VIDEO then Some MEDIA_OFFSET
                        else None);
           Some [\<lparr>f_consumer = fConsumer c, f_address = addr, f_size = ucast size, f_extra = extra\<rparr>]
         } else Some [])
      } else Some [])
   }"

fun cb_calls :: "byte list \<Rightarrow> 'c StreamConsumer list \<Rightarrow> 'c frame_call list option" where
  "cb_calls p [] = Some []"
| "cb_calls p (c # cs) = do {
     here \<leftarrow> cb_one p c;
     rest \<leftarrow> cb_calls p cs;
     Some (here @ rest)
   }"

text \<open>\<open>cb\<close> returns 0: the frame is not kept.\<close>

definition cb_result :: int where "cb_result = 0"

text \<open>
  \<open>start\<close> fills the same structures as \<open>init_stream\<close>, with \<open>cb\<close> and the receiver itself as the
  user data; \<open>stop\<close> closes the channels.
\<close>

definition receiver_start ::
    "ipcu_driver \<Rightarrow> node_malloc \<Rightarrow> int \<times> nat \<Rightarrow> nat \<Rightarrow> nat \<Rightarrow> stream_if \<Rightarrow>
     (int \<times> ipcu_call list \<times> stream_if) option" where
  "receiver_start drv m create cb this st =
    Stream_ipcu_ch_init drv m create
      (Some \<lparr>cb_of = (\<lambda>k. if k = Meta then None else Some cb), cb_user_data = this\<rparr>)
      \<lparr>p_sw = 0, p_phys = 0, p_chid = IPCU_STREAM_SENDID, p_ackid = IPCU_STREAM_ACKID\<rparr> st"

definition receiver_stop ::
    "ipcu_driver \<Rightarrow> (stream_lib \<Rightarrow> stream_lib) \<Rightarrow> stream_if \<Rightarrow> (int \<times> ipcu_call list \<times> stream_if) option" where
  "receiver_stop drv join st = Stream_ipcu_ch_close drv join st"

text \<open>
  What the receiver's registered callbacks do with the events of the stream interface: \<open>cb\<close> for
  every stream but meta data, whose callback is the library's dummy.
\<close>

fun receiver_on :: "'c StreamConsumer list \<Rightarrow> event \<Rightarrow> 'c frame_call list option" where
  "receiver_on cs (Callback k m) = (if k = Meta then Some [] else cb_calls m cs)"
| "receiver_on cs (Send m) = Some []"

fun receiver_run :: "'c StreamConsumer list \<Rightarrow> event list \<Rightarrow> 'c frame_call list option" where
  "receiver_run cs [] = Some []"
| "receiver_run cs (e # es) = do {
     a \<leftarrow> receiver_on cs e;
     b \<leftarrow> receiver_run cs es;
     Some (a @ b)
   }"

subsection \<open>Dispatch\<close>

definition call_for :: "byte list \<Rightarrow> 'c StreamConsumer \<Rightarrow> 'c frame_call" where
  "call_for p c = \<lparr>f_consumer = fConsumer c, f_address = the (load sample_address p),
     f_size = ucast (the (load sample_size p)),
     f_extra = (if streamType c = 0x500 then Some 104 else if streamType c = 0x100 then Some 48 else None)\<rparr>"

definition wants :: "byte list \<Rightarrow> 'c StreamConsumer \<Rightarrow> bool" where
  "wants p c \<longleftrightarrow> load Sub_Command p = Some (streamType c) \<and> load stream_id p = Some (streamId c)"

lemma cb_one_eq:
  assumes "44 \<le> length p"
  shows "cb_one p c = Some (if wants p c then [call_for p c] else [])"
proof -
  obtain s i a z where "load Sub_Command p = Some s" "load stream_id p = Some i"
    "load sample_address p = Some a" "load sample_size p = Some z"
    using load_some [OF assms] by metis
  then show ?thesis
    by (auto simp: cb_one_def wants_def call_for_def JPEG_EXIF_OFFSET_def MEDIA_OFFSET_def
        COMMAND_STREAM_JPG_def COMMAND_STREAM_VIDEO_def)
qed

lemma cb_calls_eq:
  "44 \<le> length p \<Longrightarrow> cb_calls p cs = Some (map (call_for p) (filter (wants p) cs))"
  by (induction cs) (simp_all add: cb_one_eq)

subsection \<open>Removal\<close>

fun remove_skip :: "'c \<Rightarrow> 'c StreamConsumer list \<Rightarrow> 'c StreamConsumer list" where
  "remove_skip c [] = []"
| "remove_skip c [x] = (if fConsumer x = c then [] else [x])"
| "remove_skip c (x # y # xs) =
    (if fConsumer x = c then y # remove_skip c xs else x # remove_skip c (y # xs))"

lemma remove_from_skip: "remove_from c (length pre) (pre @ xs) = pre @ remove_skip c xs"
proof (induction c xs arbitrary: pre rule: remove_skip.induct)
  case (1 c)
  then show ?case by (subst remove_from.simps) simp
next
  case (2 c x)
  show ?case
    by (subst remove_from.simps, subst remove_from.simps) (simp add: nth_append)
next
  case (3 c x y xs)
  have step: "remove_from c (length pre) (pre @ x # y # xs) =
      remove_from c (length (pre @ [x])) (if fConsumer x = c then pre @ y # xs else pre @ x # y # xs)"
    by (subst remove_from.simps) (simp add: nth_append)
  show ?case
  proof (cases "fConsumer x = c")
    case True
    then show ?thesis using step 3(1) [of "pre @ [y]"] by simp
  next
    case False
    then show ?thesis using step 3(2) [of "pre @ [x]"] by simp
  qed
qed

lemma removeConsumer_skip: "removeConsumer c xs = remove_skip c xs"
  using remove_from_skip [of c "[]" xs] by (simp add: removeConsumer_def)

lemma remove_skip_others: "filter (\<lambda>x. fConsumer x \<noteq> c) (remove_skip c xs) = filter (\<lambda>x. fConsumer x \<noteq> c) xs"
  by (induction c xs rule: remove_skip.induct) auto

lemma remove_skip_append:
  assumes "filter (\<lambda>x. fConsumer x = c) xs = []"
  shows "remove_skip c (xs @ ys) = xs @ remove_skip c ys"
  using assms
proof (induction xs)
  case (Cons x xs)
  then show ?case by (cases "xs @ ys") (auto split: if_splits)
qed simp

fun twice_in_row :: "'c \<Rightarrow> 'c StreamConsumer list \<Rightarrow> bool" where
  "twice_in_row c (x # y # xs) = ((fConsumer x = c \<and> fConsumer y = c) \<or> twice_in_row c (y # xs))"
| "twice_in_row c _ = False"

lemma remove_skip_all_iff:
  "remove_skip c xs = filter (\<lambda>x. fConsumer x \<noteq> c) xs \<longleftrightarrow> \<not> twice_in_row c xs"
proof (induction c xs rule: remove_skip.induct)
  case (3 c x y xs)
  show ?case
  proof (cases "fConsumer x = c")
    case True
    show ?thesis
    proof (cases "fConsumer y = c")
      case True
      have "\<forall>z\<in>set (filter (\<lambda>x. fConsumer x \<noteq> c) xs). fConsumer z \<noteq> c" by simp
      then have "y # remove_skip c xs \<noteq> filter (\<lambda>x. fConsumer x \<noteq> c) xs"
        using True by (metis list.set_intros(1))
      then show ?thesis using True \<open>fConsumer x = c\<close> by simp
    next
      case False
      have "twice_in_row c (y # xs) = twice_in_row c xs" using False by (cases xs) auto
      then show ?thesis using 3(1) True False by simp
    qed
  next
    case False
    then show ?thesis using 3(2) by (auto split: if_splits)
  qed
qed auto

subsection \<open>One message through the library and the receiver\<close>

fun sent_of :: "event \<Rightarrow> byte list list" where
  "sent_of (Send r) = [r]"
| "sent_of _ = []"

text \<open>The nine words of the release of a message, and a message sent that has them.\<close>

definition release_words :: "(u32 \<Rightarrow> u32) \<Rightarrow> byte list \<Rightarrow> u32 list" where
  "release_words p2v m =
    (if load Sub_Command m = Some 0x10000
     then [0xAAAAFFFF, 1, 0x10100, 0x10000, the (load stype m), the (load stream_id m),
           p2v (p2v (the (load sample_address m))), 0, 0]
     else [0xAAAAFFFF, 1, 0x10100, the (load Sub_Command m), the (load stype m), the (load sformat m),
           the (load stream_id m), the (load stream_end_flg m), the (load area_index m)])"

definition answers :: "(u32 \<Rightarrow> u32) \<Rightarrow> byte list \<Rightarrow> byte list \<Rightarrow> bool" where
  "answers p2v m r \<longleftrightarrow> length r = 36 \<and> map (\<lambda>i. le_word32 (window (4 * i) 4 r)) [0..<9] = release_words p2v m"

text \<open>The call for a registration, from the message as the camera sent it.\<close>

definition delivery :: "(u32 \<Rightarrow> u32) \<Rightarrow> byte list \<Rightarrow> 'c StreamConsumer \<Rightarrow> 'c frame_call" where
  "delivery p2v m c = \<lparr>f_consumer = fConsumer c, f_address = p2v (the (load sample_address m)),
     f_size = ucast (the (load sample_size m)),
     f_extra = (if streamType c = 0x500 then Some 104 else if streamType c = 0x100 then Some 48 else None)\<rparr>"

lemma translate_tail: "translate_address p2v m = Some m' \<Longrightarrow> drop 44 m' = drop 44 m"
  by (auto simp: translate_address_def store_def split: bind_splits if_splits)

lemma callback_tail:
  assumes "callback_camif phys p2v cb send m = Some (es, m')"
  shows "drop 44 m' = drop 44 m"
  using assms
  by (auto simp: callback_camif_def split: bind_splits if_splits option.splits dest!: translate_tail)

lemma callback_events:
  assumes "44 \<le> length m"
  obtains (silent) m' where "callback_camif False p2v (\<lambda>k m. cb_result) send m = Some ([], m')"
      "\<not> (load MagicCode m = Some STREAM_MAGIC \<and> kind_of (the (load Sub_Command m)) \<noteq> None)"
      "\<forall>f. f \<noteq> sample_address \<longrightarrow> load f m' = load f m"
  | (known) k m' r where "load MagicCode m = Some STREAM_MAGIC" "kind_of (the (load Sub_Command m)) = Some k"
      "callback_camif False p2v (\<lambda>k m. cb_result) send m = Some ([Callback k m', Send r], m')"
      "\<forall>f. f \<noteq> sample_address \<longrightarrow> load f m' = load f m" "44 \<le> length m'"
      "k \<noteq> Meta \<Longrightarrow> load sample_address m' = map_option p2v (load sample_address m)"
      "answers p2v m r"
proof -
  obtain m' es where r: "callback_camif False p2v (\<lambda>k m. cb_result) send m = Some (es, m')"
    and keep: "\<forall>f. f \<noteq> sample_address \<longrightarrow> load f m' = load f m"
    and addr: "load sample_address m' = map_option (\<lambda>a. if False then a
      else if load MagicCode m = Some STREAM_MAGIC \<and> load Sub_Command m = Some 0x10000 then p2v (p2v a)
      else p2v a) (load sample_address m)"
    and es: "es = (if load MagicCode m \<noteq> Some STREAM_MAGIC then []
      else case kind_of (the (load Sub_Command m)) of None \<Rightarrow> []
        | Some k \<Rightarrow> Callback k m' # (if cb_result > 0 then [] else snd (the (release_stream send m'))))"
    using camif_callback_run [OF assms, of False p2v "\<lambda>k m. cb_result" send] by blast
  have len: "44 \<le> length m'"
    using addr load_some [OF assms, of sample_address] by (auto simp: load_def split: if_splits)
  show thesis
  proof (cases "load MagicCode m = Some STREAM_MAGIC \<and> kind_of (the (load Sub_Command m)) \<noteq> None")
    case True
    then obtain k where k: "kind_of (the (load Sub_Command m)) = Some k" by blast
    have magic: "load MagicCode m' = Some STREAM_MAGIC" using True keep by simp
    from release_message_layout [OF len magic, of send] obtain msg where
      msg: "release_stream send m' = Some (send msg, [Send msg])" "length msg = 36"
      "map (\<lambda>i. le_word32 (window (4 * i) 4 msg)) [0..<9] =
      (if load Sub_Command m' = Some 0x10000
       then [0xAAAAFFFF, 1, 0x10100, 0x10000, the (load stype m'), the (load stream_id m'),
             the (load sample_address m'), 0, 0]
       else [0xAAAAFFFF, 1, 0x10100, the (load Sub_Command m'), the (load stype m'), the (load sformat m'),
             the (load stream_id m'), the (load stream_end_flg m'), the (load area_index m')])" by blast
    have "the (load sample_address m') = (if load Sub_Command m = Some 0x10000
        then p2v (p2v (the (load sample_address m))) else p2v (the (load sample_address m)))"
      using addr True load_some [OF assms, of sample_address] by auto
    then have ans: "answers p2v m msg" using msg(2,3) keep by (simp add: answers_def release_words_def)
    have "load sample_address m' = map_option p2v (load sample_address m)" if "k \<noteq> Meta"
    proof -
      have "load Sub_Command m \<noteq> Some 0x10000" using k that by (auto simp: kind_of_def)
      then show ?thesis using addr by (cases "load sample_address m") auto
    qed
    moreover have "es = [Callback k m', Send msg]" using True es msg(1) k by (simp add: cb_result_def)
    ultimately show thesis using known True k r keep len ans by blast
  next
    case False
    then have "es = []" using es by auto
    with False r keep show thesis using silent by blast
  qed
qed

subsection \<open>Properties\<close>

text \<open>C8: A frame of the camera that arrives at the receiver, from the library's callback to the
  consumers: exactly the consumers registered for its stream and its stream number are called,
  once for every registration and in the order of registration, with the translated address of
  the frame, its size, and a pointer to the EXIF data (JPEG), to the time stamps (video) or none;
  a message with another magic code, an unknown sub-command or meta data calls nobody. The memory that
  the pointer leads to is as the camera sent it. A message with the magic code and a known
  sub-command is given back once, after the callback, by a release whose nine words are the fields of
  this message; any other message is not answered.\<close>

theorem receiver_frame_delivery:
  assumes "44 \<le> length m"
  shows "\<exists>m' es. callback_camif False p2v (\<lambda>k m. cb_result) send m = Some (es, m') \<and>
    receiver_run cs es = Some
      (if load MagicCode m = Some STREAM_MAGIC \<and> kind_of (the (load Sub_Command m)) \<notin> {None, Some Meta}
       then map (delivery p2v m) (filter (wants m) cs) else []) \<and>
    drop 44 m' = drop 44 m \<and> (\<forall>f. f \<noteq> sample_address \<longrightarrow> load f m' = load f m) \<and>
    (if load MagicCode m = Some STREAM_MAGIC \<and> kind_of (the (load Sub_Command m)) \<noteq> None
     then \<exists>r. es = [Callback (the (kind_of (the (load Sub_Command m)))) m', Send r] \<and> answers p2v m r
     else es = [])"
  using assms
proof (cases rule: callback_events [where p2v = p2v and send = send])
  case (silent m')
  then show ?thesis using callback_tail [OF silent(1)] by auto
next
  case (known k m' r)
  have w: "filter (wants m') cs = filter (wants m) cs"
    using known(4) by (intro filter_cong) (simp_all add: wants_def)
  have c: "map (call_for m') (filter (wants m) cs) = map (delivery p2v m) (filter (wants m) cs)" if "k \<noteq> Meta"
    using known(4) known(6) [OF that] load_some [OF assms, of sample_address]
    by (auto simp: call_for_def delivery_def)
  have "receiver_run cs [Callback k m', Send r] =
      Some (if k = Meta then [] else map (delivery p2v m) (filter (wants m) cs))"
    using c w by (simp add: cb_calls_eq [OF known(5)])
  then show ?thesis
    using known(1-4,7) callback_tail [OF known(3)] by simp
qed

definition demo_consumers :: "nat StreamConsumer list" where
  "demo_consumers = addConsumer COMMAND_STREAM_VIDEO 0 2 (addConsumer COMMAND_STREAM_JPG 16 1 [])"

definition demo_jpeg_frame :: "byte list" where
  "demo_jpeg_frame = concat (map le_bytes32
     [STREAM_MAGIC, 1, 0x10000, COMMAND_STREAM_JPG, 0, 0, 16, 0, 3, 0x1000, 0x40000000])"

lemma demo_jpeg_frame_words:
  "load MagicCode demo_jpeg_frame = Some STREAM_MAGIC" "load Sub_Command demo_jpeg_frame = Some 0x500"
  "load stream_id demo_jpeg_frame = Some 16" "load sample_size demo_jpeg_frame = Some 0x1000"
  "load sample_address demo_jpeg_frame = Some 0x40000000"
  by (simp_all add: load_def window_def demo_jpeg_frame_def le_bytes32_def le_word32_def
      STREAM_MAGIC_def COMMAND_STREAM_JPG_def)

theorem receiver_frame_delivery_witness:
  "\<exists>m' es r. callback_camif False (\<lambda>a. a + 16) (\<lambda>k m. cb_result) (\<lambda>m. 0) demo_jpeg_frame = Some (es, m') \<and>
    receiver_run demo_consumers es =
      Some [\<lparr>f_consumer = 1, f_address = 0x40000010, f_size = 0x1000, f_extra = Some 104\<rparr>] \<and>
    es = [Callback Jpeg m', Send r] \<and>
    map (\<lambda>i. le_word32 (window (4 * i) 4 r)) [0..<9] = [0xAAAAFFFF, 1, 0x10100, 0x500, 0, 0, 16, 0, 3]"
proof -
  have len: "44 \<le> length demo_jpeg_frame" by (simp add: demo_jpeg_frame_def)
  have k: "kind_of 0x500 = Some Jpeg" by (simp add: kind_of_def)
  have f: "filter (wants demo_jpeg_frame) demo_consumers = [\<lparr>fConsumer = 1, streamId = 16, streamType = 0x500\<rparr>]"
    by (simp add: demo_consumers_def addConsumer_def wants_def demo_jpeg_frame_words
        COMMAND_STREAM_JPG_def COMMAND_STREAM_VIDEO_def)
  have l: "load stype demo_jpeg_frame = Some 0" "load sformat demo_jpeg_frame = Some 0"
    "load stream_end_flg demo_jpeg_frame = Some 0" "load area_index demo_jpeg_frame = Some 3"
    by (simp_all add: load_def window_def demo_jpeg_frame_def le_bytes32_def le_word32_def STREAM_MAGIC_def
        COMMAND_STREAM_JPG_def)
  from receiver_frame_delivery [OF len, of "\<lambda>a. a + 16" "\<lambda>m. 0" demo_consumers] obtain m' es r where
    d: "callback_camif False (\<lambda>a. a + 16) (\<lambda>k m. cb_result) (\<lambda>m. 0) demo_jpeg_frame = Some (es, m')"
    "receiver_run demo_consumers es = Some [delivery (\<lambda>a. a + 16) demo_jpeg_frame
       \<lparr>fConsumer = 1, streamId = 16, streamType = 0x500\<rparr>]"
    "es = [Callback Jpeg m', Send r]" "answers (\<lambda>a. a + 16) demo_jpeg_frame r"
    by (auto simp: demo_jpeg_frame_words k f)
  then show ?thesis using d
    by (auto simp: delivery_def demo_jpeg_frame_words answers_def release_words_def l)
qed

text \<open>C28: \<open>removeConsumer\<close> never drops a registration of another consumer and keeps their order;
  it removes all registrations of its own consumer if and only if no two of them stand next to
  each other in the list (the loop steps over the entry that moves into the place of an erased one).\<close>

theorem remove_consumer_equivalence:
  "filter (\<lambda>x. fConsumer x \<noteq> c) (removeConsumer c xs) = filter (\<lambda>x. fConsumer x \<noteq> c) xs \<and>
   (removeConsumer c xs = filter (\<lambda>x. fConsumer x \<noteq> c) xs \<longleftrightarrow> \<not> twice_in_row c xs)"
  by (simp only: removeConsumer_skip remove_skip_others remove_skip_all_iff simp_thms)

end
