(* ===== verification/Communicator.thy ===== *)
theory Communicator
  imports Prelude "HOL-Library.Multiset"
begin

text \<open>
  \<open>src/src/communicator.cpp\<close>: the three ZeroMQ sockets. What is waiting on the sockets is an argument
  (\<open>None\<close>: nothing), what is sent a result.
\<close>

datatype sent = Published string | Reply string

definition broadcast :: "string \<Rightarrow> string \<Rightarrow> sent list" where
  "broadcast topic content = [Published (topic @ content)]"

text \<open>The GPS socket first; the other one only when the first is empty.\<close>

definition receiveSub :: "string option \<Rightarrow> string option \<Rightarrow> string option" where
  "receiveSub gps status = (case gps of Some m \<Rightarrow> Some m | None \<Rightarrow> status)"

definition success_response :: string where
  \<open>success_response = ''{                "result":"success"            }''\<close>

definition failed_response :: string where
  \<open>failed_response = ''{                "result":"failed"            }''\<close>

text \<open>
  \<open>receiveCmd\<close>: \<open>cb\<close> is the handler, on the state \<open>'s\<close>; it has no result when the process ends in
  it. Without a request the function ends without a return statement: its value is
  unknown (\<open>None\<close>), and its caller does not use it.
\<close>

definition receiveCmd ::
    "(string \<Rightarrow> 's \<Rightarrow> (bool \<times> 'e list \<times> 's) option) \<Rightarrow> string option \<Rightarrow> 's \<Rightarrow>
     (bool option \<times> 'e list \<times> sent list \<times> 's) option" where
  "receiveCmd cb request s =
    (case request of
       None \<Rightarrow> Some (None, [], [], s)
     | Some cmd \<Rightarrow> (case cb cmd s of
         None \<Rightarrow> None
       | Some (ok, es, s') \<Rightarrow>
           Some (Some True, es, [Reply (if ok then success_response else failed_response)], s')))"

lemma responses_differ: "success_response \<noteq> failed_response"
  by (simp add: success_response_def failed_response_def)

subsection \<open>The sockets\<close>

datatype socket = PublisherSocket | GpsSocket | CommandSocket | StatusSocket

datatype socket_call = Bind socket string | Connect socket string | CloseSocket socket

definition PUBLISH_URL :: string where "PUBLISH_URL = ''tcp://*:8101''"
definition GPS_URL :: string where "GPS_URL = ''ipc:///tmp/gps''"
definition STATUS_URL :: string where "STATUS_URL = ''tcp://127.0.0.1:8100''"
definition REP_URL :: string where "REP_URL = ''tcp://*:8102''"

definition Communicator_open :: "string \<Rightarrow> string \<Rightarrow> string \<Rightarrow> string \<Rightarrow> socket_call list" where
  "Communicator_open pub_url gps_url work_status_url req_url =
    [Bind PublisherSocket pub_url, Bind CommandSocket req_url, Connect GpsSocket gps_url,
     Connect StatusSocket work_status_url]"

definition Communicator_close :: "socket_call list" where
  "Communicator_close = [CloseSocket PublisherSocket, CloseSocket GpsSocket, CloseSocket CommandSocket,
     CloseSocket StatusSocket]"

text \<open>Each socket is opened once and closed once; the server listens on two ports, a third is another program's.\<close>

lemma sockets_balanced:
  "mset (map (\<lambda>c. case c of Bind s _ \<Rightarrow> s | Connect s _ \<Rightarrow> s | CloseSocket s \<Rightarrow> s) (Communicator_open a b c d)) =
    mset (map (\<lambda>c. case c of Bind s _ \<Rightarrow> s | Connect s _ \<Rightarrow> s | CloseSocket s \<Rightarrow> s) Communicator_close)"
  "distinct [PUBLISH_URL, GPS_URL, STATUS_URL, REP_URL]"
  by (simp_all add: Communicator_open_def Communicator_close_def PUBLISH_URL_def GPS_URL_def STATUS_URL_def REP_URL_def
      add_mset_commute)

end
