(* ===== verification/MainLoop.thy ===== *)
theory MainLoop
  imports JpegCapture FramedSource FrameFiles StreamReceiver Communicator
begin

text \<open>
  \<open>src/src/main.cpp\<close>: the options, the objects the server creates, the messages and requests it
  handles, the frames it hands to its consumers, and its main loop. An operation that ends the
  process has no result (\<open>None\<close>): an exception that nobody catches, or a call through a null
  pointer that uses the object. The json parser is a parameter, like json-c.
\<close>

subsection \<open>State\<close>

datatype consumer = JpegConsumer | RawConsumer | YuvConsumer | LiveConsumer | RecorderConsumer

text \<open>
  The global variables; a pointer to an object that may not exist is an option. The buffer for a
  received message is local to a round of the loop.
\<close>

record server =
  flag :: u32
  video_path :: string
  jpeg_path :: string
  rtsp_channel_name :: string
  ram_dcim_path :: string
  ram_dcim_url :: string
  consumerList :: "consumer StreamConsumer list"
  sv_jpeg :: "jpeg_capture option"
  sv_raw :: "string option"
  sv_yuv :: "string option"
  sv_live :: "live_server option"
  sv_recorder :: "media_recorder option"
  sv_gps :: gps_estone
  sv_status :: device_status
  app_abort :: bool

definition FLAG_DEBUG :: u32 where "FLAG_DEBUG = 1"
definition FLAG_VIDEO :: u32 where "FLAG_VIDEO = push_bit 1 1"
definition FLAG_MJPEG :: u32 where "FLAG_MJPEG = push_bit 2 1"
definition FLAG_JPEG :: u32 where "FLAG_JPEG = push_bit 3 1"
definition FLAG_RTSP :: u32 where "FLAG_RTSP = push_bit 4 1"

definition initial_server :: server where
  "initial_server = \<lparr>flag = 0, video_path = '''', jpeg_path = '''', rtsp_channel_name = ''test'',
     ram_dcim_path = ''/tmp/ram_dcim'', ram_dcim_url = ''http://'', consumerList = [], sv_jpeg = None, sv_raw = None, sv_yuv = None,
     sv_live = None, sv_recorder = None, sv_gps = GPSEstone, sv_status = DeviceStatus,
     app_abort = False\<rparr>"

text \<open>The options of the command line, as \<open>boost::program_options\<close> returns them.\<close>

record options =
  opt_debug :: bool
  opt_video :: "string option"
  opt_mjpeg :: bool
  opt_jpeg :: "string option"
  opt_ram_dcim_url :: "string option"
  opt_rtsp :: "string option"
  opt_gps_timing_offset :: "u32 option"

definition handle_params :: "options \<Rightarrow> server \<Rightarrow> server" where
  "handle_params vm s =
    (let s = (if opt_debug vm then s\<lparr>flag := flag s OR FLAG_DEBUG\<rparr> else s);
         s = (case opt_video vm of None \<Rightarrow> s | Some p \<Rightarrow> s\<lparr>flag := flag s OR FLAG_VIDEO, video_path := p\<rparr>);
         s = (if opt_mjpeg vm then s\<lparr>flag := flag s OR FLAG_MJPEG\<rparr> else s);
         s = (case opt_jpeg vm of None \<Rightarrow> s | Some p \<Rightarrow> s\<lparr>flag := flag s OR FLAG_JPEG, jpeg_path := p\<rparr>);
         s = (case opt_ram_dcim_url vm of None \<Rightarrow> s | Some u \<Rightarrow> s\<lparr>ram_dcim_url := u\<rparr>);
         s = (case opt_rtsp vm of None \<Rightarrow> s | Some n \<Rightarrow> s\<lparr>flag := flag s OR FLAG_RTSP, rtsp_channel_name := n\<rparr>)
     in (case opt_gps_timing_offset vm of None \<Rightarrow> s
         | Some off \<Rightarrow> s\<lparr>sv_gps := setTimingOffset off (sv_gps s)\<rparr>))"

text \<open>The module part of \<open>main\<close>, after the serial number was read.\<close>

definition init_modules :: "string \<Rightarrow> server \<Rightarrow> server" where
  "init_modules serial s =
    (let s = s\<lparr>sv_status := (sv_status s)\<lparr>serial_number := serial\<rparr>\<rparr>;
         s = (if flag s AND FLAG_JPEG \<noteq> 0
              then s\<lparr>sv_jpeg := Some (JpegCapture (jpeg_path s)), sv_raw := Some (jpeg_path s),
                     sv_yuv := Some (jpeg_path s),
                     consumerList := addConsumer COMMAND_STREAM_YUV 1 YuvConsumer
                       (addConsumer COMMAND_STREAM_RAW 1 RawConsumer
                       (addConsumer COMMAND_STREAM_JPG 16 JpegConsumer (consumerList s)))\<rparr>
              else s);
         s = (if flag s AND FLAG_RTSP \<noteq> 0
              then s\<lparr>sv_live := Some Live555Server,
                     consumerList := addConsumer COMMAND_STREAM_VIDEO 0 LiveConsumer (consumerList s)\<rparr>
              else s)
     in if flag s AND FLAG_VIDEO \<noteq> 0
        then s\<lparr>sv_recorder := Some (MediaRecorder (video_path s))\<rparr> else s)"

definition signal_handler :: "server \<Rightarrow> server" where
  "signal_handler s = s\<lparr>app_abort := True\<rparr>"

subsection \<open>Messages\<close>

text \<open>
  json, the circular buffer and the \<open>float\<close> functions: the parser, \<open>json_object_get_double\<close> converted to \<open>float\<close>,
  \<open>strtof\<close>, and the conversion of a \<open>float\<close> to an integer.
\<close>

record 'j json_ops =
  j_lib :: "'j gps_lib"
  j_parse :: "string \<Rightarrow> 'j"
  j_float :: "'j \<Rightarrow> u32"
  j_strtof :: "string \<Rightarrow> u32 option"
  j_to_int :: "u32 \<Rightarrow> u32"

text \<open>\<open>jpeg_quality\<close> is unsigned, so that a negative value is a large one.\<close>

definition quality_level :: "u32 \<Rightarrow> u32" where
  "quality_level jpeg_quality =
    (if jpeg_quality = 100 then 2 else if jpeg_quality > 90 \<and> jpeg_quality < 100 then 1 else 0)"

text \<open>A field that is set only when its string is not empty.\<close>

definition set_from :: "string \<Rightarrow> (u32 \<Rightarrow> device_status \<Rightarrow> device_status) \<Rightarrow> device_status \<Rightarrow> device_status option" where
  "set_from str f st = (if str = [] then Some st
     else (case stoi str of None \<Rightarrow> None | Some v \<Rightarrow> Some (f (word_of_int v) st)))"

definition handle_sub_msg :: "'j json_ops \<Rightarrow> u64 \<Rightarrow> string \<Rightarrow> server \<Rightarrow> server option" where
  "handle_sub_msg J now msg s = do {
     let json = j_parse J msg;
     let str = getStrFromJson (j_lib J) json;
     cmd \<leftarrow> str ''cmd'' [] [];
     (if cmd = ''GPS'' then do {
        (_, g) \<leftarrow> handleData (j_lib J) (j_strtof J) now json (sv_gps s);
        Some (s\<lparr>sv_gps := g\<rparr>)
      }
      else if cmd = ''DeviceStatus'' then do {
        t \<leftarrow> str ''data'' ''cmos_temp'' [];
        temp \<leftarrow> j_strtof J t;
        v \<leftarrow> str ''data'' ''total_voltage'' [];
        volt \<leftarrow> j_strtof J v;
        Some (s\<lparr>sv_status := (sv_status s)\<lparr>cmos_temperature := temp, input_voltage := volt\<rparr>\<rparr>)
      }
      else if cmd = ''workStatus'' then do {
        let mode = getFloatFromJson (get_ex (j_lib J)) (j_float J) 0 json ''data'' ''shutter_mode'' [];
        let st = (sv_status s)\<lparr>shutter_mode := j_to_int J mode\<rparr>;
        nr_str \<leftarrow> str ''data'' ''noise_reduction_strength'' [];
        st \<leftarrow> set_from nr_str (\<lambda>v. noise_reduction_strength_update (\<lambda>_. v)) st;
        jq_str \<leftarrow> str ''data'' ''photo_resolve'' [];
        st \<leftarrow> set_from jq_str (\<lambda>v. jpeg_quality_level_update (\<lambda>_. quality_level v)) st;
        sc_str \<leftarrow> str ''data'' ''shutter_count'' ''count1'';
        st \<leftarrow> set_from sc_str (\<lambda>v. shutter_count_update (\<lambda>_. v)) st;
        Some (s\<lparr>sv_status := st\<rparr>)
      }
      else Some s)
   }"

subsection \<open>Requests\<close>

text \<open>
  What the world does during a request: libav, the clock, and the time as text; and what the server does
  to the world: calls of libav, files written, and messages published.
\<close>

record request_world =
  rq_av :: av_start
  rq_ms :: int
  rq_time :: string

datatype effect = Av av_call | Saved string "byte list" | Publish string

text \<open>\<open>std::regex_match\<close> with \<open>(\d+)x(\d+)\<close>: the two groups.\<close>

definition match_resolution :: "string \<Rightarrow> (string \<times> string) option" where
  "match_resolution s =
    (let w = takeWhile is_digit s; rest = dropWhile is_digit s
     in if w \<noteq> [] \<and> (case rest of c # h \<Rightarrow> c = CHR ''x'' \<and> h \<noteq> [] \<and> list_all is_digit h | [] \<Rightarrow> False)
        then Some (w, tl rest) else None)"

definition request_size :: "string \<Rightarrow> (int \<times> int) option" where
  "request_size resolution =
    (case match_resolution resolution of
       None \<Rightarrow> Some (1920, 1080)
     | Some (w, h) \<Rightarrow> do { width \<leftarrow> stoi w; height \<leftarrow> stoi h; Some (width, height) })"

definition request_stream :: "string \<Rightarrow> u32 \<times> AVCodecID" where
  "request_stream stream_type =
    (if stream_type = ''H264_0'' then (0, AV_CODEC_ID_H264)
     else if stream_type = ''H264_1'' then (1, AV_CODEC_ID_H264)
     else if stream_type = ''H264_2'' then (2, AV_CODEC_ID_H264)
     else if stream_type = ''H265'' then (8, AV_CODEC_ID_H265)
     else (0, AV_CODEC_ID_H264))"

text \<open>\<open>p.find (sub)\<close> and \<open>p.erase (found, found + sub.length ())\<close>.\<close>

fun find_sub :: "string \<Rightarrow> string \<Rightarrow> nat option" where
  "find_sub sub [] = (if sub = [] then Some 0 else None)"
| "find_sub sub (c # cs) = (if take (length sub) (c # cs) = sub then Some 0
     else map_option Suc (find_sub sub cs))"

definition PARENT_PATH :: string where "PARENT_PATH = ''/run/SD/mmcblk0p1/DCIM''"

definition photo_sub_path :: "string \<Rightarrow> string" where
  "photo_sub_path p = (case find_sub PARENT_PATH p of
      None \<Rightarrow> p
    | Some found \<Rightarrow> take found p @ drop (found + (found + length PARENT_PATH)) p)"

text \<open>A null \<open>media_recorder\<close> is dereferenced by \<open>getRecordStatus\<close>.\<close>

definition video_start ::
    "request_world \<Rightarrow> int \<Rightarrow> int \<Rightarrow> u32 \<Rightarrow> AVCodecID \<Rightarrow> int \<Rightarrow> server \<Rightarrow> (bool \<times> effect list \<times> server) option" where
  "video_start w width height sid codec_id frame_rate s =
    (case sv_recorder s of
       None \<Rightarrow> None
     | Some r \<Rightarrow>
         if getRecordStatus r = RECORD_STATUS_RECORDING then Some (False, [], s)
         else (let (_, avs, r') = start_record (rq_av w) (rq_ms w) (rq_time w) codec_id width height
                      frame_rate ''.avi'' r
               in Some (True, map Av avs, s\<lparr>sv_recorder := Some r',
                    consumerList := addConsumer COMMAND_STREAM_VIDEO sid RecorderConsumer
                      (consumerList s)\<rparr>)))"

definition video_stop :: "server \<Rightarrow> (bool \<times> effect list \<times> server) option" where
  "video_stop s =
    (case sv_recorder s of
       None \<Rightarrow> None
     | Some r \<Rightarrow>
         if getRecordStatus r \<noteq> RECORD_STATUS_RECORDING then Some (False, [], s)
         else (case stop_record r of
             Fault \<Rightarrow> None
           | Done (_, avs, r') \<Rightarrow>
               Some (True, map Av avs @ [Publish (''record:'' @ ''over'')],
                 s\<lparr>sv_recorder := Some r', consumerList := removeConsumer RecorderConsumer (consumerList s)\<rparr>)))"

definition handle_cmd ::
    "'j json_ops \<Rightarrow> request_world \<Rightarrow> string \<Rightarrow> server \<Rightarrow> (bool \<times> effect list \<times> server) option" where
  "handle_cmd J w cmd_string s = do {
     let str = getStrFromJson (j_lib J) (j_parse J cmd_string);
     cmd \<leftarrow> str ''cmd'' [] [];
     (if cmd = ''VideoStorage'' then
        (case sv_recorder s of
           None \<Rightarrow> Some (False, [], s)
         | Some r \<Rightarrow> do {
             p \<leftarrow> str ''data'' ''path'' [];
             f \<leftarrow> str ''data'' ''prefix'' [];
             Some (True, [], s\<lparr>sv_recorder := Some (setPrefix f (setPath p r))\<rparr>)
           })
      else if cmd = ''PhotoStorage'' then
        (case sv_jpeg s of
           None \<Rightarrow> Some (True, [], s)
         | Some j \<Rightarrow> do {
             p \<leftarrow> str ''data'' ''path'' [];
             f \<leftarrow> str ''data'' ''prefix'' [];
             Some (True, [], s\<lparr>sv_jpeg := Some (jpeg_setPrefix f (setSubPath (photo_sub_path p) j))\<rparr>)
           })
      else if cmd = ''VideoStart'' then do {
        resolution \<leftarrow> str ''data'' ''resolve'' [];
        (width, height) \<leftarrow> (if resolution \<noteq> [] then request_size resolution else Some (1920, 1080));
        stream_type \<leftarrow> str ''data'' ''format'' [];
        let (sid, codec_id) = request_stream stream_type;
        fps \<leftarrow> str ''data'' ''fps'' [];
        frame_rate \<leftarrow> (if fps \<noteq> [] then stoi fps else Some 25);
        video_start w width height sid codec_id frame_rate s
      }
      else if cmd = ''VideoStop'' then video_stop s
      else Some (False, [], s))
   }"

subsection \<open>Frames\<close>

text \<open>
  The world while a frame is handled: the memory of the frame, the EXIF data its third argument points
  to, libexif and the files, libav and its time scale, the clocks, the locks that are free, and the
  uninitialised variables.
\<close>

record frame_world =
  fw_mem :: "u32 \<Rightarrow> nat \<Rightarrow> byte list"
  fw_info :: T_BF_DCF_IF_EXIF_INFO
  fw_jpeg :: jpeg_world
  fw_file :: file_world
  fw_av :: av_frame
  fw_rescale :: "int \<Rightarrow> int"
  fw_now :: u64
  fw_ms :: int
  fw_free :: bool
  fw_junk :: gps_data_t

definition saved_effects :: "(string \<times> byte list) option \<Rightarrow> effect list" where
  "saved_effects out = (case out of None \<Rightarrow> [] | Some (p, f) \<Rightarrow> [Saved p f])"

text \<open>\<open>savedCallback\<close> of JPEG pictures, and the callbacks of raw and YUV frames.\<close>

definition photo_result :: string where
  \<open>photo_result = ''{"cmd":"TakePhotoResult","data":{"path":"/mnt/temp","result":"success"}}''\<close>

definition savedCallback :: "server \<Rightarrow> string option \<Rightarrow> effect list" where
  "savedCallback s saved = (case saved of None \<Rightarrow> []
     | Some path \<Rightarrow> [Publish ([] @ photo_result), Publish (ram_dcim_url s @ path)])"

definition announce :: "string \<Rightarrow> string option \<Rightarrow> effect list" where
  "announce topic saved = (case saved of None \<Rightarrow> [] | Some path \<Rightarrow> [Publish (topic @ path)])"

text \<open>The virtual call of \<open>onFrameReceivedCallback\<close>; the recorder takes the size as 32 bits.\<close>

fun consumer_call :: "frame_world \<Rightarrow> consumer \<Rightarrow> u32 \<Rightarrow> u64 \<Rightarrow> server \<Rightarrow> (effect list \<times> server) run" where
  "consumer_call w JpegConsumer addr sz s =
    (case sv_jpeg s of
       None \<Rightarrow> Fault
     | Some j \<Rightarrow>
         (case jpeg_onFrameReceivedCallback (fw_free w) (fw_jpeg w) (sv_status s) (sv_gps s)
                 (fw_mem w addr (unat sz)) (fw_info w) j of
            Fault \<Rightarrow> Fault
          | Done (j', out, saved) \<Rightarrow>
              Done (saved_effects out @ savedCallback s saved, s\<lparr>sv_jpeg := Some j'\<rparr>)))"
| "consumer_call w RawConsumer addr sz s =
    (case sv_raw s of
       None \<Rightarrow> Fault
     | Some path \<Rightarrow>
         (let (out, saved) = raw_onFrameReceivedCallback (fw_file w) path (fw_mem w addr (unat sz))
          in Done (saved_effects out @ announce ''raw: '' saved, s)))"
| "consumer_call w YuvConsumer addr sz s =
    (case sv_yuv s of
       None \<Rightarrow> Fault
     | Some path \<Rightarrow>
         (let (out, saved) = yuv_onFrameReceivedCallback (fw_file w) path (fw_mem w addr (unat sz))
          in Done (saved_effects out @ announce ''yuv: '' saved, s)))"
| "consumer_call w LiveConsumer addr sz s =
    (case sv_live s of
       None \<Rightarrow> Fault
     | Some l \<Rightarrow>
         (case live_onFrameReceivedCallback (fw_free w) (fw_junk w) (sv_gps s) (fw_now w)
                 (fw_mem w addr (unat sz)) l of
            Fault \<Rightarrow> Fault
          | Done l' \<Rightarrow> Done ([], s\<lparr>sv_live := Some l'\<rparr>)))"
| "consumer_call w RecorderConsumer addr sz s =
    (case sv_recorder s of
       None \<Rightarrow> Fault
     | Some r \<Rightarrow>
         (case recorder_onFrameReceivedCallback (fw_av w) (fw_rescale w) (fw_junk w) (sv_gps s) (fw_now w)
                 (fw_ms w) (fw_mem w addr (unat (ucast sz :: u32))) r of
            Fault \<Rightarrow> Fault
          | Done avs \<Rightarrow> Done (map Av avs, s)))"

fun serve_calls :: "frame_world \<Rightarrow> consumer frame_call list \<Rightarrow> server \<Rightarrow> (effect list \<times> server) run" where
  "serve_calls w [] s = Done ([], s)"
| "serve_calls w (c # cs) s =
    (case consumer_call w (f_consumer c) (f_address c) (f_size c) s of
       Fault \<Rightarrow> Fault
     | Done (es, s') \<Rightarrow>
         (case serve_calls w cs s' of Fault \<Rightarrow> Fault | Done (fs, s'') \<Rightarrow> Done (es @ fs, s'')))"

subsection \<open>The loop\<close>

text \<open>
  One round of the loop of \<open>main\<close>: the message and the request waiting at that time, the effects,
  and what is sent on the sockets besides.
\<close>

definition main_round ::
    "'j json_ops \<Rightarrow> u64 \<Rightarrow> request_world \<Rightarrow> string option \<Rightarrow> string option \<Rightarrow> string option \<Rightarrow> server \<Rightarrow>
     (effect list \<times> sent list \<times> server) option" where
  "main_round J now w gps_msg status_msg request s = do {
     s \<leftarrow> (case receiveSub gps_msg status_msg of None \<Rightarrow> Some s | Some m \<Rightarrow> handle_sub_msg J now m s);
     (_, es, sent, s) \<leftarrow> receiveCmd (handle_cmd J w) request s;
     Some (es, sent, s)
   }"

subsection \<open>The server's states\<close>

definition good_start :: "av_start \<Rightarrow> bool" where
  "good_start av \<longleftrightarrow> alloc_ret av = 0 \<and> avio_ret av = 0 \<and> header_ret av = 0"

text \<open>The states of a server whose starts of recordings all have the results \<open>P\<close> allows.\<close>

inductive server_reachable :: "'j json_ops \<Rightarrow> (av_start \<Rightarrow> bool) \<Rightarrow> server \<Rightarrow> bool" for J P where
  sr_init: "server_reachable J P (init_modules serial (handle_params vm initial_server))"
| sr_round: "server_reachable J P s \<Longrightarrow> P (rq_av w) \<Longrightarrow>
    main_round J now w gps_msg status_msg request s = Some (es, sent, s') \<Longrightarrow> server_reachable J P s'"
| sr_frame: "server_reachable J P s \<Longrightarrow> cb_calls p (consumerList s) = Some cs \<Longrightarrow>
    serve_calls w cs s = Done (es, s') \<Longrightarrow> server_reachable J P s'"
| sr_client: "server_reachable J P s \<Longrightarrow> sv_live s = Some l \<Longrightarrow> l' \<in> {createNewStreamSource mem t l, closeStreamSource l} \<Longrightarrow>
    server_reachable J P (s\<lparr>sv_live := Some l'\<rparr>)"
| sr_signal: "server_reachable J P s \<Longrightarrow> server_reachable J P (signal_handler s)"

definition recording :: "server \<Rightarrow> bool" where
  "recording s \<longleftrightarrow> (case sv_recorder s of None \<Rightarrow> False | Some r \<Rightarrow> getRecordStatus r = RECORD_STATUS_RECORDING)"

text \<open>The registrations of the recorder.\<close>

definition recorder_entries :: "server \<Rightarrow> consumer StreamConsumer list" where
  "recorder_entries s = filter (\<lambda>c. fConsumer c = RecorderConsumer) (consumerList s)"

definition once_inv :: "server \<Rightarrow> bool" where
  "once_inv s \<longleftrightarrow> length (recorder_entries s) = (if recording s then 1 else 0) \<and>
     list_all (\<lambda>c. streamType c = COMMAND_STREAM_VIDEO) (recorder_entries s)"

lemma once_inv_cong:
  assumes "consumerList s' = consumerList s" "recording s' = recording s"
  shows "once_inv s' = once_inv s"
  using assms by (simp add: once_inv_def recorder_entries_def)

definition no_objects :: "server \<Rightarrow> bool" where
  "no_objects s \<longleftrightarrow> consumerList s = [] \<and> sv_recorder s = None"

lemma handle_params_no_objects: "no_objects s \<Longrightarrow> no_objects (handle_params vm s)"
  unfolding handle_params_def
  by (intro let_keeps [where Q = no_objects]) (auto simp: no_objects_def split: option.splits)

lemma init_once: "once_inv (init_modules serial (handle_params vm initial_server))"
proof -
  let ?s = "handle_params vm initial_server"
  have a: "consumerList ?s = []" "sv_recorder ?s = None"
    using handle_params_no_objects [of initial_server] by (simp_all add: no_objects_def initial_server_def)
  have "recorder_entries (init_modules serial ?s) = []"
    by (simp add: recorder_entries_def init_modules_def addConsumer_def Let_def a)
  moreover have "\<not> recording (init_modules serial ?s)"
    by (simp add: recording_def init_modules_def Let_def a MediaRecorder_def getRecordStatus_def)
  ultimately show ?thesis by (simp add: once_inv_def)
qed

lemma sub_msg_cases:
  assumes "handle_sub_msg J now msg s = Some s'"
  obtains (gps) r g where "handleData (j_lib J) (j_strtof J) now (j_parse J msg) (sv_gps s) = Some (r, g)" "s' = s\<lparr>sv_gps := g\<rparr>"
  | (status) st where "s' = s\<lparr>sv_status := st\<rparr>"
  | (ignored) "s' = s"
proof -
  obtain cmd where c: "getStrFromJson (j_lib J) (j_parse J msg) ''cmd'' [] [] = Some cmd"
    using assms by (cases "getStrFromJson (j_lib J) (j_parse J msg) ''cmd'' [] []")
      (simp_all add: handle_sub_msg_def Let_def)
  consider "cmd = ''GPS''" | "cmd = ''DeviceStatus''" | "cmd = ''workStatus''"
    | "cmd \<noteq> ''GPS''" "cmd \<noteq> ''DeviceStatus''" "cmd \<noteq> ''workStatus''" by blast
  then show thesis
  proof cases
    case 1
    with assms c gps show thesis by (clarsimp simp: handle_sub_msg_def Let_def bind_eq_Some_conv)
  next
    case 2
    with assms c status show thesis by (clarsimp simp: handle_sub_msg_def Let_def bind_eq_Some_conv)
  next
    case 3
    with assms c status show thesis by (clarsimp simp: handle_sub_msg_def Let_def bind_eq_Some_conv)
  next
    case 4
    with assms c ignored show thesis by (simp add: handle_sub_msg_def Let_def)
  qed
qed

lemma sub_msg_keeps:
  assumes "handle_sub_msg J now msg s = Some s'"
  shows "consumerList s' = consumerList s" "sv_recorder s' = sv_recorder s" "sv_jpeg s' = sv_jpeg s" "sv_raw s' = sv_raw s"
    "sv_yuv s' = sv_yuv s" "sv_live s' = sv_live s" "ram_dcim_url s' = ram_dcim_url s" "app_abort s' = app_abort s"
  using assms by (cases rule: sub_msg_cases; simp)+

lemma start_record_good:
  assumes "good_start av"
  shows "recordStatus (snd (snd (start_record av now t c w h f n r))) = RECORD_STATUS_RECORDING"
  using assms by (simp add: good_start_def start_record_def Let_def)

lemma start_record_bad:
  assumes "\<not> good_start av" "recordStatus r \<noteq> RECORD_STATUS_RECORDING"
  shows "recordStatus (snd (snd (start_record av now t c w h f n r))) \<noteq> RECORD_STATUS_RECORDING"
  using assms by (auto simp: good_start_def start_record_def Let_def)

lemma video_start_some:
  assumes "video_start w width height sid codec rate s = Some (ok, es, s')"
  obtains (busy) "recording s" "\<not> ok" "es = []" "s' = s"
  | (started) r r' where "sv_recorder s = Some r" "\<not> recording s" "ok"
      "r' = snd (snd (start_record (rq_av w) (rq_ms w) (rq_time w) codec width height rate ''.avi'' r))"
      "s' = s\<lparr>sv_recorder := Some r',
        consumerList := consumerList s @ [\<lparr>fConsumer = RecorderConsumer, streamId = sid, streamType = 0x100\<rparr>]\<rparr>"
  using assms
  by (auto simp: video_start_def recording_def Let_def case_prod_unfold addConsumer_def
      COMMAND_STREAM_VIDEO_def split: option.splits if_splits)

lemma video_stop_some:
  assumes "video_stop s = Some (ok, es, s')"
  obtains (idle) "\<not> recording s" "\<not> ok" "es = []" "s' = s"
  | (stopped) r' where "recording s" "ok" "recordStatus r' = RECORD_STATUS_READY"
      "es = [Av WriteTrailer, Av FreeContext, Publish ''record:over'']"
      "s' = s\<lparr>sv_recorder := Some r', consumerList := removeConsumer RecorderConsumer (consumerList s)\<rparr>"
proof (cases "recording s")
  case True
  then obtain r where r: "sv_recorder s = Some r" "getRecordStatus r = RECORD_STATUS_RECORDING"
    by (auto simp: recording_def split: option.splits)
  then have "f_ctx r \<in> {Live False, Live True}" using assms by (auto simp: video_stop_def stop_record_def split: if_splits)
  then show thesis
    using assms r True by (intro stopped [of "r\<lparr>recordStatus := RECORD_STATUS_READY, f_ctx := Wild\<rparr>"])
      (auto simp: video_stop_def stop_record_def)
next
  case False
  then show thesis using assms idle
    by (auto simp: video_stop_def recording_def split: option.splits)
qed

lemma handle_cmd_some:
  assumes "handle_cmd J w req s = Some (ok, es, s')"
  obtains (start) width height sid codec rate where
      "getStrFromJson (j_lib J) (j_parse J req) ''cmd'' [] [] = Some ''VideoStart''"
      "video_start w width height sid codec rate s = Some (ok, es, s')"
  | (stop) "getStrFromJson (j_lib J) (j_parse J req) ''cmd'' [] [] = Some ''VideoStop''"
      "video_stop s = Some (ok, es, s')"
  | (storage) r p f where
      "getStrFromJson (j_lib J) (j_parse J req) ''cmd'' [] [] = Some ''VideoStorage''"
      "sv_recorder s = Some r" "ok" "es = []" "s' = s\<lparr>sv_recorder := Some (setPrefix f (setPath p r))\<rparr>"
  | (no_storage) "getStrFromJson (j_lib J) (j_parse J req) ''cmd'' [] [] = Some ''VideoStorage''"
      "sv_recorder s = None" "\<not> ok" "es = []" "s' = s"
  | (photo) j where
      "getStrFromJson (j_lib J) (j_parse J req) ''cmd'' [] [] = Some ''PhotoStorage''"
      "ok" "es = []" "s' = s \<or> s' = s\<lparr>sv_jpeg := Some j\<rparr>"
  | (unknown) cmd where "getStrFromJson (j_lib J) (j_parse J req) ''cmd'' [] [] = Some cmd"
      "cmd \<notin> {''VideoStart'', ''VideoStop'', ''VideoStorage'', ''PhotoStorage''}" "\<not> ok" "es = []" "s' = s"
proof -
  obtain cmd where c: "getStrFromJson (j_lib J) (j_parse J req) ''cmd'' [] [] = Some cmd"
    using assms by (auto simp: handle_cmd_def Let_def split: bind_splits)
  consider "cmd = ''VideoStart''" | "cmd = ''VideoStop''" | "cmd = ''VideoStorage''" | "cmd = ''PhotoStorage''"
    | "cmd \<notin> {''VideoStart'', ''VideoStop'', ''VideoStorage'', ''PhotoStorage''}" by blast
  then show thesis
  proof cases
    case 1
    then show thesis using assms c start
      by (auto simp: handle_cmd_def Let_def split: bind_splits prod.splits)
  next
    case 2
    then show thesis using assms c stop by (simp add: handle_cmd_def Let_def)
  next
    case 3
    then show thesis using assms c storage no_storage
      by (auto simp: handle_cmd_def Let_def split: bind_splits option.splits)
  next
    case 4
    then show thesis using assms c photo
      by (auto simp: handle_cmd_def Let_def split: bind_splits option.splits)
  next
    case 5
    then show thesis using assms c unknown by (auto simp: handle_cmd_def Let_def)
  qed
qed

lemma recorder_entries_removed:
  assumes "length (recorder_entries s) \<le> 1"
  shows "filter (\<lambda>c. fConsumer c = RecorderConsumer) (removeConsumer RecorderConsumer (consumerList s)) = []"
proof -
  have "\<not> twice_in_row RecorderConsumer xs"
    if "length (filter (\<lambda>c. fConsumer c = RecorderConsumer) xs) \<le> 1" for xs :: "consumer StreamConsumer list"
    using that by (induction "RecorderConsumer" xs rule: twice_in_row.induct) (auto split: if_splits)
  then have "removeConsumer RecorderConsumer (consumerList s) =
      filter (\<lambda>c. fConsumer c \<noteq> RecorderConsumer) (consumerList s)"
    using assms by (simp add: removeConsumer_skip remove_skip_all_iff recorder_entries_def)
  then show ?thesis by simp
qed

lemma handle_cmd_once:
  assumes "handle_cmd J w req s = Some (ok, es, s')" "good_start (rq_av w)" "once_inv s"
  shows "once_inv s'"
  using assms(1)
proof (cases rule: handle_cmd_some)
  case (start width height sid codec rate)
  from start(2) show ?thesis
  proof (cases rule: video_start_some)
    case busy
    then show ?thesis using assms(3) by simp
  next
    case (started r r')
    then have "recording s'" using start_record_good [OF assms(2)]
      by (simp add: recording_def getRecordStatus_def)
    then show ?thesis using assms(3) started(2) COMMAND_STREAM_VIDEO_def
      by (simp add: once_inv_def recorder_entries_def started(5))
  qed
next
  case stop
  from stop(2) show ?thesis
  proof (cases rule: video_stop_some)
    case idle
    then show ?thesis using assms(3) by simp
  next
    case (stopped r')
    have "recorder_entries s' = []"
      using recorder_entries_removed [of s] assms(3)
      by (simp add: stopped(5) recorder_entries_def once_inv_def split: if_splits)
    moreover have "\<not> recording s'" using stopped(3,5) by (simp add: recording_def getRecordStatus_def)
    ultimately show ?thesis by (simp add: once_inv_def)
  qed
next
  case (storage r p f)
  then have "once_inv s' = once_inv s"
    by (intro once_inv_cong) (simp_all add: recording_def getRecordStatus_def setPath_def setPrefix_def)
  then show ?thesis using assms(3) by simp
next
  case (photo j)
  then have "once_inv s' = once_inv s" by (intro once_inv_cong) (auto simp: recording_def)
  then show ?thesis using assms(3) by simp
qed (use assms(3) in simp_all)

lemma main_round_cases:
  assumes "main_round J now w gps_msg status_msg request s = Some (es, sent, s')"
  obtains t where "consumerList t = consumerList s" "sv_recorder t = sv_recorder s" "request = None" "s' = t"
      "es = []" "sent = []"
  | t req ok where "consumerList t = consumerList s" "sv_recorder t = sv_recorder s" "request = Some req"
      "handle_cmd J w req t = Some (ok, es, s')"
      "sent = [Reply (if ok then success_response else failed_response)]"
proof -
  obtain t where t: "(case receiveSub gps_msg status_msg of None \<Rightarrow> Some s | Some m \<Rightarrow> handle_sub_msg J now m s) = Some t"
    and rest: "do { (_, es, sent, s) \<leftarrow> receiveCmd (handle_cmd J w) request t; Some (es, sent, s) } = Some (es, sent, s')"
    using assms by (auto simp: main_round_def split: bind_splits)
  have keep: "consumerList t = consumerList s" "sv_recorder t = sv_recorder s"
    using t by (auto split: option.split_asm dest: sub_msg_keeps)
  show thesis
  proof (cases request)
    case None
    then show thesis using rest keep that(1) by (auto simp: receiveCmd_def)
  next
    case (Some req)
    show thesis
    proof (cases "handle_cmd J w req t")
      case None
      then show thesis using rest Some by (simp add: receiveCmd_def)
    next
      case h: (Some r)
      obtain ok es1 s1 where r: "r = (ok, es1, s1)" by (cases r)
      have "es1 = es" "s1 = s'" "sent = [Reply (if ok then success_response else failed_response)]"
        using rest by (simp_all add: receiveCmd_def Some h r)
      then show thesis using that(2) [OF keep Some] h r by blast
    qed
  qed
qed

lemma consumer_call_keeps:
  assumes "consumer_call w c addr sz s = Done (es, s')"
  shows "consumerList s' = consumerList s \<and> sv_recorder s' = sv_recorder s"
  using assms
  by (cases c) (auto split: option.split_asm run.split_asm prod.split_asm simp: Let_def)

lemma serve_calls_keeps:
  "serve_calls w cs s = Done (es, s') \<Longrightarrow> consumerList s' = consumerList s \<and> sv_recorder s' = sv_recorder s"
proof (induction cs arbitrary: s es)
  case (Cons c cs)
  obtain es1 s1 where c: "consumer_call w (f_consumer c) (f_address c) (f_size c) s = Done (es1, s1)"
    using Cons.prems by (cases "consumer_call w (f_consumer c) (f_address c) (f_size c) s") auto
  obtain es2 where "serve_calls w cs s1 = Done (es2, s')"
    using Cons.prems c by (cases "serve_calls w cs s1") auto
  then show ?case using Cons.IH consumer_call_keeps [OF c] by simp
qed simp

lemma server_once: "server_reachable J good_start s \<Longrightarrow> once_inv s"
proof (induction rule: server_reachable.induct)
  case (sr_init serial vm)
  show ?case by (rule init_once)
next
  case (sr_round s w now gps_msg status_msg request es sent s')
  from sr_round.hyps(3) show ?case
  proof (cases rule: main_round_cases)
    case (1 t)
    then have "once_inv s' = once_inv s" by (intro once_inv_cong) (simp_all add: recording_def)
    then show ?thesis using sr_round.IH by simp
  next
    case (2 t req ok)
    then have "once_inv t = once_inv s" by (intro once_inv_cong) (simp_all add: recording_def)
    then show ?thesis using handle_cmd_once [OF 2(4) sr_round.hyps(2)] sr_round.IH by simp
  qed
next
  case (sr_frame s p cs w es s')
  then have "once_inv s' = once_inv s"
    using serve_calls_keeps by (intro once_inv_cong) (simp_all add: recording_def)
  then show ?case using sr_frame.IH by simp
next
  case (sr_client s l l' mem t)
  have "once_inv (s\<lparr>sv_live := Some l'\<rparr>) = once_inv s" by (intro once_inv_cong) (simp_all add: recording_def)
  then show ?case using sr_client.IH by simp
next
  case (sr_signal s)
  have "once_inv (signal_handler s) = once_inv s"
    by (intro once_inv_cong) (simp_all add: recording_def signal_handler_def)
  then show ?case using sr_signal.IH by simp
qed

text \<open>The calls that a frame makes to the recorder are those of its registrations.\<close>

definition recorder_calls :: "byte list \<Rightarrow> server \<Rightarrow> nat" where
  "recorder_calls p s = (case cb_calls p (consumerList s) of None \<Rightarrow> 0
     | Some cs \<Rightarrow> length (filter (\<lambda>c. f_consumer c = RecorderConsumer) cs))"

lemma recorder_calls_eq:
  assumes "44 \<le> length p"
  shows "recorder_calls p s = length (filter (wants p) (recorder_entries s))"
proof -
  have "filter (\<lambda>c. f_consumer c = RecorderConsumer) (map (call_for p) xs) =
      map (call_for p) (filter (\<lambda>c. fConsumer c = RecorderConsumer) xs)" for xs
    by (induction xs) (simp_all add: call_for_def)
  then show ?thesis
    by (simp add: recorder_calls_def cb_calls_eq [OF assms] recorder_entries_def conj_commute)
qed

subsection \<open>Properties\<close>

text \<open>C13: As long as every recording could be started, the recorder receives every frame of its
  stream exactly once while it records, and no frame otherwise: in every reachable state there is
  one registration if the recorder records, for one video stream, and none if it does not.\<close>

theorem server_records_once:
  assumes "server_reachable J good_start s" "44 \<le> length p"
  shows "\<exists>sid. map streamId (recorder_entries s) = (if recording s then [sid] else []) \<and>
    recorder_calls p s = (if recording s \<and> load Sub_Command p = Some 0x100 \<and> load stream_id p = Some sid
      then 1 else 0)"
proof -
  have inv: "length (recorder_entries s) = (if recording s then 1 else 0)"
    "list_all (\<lambda>c. streamType c = 0x100) (recorder_entries s)"
    using server_once [OF assms(1)] by (simp_all add: once_inv_def COMMAND_STREAM_VIDEO_def)
  show ?thesis
  proof (cases "recording s")
    case True
    then obtain c where "recorder_entries s = [c]" using inv(1) by (auto simp: length_Suc_conv)
    then show ?thesis using inv(2) True by (auto simp: recorder_calls_eq [OF assms(2)] wants_def)
  next
    case False
    then show ?thesis using inv(1) by (simp add: recorder_calls_eq [OF assms(2)])
  qed
qed

text \<open>C37: A recording that could not be started leaves its registration behind. The request is answered
  with success; after the next request that does start a recording of the same stream, every
  frame of the stream goes to the recorder twice, and stopping the recording leaves one
  registration.\<close>

theorem failed_start_records_twice:
  assumes "sv_recorder s = Some r" "\<not> recording s" "recorder_entries s = []"
    and "\<not> good_start (rq_av w1)" "good_start (rq_av w2)"
    and "video_start w1 wd1 h1 sid c1 f1 s = Some (ok1, es1, s1)"
    and "video_start w2 wd2 h2 sid c2 f2 s1 = Some (ok2, es2, s2)"
    and "video_stop s2 = Some (ok3, es3, s3)"
    and "44 \<le> length p" "load Sub_Command p = Some 0x100" "load stream_id p = Some sid"
  shows "ok1 \<and> ok2 \<and> ok3 \<and> recorder_calls p s2 = 2 \<and> recorder_calls p s3 = 1"
proof -
  let ?e = "\<lparr>fConsumer = RecorderConsumer, streamId = sid, streamType = 0x100\<rparr>"
  have w: "wants p ?e" using assms by (simp add: wants_def)
  have s1: "ok1 \<and> \<not> recording s1 \<and> consumerList s1 = consumerList s @ [?e]"
    using assms(6)
  proof (cases rule: video_start_some)
    case (started r r')
    then have "recordStatus r' \<noteq> RECORD_STATUS_RECORDING"
      using start_record_bad [OF assms(4)] by (simp add: recording_def getRecordStatus_def)
    then show ?thesis using started by (simp add: recording_def getRecordStatus_def)
  qed (use assms(2) in simp)
  have s2: "ok2 \<and> recording s2 \<and> consumerList s2 = consumerList s @ [?e, ?e]"
    using assms(7)
  proof (cases rule: video_start_some)
    case (started r r')
    then show ?thesis using start_record_good [OF assms(5)] s1 by (simp add: recording_def getRecordStatus_def)
  qed (use s1 in simp)
  have s3: "ok3 \<and> consumerList s3 = consumerList s @ [?e]"
    using assms(8)
  proof (cases rule: video_stop_some)
    case (stopped r')
    then show ?thesis using s2 assms(3) by (simp add: removeConsumer_skip remove_skip_append recorder_entries_def)
  qed (use s2 in simp)
  show ?thesis
    using s1 s2 s3 w assms(3) by (simp add: recorder_calls_eq [OF assms(9)] recorder_entries_def)
qed

text \<open>C21: Every request that the server survives gets exactly one reply, and the reply tells
  the truth about the handler's result. A request that fails changes nothing and does nothing.
  Starting succeeds exactly when nothing was being recorded and stopping exactly when something was
  (whatever libav answers); nothing is recorded after a stop; the storage requests succeed,
  the one for videos only with a recorder; every other command fails.\<close>

theorem request_answered:
  assumes "receiveCmd (handle_cmd J w) (Some req) s = Some (b, es, sent, s')"
  shows "\<exists>ok cmd. sent = [Reply (if ok then success_response else failed_response)] \<and>
    getStrFromJson (j_lib J) (j_parse J req) ''cmd'' [] [] = Some cmd \<and>
    (ok \<longleftrightarrow> (cmd = ''VideoStart'' \<and> \<not> recording s) \<or> (cmd = ''VideoStop'' \<and> recording s) \<or>
      (cmd = ''VideoStorage'' \<and> sv_recorder s \<noteq> None) \<or> cmd = ''PhotoStorage'') \<and>
    (\<not> ok \<longrightarrow> s' = s \<and> es = []) \<and>
    (cmd = ''VideoStop'' \<longrightarrow> \<not> recording s') \<and>
    (cmd = ''VideoStart'' \<and> good_start (rq_av w) \<longrightarrow> recording s')"
proof -
  obtain ok where h: "handle_cmd J w req s = Some (ok, es, s')"
    and sent: "sent = [Reply (if ok then success_response else failed_response)]"
    using assms by (cases "handle_cmd J w req s") (auto simp: receiveCmd_def)
  from h show ?thesis
  proof (cases rule: handle_cmd_some)
    case (start width height sid codec rate)
    from start(2) show ?thesis
    proof (cases rule: video_start_some)
      case busy
      then show ?thesis using sent start(1) by auto
    next
      case (started r r')
      have "recording s'" if "good_start (rq_av w)"
        using start_record_good [OF that] by (simp add: started(4,5) recording_def getRecordStatus_def)
      then show ?thesis using sent start(1) started(2,3) by auto
    qed
  next
    case stop
    from stop(2) show ?thesis
    proof (cases rule: video_stop_some)
      case idle
      then show ?thesis using sent stop(1) by auto
    next
      case (stopped r')
      then have "\<not> recording s'" by (simp add: recording_def getRecordStatus_def)
      then show ?thesis using sent stop(1) stopped(1,2) by auto
    qed
  next
    case (storage r p f)
    then show ?thesis using sent by auto
  next
    case (photo j)
    then show ?thesis using sent by auto
  qed (use sent in auto)
qed

subsection \<open>Applications\<close>

text \<open>A server for videos only; its json parser reads a text as the command of that name.\<close>

definition demo_json_ops :: "demo_json json_ops" where
  "demo_json_ops = \<lparr>j_lib = demo_jsonc, j_parse = (\<lambda>s. if s = ''GPS'' then demo_message ''-12'' ''99'' else Obj [(''cmd'', Str s)]), j_float = (\<lambda>_. 0),
     j_strtof = demo_strtof, j_to_int = (\<lambda>_. 0)\<rparr>"

definition demo_options :: options where
  "demo_options = \<lparr>opt_debug = False, opt_video = Some ''/sd'', opt_mjpeg = False, opt_jpeg = None,
     opt_ram_dcim_url = None, opt_rtsp = None, opt_gps_timing_offset = None\<rparr>"

definition demo_server :: server where
  "demo_server = init_modules ''00:11'' (handle_params demo_options initial_server)"

definition demo_request :: "int \<Rightarrow> request_world" where
  "demo_request ret = \<lparr>rq_av = \<lparr>alloc_ret = ret, avio_ret = 0, stream_ok = True, header_ret = 0\<rparr>,
     rq_ms = 1000, rq_time = ''230101120000''\<rparr>"

lemma demo_server_state:
  "sv_recorder demo_server = Some (MediaRecorder ''/sd'')" "consumerList demo_server = []"
  "\<not> recording demo_server"
  by (simp_all add: demo_server_def init_modules_def handle_params_def initial_server_def demo_options_def
      Let_def FLAG_VIDEO_def FLAG_JPEG_def FLAG_RTSP_def recording_def getRecordStatus_def MediaRecorder_def)

lemma demo_cmd: "getStrFromJson (j_lib demo_json_ops) (j_parse demo_json_ops c) ''cmd'' [] [] = Some c"
  by (simp add: getStrFromJson_def demo_json_ops_def demo_jsonc_def demo_message_def)

lemma demo_no_data:
  "c \<noteq> ''GPS'' \<Longrightarrow> getStrFromJson (j_lib demo_json_ops) (j_parse demo_json_ops c) ''data'' k l = Some []"
  by (simp add: getStrFromJson_def demo_json_ops_def demo_jsonc_def)

lemma demo_video_start:
  "handle_cmd demo_json_ops w ''VideoStart'' s = video_start w 1920 1080 0 AV_CODEC_ID_H264 25 s"
  by (simp add: handle_cmd_def demo_cmd demo_no_data request_stream_def Let_def)

definition demo_started :: server where
  "demo_started = (case video_start (demo_request 0) 1920 1080 0 AV_CODEC_ID_H264 25 demo_server of
     Some (_, _, s) \<Rightarrow> s | None \<Rightarrow> demo_server)"

lemma demo_start_eq:
  "\<exists>es. video_start (demo_request 0) 1920 1080 0 AV_CODEC_ID_H264 25 demo_server = Some (True, es, demo_started)"
  using demo_server_state
  by (simp add: demo_started_def video_start_def recording_def Let_def case_prod_unfold)

lemma demo_started_reachable: "server_reachable demo_json_ops good_start demo_started"
proof -
  obtain es where es: "video_start (demo_request 0) 1920 1080 0 AV_CODEC_ID_H264 25 demo_server =
    Some (True, es, demo_started)" using demo_start_eq by blast
  have "main_round demo_json_ops 0 (demo_request 0) None None (Some ''VideoStart'') demo_server =
      Some (es, [Reply success_response], demo_started)"
    by (simp add: main_round_def receiveSub_def receiveCmd_def demo_video_start es)
  moreover have "server_reachable demo_json_ops good_start demo_server"
    unfolding demo_server_def by (rule sr_init)
  moreover have "good_start (rq_av (demo_request 0))" by (simp add: good_start_def demo_request_def)
  ultimately show ?thesis using sr_round by blast
qed

definition demo_video_frame :: "byte list" where
  "demo_video_frame = concat (map le_bytes32
     [STREAM_MAGIC, 1, 0x10000, 0x100, 0, 0, 0, 0, 3, 0x1000, 0x40000000])"

lemma demo_video_frame_words:
  "load Sub_Command demo_video_frame = Some 0x100" "load stream_id demo_video_frame = Some 0"
  "44 \<le> length demo_video_frame"
  by (simp_all add: load_def window_def demo_video_frame_def le_bytes32_def le_word32_def STREAM_MAGIC_def)

theorem server_records_once_witness: "recorder_calls demo_video_frame demo_started = 1"
proof -
  have "recording demo_started" "map streamId (recorder_entries demo_started) = [0]"
    using demo_server_state
    by (simp_all add: demo_started_def video_start_def start_record_def demo_request_def recording_def
        getRecordStatus_def Let_def case_prod_unfold recorder_entries_def addConsumer_def)
  with server_records_once [OF demo_started_reachable demo_video_frame_words(3)]
  show ?thesis by (auto simp: demo_video_frame_words)
qed

theorem failed_start_records_twice_witness:
  "\<exists>s1 s2 s3 e1 e2 e3. video_start (demo_request (- 22)) 1920 1080 0 AV_CODEC_ID_H264 25 demo_server = Some (True, e1, s1) \<and>
     video_start (demo_request 0) 1920 1080 0 AV_CODEC_ID_H264 25 s1 = Some (True, e2, s2) \<and>
     video_stop s2 = Some (True, e3, s3) \<and> recorder_calls demo_video_frame s2 = 2 \<and>
     recorder_calls demo_video_frame s3 = 1"
proof -
  have bad: "\<not> good_start (rq_av (demo_request (- 22)))" and good: "good_start (rq_av (demo_request 0))"
    by (simp_all add: good_start_def demo_request_def)
  have e: "recorder_entries demo_server = []" by (simp add: recorder_entries_def demo_server_state)
  obtain e1 s1 where s1: "video_start (demo_request (- 22)) 1920 1080 0 AV_CODEC_ID_H264 25 demo_server =
      Some (True, e1, s1)" "sv_recorder s1 = Some ((MediaRecorder ''/sd'')\<lparr>f_ctx := Null\<rparr>)"
    using demo_server_state
    by (simp add: video_start_def start_record_def demo_request_def MediaRecorder_def getRecordStatus_def Let_def)
  obtain e2 s2 r2 where s2: "video_start (demo_request 0) 1920 1080 0 AV_CODEC_ID_H264 25 s1 =
      Some (True, e2, s2)" "sv_recorder s2 = Some r2" "recordStatus r2 = RECORD_STATUS_RECORDING" "f_ctx r2 = Live True"
    using s1(2)
    by (simp add: video_start_def start_record_def demo_request_def MediaRecorder_def getRecordStatus_def Let_def)
  obtain e3 s3 where s3: "video_stop s2 = Some (True, e3, s3)"
    using s2 by (simp add: video_stop_def stop_record_def getRecordStatus_def)
  from failed_start_records_twice [OF demo_server_state(1,3) e bad good s1(1) s2(1) s3
      demo_video_frame_words(3,1,2)] s1(1) s2(1) s3
  show ?thesis by blast
qed

theorem request_answered_witness:
  "\<exists>es s'. receiveCmd (handle_cmd demo_json_ops (demo_request 0)) (Some ''VideoStart'') demo_server =
     Some (Some True, es, [Reply success_response], s') \<and> recording s'"
proof -
  obtain es where es: "video_start (demo_request 0) 1920 1080 0 AV_CODEC_ID_H264 25 demo_server =
    Some (True, es, demo_started)" using demo_start_eq by blast
  have r: "receiveCmd (handle_cmd demo_json_ops (demo_request 0)) (Some ''VideoStart'') demo_server =
     Some (Some True, es, [Reply success_response], demo_started)"
    by (simp add: receiveCmd_def demo_video_start es)
  have "good_start (rq_av (demo_request 0))" by (simp add: good_start_def demo_request_def)
  with request_answered [OF r] demo_cmd [of "''VideoStart''"] have "recording demo_started" by auto
  with r show ?thesis by blast
qed

end
