(* ===== verification/ServerSession.thy ===== *)
theory ServerSession
  imports MainLoop
begin

text \<open>
  The stream library, the receiver and the server as one system. A camera message runs through
  \<open>callback_camif\<close> (\<open>src/src/sample_library.c\<close>, the receiver that \<open>StreamReceiver::start\<close> installs),
  \<open>cb\<close> (\<open>src/src/stream_receiver.cpp\<close>) and the consumers, and is released; the rounds of the
  loop of \<open>main\<close>, RTSP clients and signals come between messages. An input is served to its end before the
  next one, so that a session is an order of the work of the driver's thread, the main thread and the thread of
  live555, not an interleaving inside it; the races inside it that the code has are in \<open>ConsumerVector\<close> and
  \<open>LiveRace\<close>. A session is a list of such
  inputs, and its log what the server did to the outside, in order.
\<close>

subsection \<open>Inputs and the log\<close>

datatype server_event = Effect effect | Release "byte list" | Answer sent

text \<open>
  The events of the stream interface, one after the other: at a callback \<open>cb\<close> walks the
  registrations of that moment, at a release the message is sent.
\<close>

fun stream_events :: "frame_world \<Rightarrow> event list \<Rightarrow> server \<Rightarrow> (server_event list \<times> server) run" where
  "stream_events w [] s = Done ([], s)"
| "stream_events w (Send r # es) s =
    (case stream_events w es s of Fault \<Rightarrow> Fault | Done (fs, s') \<Rightarrow> Done (Release r # fs, s'))"
| "stream_events w (Callback k m # es) s =
    (case receiver_on (consumerList s) (Callback k m) of
       None \<Rightarrow> Fault
     | Some cs \<Rightarrow>
         (case serve_calls w cs s of
            Fault \<Rightarrow> Fault
          | Done (fx, s') \<Rightarrow>
              (case stream_events w es s' of
                 Fault \<Rightarrow> Fault | Done (fs, s'') \<Rightarrow> Done (map Effect fx @ fs, s''))))"

definition camera_message ::
    "(u32 \<Rightarrow> u32) \<Rightarrow> (byte list \<Rightarrow> int) \<Rightarrow> frame_world \<Rightarrow> byte list \<Rightarrow> server \<Rightarrow>
     (server_event list \<times> server) run" where
  "camera_message p2v send w m s =
    (case callback_camif False p2v (\<lambda>k m. cb_result) send m of
       None \<Rightarrow> Fault
     | Some (es, m') \<Rightarrow> stream_events w es s)"

datatype server_input =
    Camera frame_world "byte list"
  | Round u64 request_world "string option" "string option" "string option"
  | Client_opens "byte list" nat
  | Client_closes
  | Signalled

fun serve_input ::
    "'j json_ops \<Rightarrow> (u32 \<Rightarrow> u32) \<Rightarrow> (byte list \<Rightarrow> int) \<Rightarrow> server_input \<Rightarrow> server \<Rightarrow>
     (server_event list \<times> server) run" where
  "serve_input J p2v send (Camera w m) s = camera_message p2v send w m s"
| "serve_input J p2v send (Round now w gps_msg status_msg request) s =
    (case main_round J now w gps_msg status_msg request s of
       None \<Rightarrow> Fault
     | Some (es, sent, s') \<Rightarrow> Done (map Effect es @ map Answer sent, s'))"
| "serve_input J p2v send (Client_opens mem trigger) s =
    (case sv_live s of
       None \<Rightarrow> Done ([], s)
     | Some l \<Rightarrow> Done ([], s\<lparr>sv_live := Some (createNewStreamSource mem trigger l)\<rparr>))"
| "serve_input J p2v send Client_closes s =
    (case sv_live s of
       None \<Rightarrow> Done ([], s)
     | Some l \<Rightarrow> Done ([], s\<lparr>sv_live := Some (closeStreamSource l)\<rparr>))"
| "serve_input J p2v send Signalled s = Done ([], signal_handler s)"

fun server_session ::
    "'j json_ops \<Rightarrow> (u32 \<Rightarrow> u32) \<Rightarrow> (byte list \<Rightarrow> int) \<Rightarrow> server_input list \<Rightarrow> server \<Rightarrow>
     (server_event list \<times> server) run" where
  "server_session J p2v send [] s = Done ([], s)"
| "server_session J p2v send (i # ins) s =
    (case serve_input J p2v send i s of
       Fault \<Rightarrow> Fault
     | Done (es, s') \<Rightarrow>
         (case server_session J p2v send ins s' of
            Fault \<Rightarrow> Fault | Done (fs, s'') \<Rightarrow> Done (es @ fs, s'')))"

lemma server_session_Cons:
  assumes "server_session J p2v send (i # ins) s = Done (evs, s')"
  obtains es t fs where "serve_input J p2v send i s = Done (es, t)"
    "server_session J p2v send ins t = Done (fs, s')" "evs = es @ fs"
  using assms by (auto split: run.splits)

lemma server_session_append:
  assumes "server_session J p2v send (ins @ js) s = Done (evs, s')"
  obtains es t fs where "server_session J p2v send ins s = Done (es, t)"
    "server_session J p2v send js t = Done (fs, s')" "evs = es @ fs"
proof -
  have "\<exists>es t fs. server_session J p2v send ins s = Done (es, t) \<and>
      server_session J p2v send js t = Done (fs, s') \<and> evs = es @ fs"
    using assms
  proof (induction ins arbitrary: s evs)
    case (Cons i ins)
    from Cons.prems obtain es t fs where i: "serve_input J p2v send i s = Done (es, t)"
      "server_session J p2v send (ins @ js) t = Done (fs, s')" "evs = es @ fs"
      unfolding append_Cons by (rule server_session_Cons)
    from Cons.IH [OF i(2)] i show ?case by fastforce
  qed simp
  then show thesis using that by blast
qed

subsection \<open>The calls of libav in a log\<close>

fun av_of :: "effect \<Rightarrow> av_call list" where
  "av_of (Av c) = [c]"
| "av_of _ = []"

fun av_of_event :: "server_event \<Rightarrow> av_call list" where
  "av_of_event (Effect e) = av_of e"
| "av_of_event _ = []"

definition av_trace :: "server_event list \<Rightarrow> av_call list" where
  "av_trace evs = concat (map av_of_event evs)"

lemma av_trace_simps [simp]:
  "av_trace [] = []" "av_trace (e # es) = av_of_event e @ av_trace es"
  "av_trace (es @ fs) = av_trace es @ av_trace fs"
  "av_trace (map Effect (map Av cs)) = cs" "av_trace (map Answer xs) = []"
  by (simp_all add: av_trace_def comp_def)

lemma av_trace_effects: "av_trace (map Effect fx) = concat (map av_of fx)"
  by (simp add: av_trace_def comp_def)

lemma av_of_Av [simp]: "concat (map av_of (map Av cs)) = cs"
  by (simp add: comp_def)

lemma no_av:
  "e \<in> set (saved_effects x) \<Longrightarrow> av_of e = []" "e \<in> set (announce t y) \<Longrightarrow> av_of e = []"
  "e \<in> set (savedCallback s y) \<Longrightarrow> av_of e = []"
  by (auto simp: saved_effects_def announce_def savedCallback_def split: option.splits)

text \<open>What one call of the recorder writes.\<close>

definition recorder_output :: "frame_world \<Rightarrow> server \<Rightarrow> u32 \<Rightarrow> u64 \<Rightarrow> av_call list" where
  "recorder_output w s addr sz = (case sv_recorder s of
      None \<Rightarrow> []
    | Some r \<Rightarrow> (case recorder_onFrameReceivedCallback (fw_av w) (fw_rescale w) (fw_junk w) (sv_gps s) (fw_now w)
          (fw_ms w) (fw_mem w addr (unat (ucast sz :: u32))) r of Fault \<Rightarrow> [] | Done avs \<Rightarrow> avs))"

lemma consumer_call_av:
  assumes "consumer_call w c addr sz s = Done (es, s')"
  shows "concat (map av_of es) = (if c = RecorderConsumer then recorder_output w s addr sz else []) \<and>
    sv_gps s' = sv_gps s"
  using assms
  by (cases c) (auto split: option.split_asm run.split_asm prod.split_asm simp: Let_def recorder_output_def comp_def
      dest!: no_av)

lemma recorder_output_cong:
  "sv_recorder s' = sv_recorder s \<Longrightarrow> sv_gps s' = sv_gps s \<Longrightarrow> recorder_output w s' = recorder_output w s"
  by (intro ext) (simp add: recorder_output_def cong: option.case_cong)

lemma serve_calls_av:
  "serve_calls w cs s = Done (fx, s') \<Longrightarrow>
    concat (map av_of fx) = concat (map (\<lambda>c. recorder_output w s (f_address c) (f_size c))
      (filter (\<lambda>c. f_consumer c = RecorderConsumer) cs))"
proof (induction cs arbitrary: s fx)
  case (Cons c cs)
  obtain es1 s1 where c: "consumer_call w (f_consumer c) (f_address c) (f_size c) s = Done (es1, s1)"
    using Cons.prems by (cases "consumer_call w (f_consumer c) (f_address c) (f_size c) s") auto
  obtain es2 where r: "serve_calls w cs s1 = Done (es2, s')" "fx = es1 @ es2"
    using Cons.prems c by (cases "serve_calls w cs s1") auto
  have "recorder_output w s1 = recorder_output w s"
    using consumer_call_keeps [OF c] consumer_call_av [OF c] by (intro recorder_output_cong) simp_all
  with Cons.IH [OF r(1)] consumer_call_av [OF c] r(2) show ?case by simp
qed simp

subsection \<open>A server that records\<close>

text \<open>It records stream \<open>sid\<close> since the time \<open>t0\<close>, with one registration for it.\<close>

definition records :: "u32 \<Rightarrow> int \<Rightarrow> server \<Rightarrow> bool" where
  "records sid t0 s \<longleftrightarrow>
    (\<exists>r. sv_recorder s = Some r \<and> recordStatus r = RECORD_STATUS_RECORDING \<and> f_ctx r = Live True \<and> start_time r = t0) \<and>
    recorder_entries s = [\<lparr>fConsumer = RecorderConsumer, streamId = sid, streamType = 0x100\<rparr>]"

lemma records_cong:
  "sv_recorder s' = sv_recorder s \<Longrightarrow> consumerList s' = consumerList s \<Longrightarrow> records sid t0 s' = records sid t0 s"
  by (simp add: records_def recorder_entries_def)

lemma records_recording: "records sid t0 s \<Longrightarrow> recording s"
  by (auto simp: records_def recording_def getRecordStatus_def)

text \<open>The messages that an input brings to the GPS receiver.\<close>

fun gps_input :: "'j json_ops \<Rightarrow> server_input \<Rightarrow> 'j gps_op list" where
  "gps_input J (Round now w gps_msg status_msg request) =
    (case receiveSub gps_msg status_msg of
       None \<Rightarrow> []
     | Some m \<Rightarrow> (if getStrFromJson (j_lib J) (j_parse J m) ''cmd'' [] [] = Some ''GPS''
         then [Gps_message now (j_parse J m)] else []))"
| "gps_input J _ = []"

text \<open>
  What libav gets for a frame that comes after the messages \<open>ps\<close>: a packet with the bytes of the frame
  behind an SEI unit that decodes to the very sample which the receiver, \<open>g0\<close> at the beginning and
  given these messages, has for the time of the frame; and the same bytes written with the time
  since \<open>t0\<close>, if it took the packet.
\<close>

definition recorded ::
    "'j json_ops \<Rightarrow> gps_estone \<Rightarrow> (u32 \<Rightarrow> u32) \<Rightarrow> int \<Rightarrow> 'j gps_op list \<times> frame_world \<times> byte list \<Rightarrow>
     av_call list \<Rightarrow> bool" where
  "recorded J g0 p2v t0 = (\<lambda>(ps, w, m) cs. \<exists>g d sei bytes.
     gps_run (j_lib J) (j_strtof J) ps g0 = Some g \<and>
     gps_for_frame (fw_junk w) g (fw_now w) = Done d \<and>
     sei_decode sei = Some [longitude d, latitude d, altitude d, pitch d, yaw d, roll d] \<and>
     bytes = sei @ fw_mem w (p2v (the (load sample_address m))) (unat (the (load sample_size m))) \<and>
     cs = PacketFromData bytes #
       (if packet_ret (fw_av w) = 0 then [WriteFrame bytes (fw_rescale w (fw_ms w - t0))] else []))"

lemma recorder_output_recorded:
  assumes "records sid t0 s" and "gps_for_frame (fw_junk w) (sv_gps s) (fw_now w) = Done d"
    and "gps_run (j_lib J) (j_strtof J) ps g0 = Some (sv_gps s)"
    and "a = p2v (the (load sample_address m))" and "z = the (load sample_size m)"
  shows "recorded J g0 p2v t0 (ps, w, m) (recorder_output w s a (ucast z))"
proof -
  from assms(1) obtain r where r: "sv_recorder s = Some r" "recordStatus r = RECORD_STATUS_RECORDING"
    "f_ctx r = Live True" "start_time r = t0" by (auto simp: records_def)
  have "ucast (ucast z :: u64) = z" by (rule bit_word_eqI) (simp add: bit_ucast_iff)
  then have "recorder_output w s a (ucast z) = PacketFromData (fst (sei_encode d) @ fw_mem w a (unat z)) #
      (if packet_ret (fw_av w) = 0
       then [WriteFrame (fst (sei_encode d) @ fw_mem w a (unat z)) (fw_rescale w (fw_ms w - t0))] else [])"
    using recorder_on_recording [OF r(2,3) assms(2)] r(1,4) by (simp add: recorder_output_def get_timestamp_def)
  then show ?thesis using sei_encode_decodes [of d] assms(2-5) unfolding recorded_def by auto
qed

text \<open>The messages of a session that carry frames of the video stream \<open>sid\<close>.\<close>

fun video_frame :: "u32 \<Rightarrow> server_input \<Rightarrow> (frame_world \<times> byte list) list" where
  "video_frame sid (Camera w m) = (if load MagicCode m = Some STREAM_MAGIC \<and>
     load Sub_Command m = Some 0x100 \<and> load stream_id m = Some sid then [(w, m)] else [])"
| "video_frame sid _ = []"

text \<open>Each with the GPS messages that came before it.\<close>

fun video_frames :: "'j json_ops \<Rightarrow> u32 \<Rightarrow> 'j gps_op list \<Rightarrow> server_input list \<Rightarrow>
    ('j gps_op list \<times> frame_world \<times> byte list) list" where
  "video_frames J sid ps [] = []"
| "video_frames J sid ps (i # ins) =
    map (Pair ps) (video_frame sid i) @ video_frames J sid (ps @ gps_input J i) ins"

text \<open>No input asks to stop the recording.\<close>

definition no_stop :: "'j json_ops \<Rightarrow> server_input \<Rightarrow> bool" where
  "no_stop J i = (case i of
     Round _ _ _ _ (Some req) \<Rightarrow> getStrFromJson (j_lib J) (j_parse J req) ''cmd'' [] [] \<noteq> Some ''VideoStop''
   | _ \<Rightarrow> True)"

lemma camera_message_long:
  "camera_message p2v send w m s = Done (evs, s') \<Longrightarrow> 44 \<le> length m"
  by (auto simp: camera_message_def callback_camif_def translate_address_def load_def Let_def
      split: option.splits bind_splits if_splits)

text \<open>A message that reaches consumers runs through one callback and one release.\<close>

lemma camera_message_eq:
  assumes "44 \<le> length m"
  obtains (nobody) rs where "\<And>w s. camera_message p2v send w m s = Done (map Release rs, s)"
      "\<not> (load MagicCode m = Some STREAM_MAGIC \<and> kind_of (the (load Sub_Command m)) \<notin> {None, Some Meta})"
  | (served) m' msg where "load MagicCode m = Some STREAM_MAGIC" "kind_of (the (load Sub_Command m)) \<notin> {None, Some Meta}"
      "44 \<le> length m'" "\<forall>f. f \<noteq> sample_address \<longrightarrow> load f m' = load f m"
      "load sample_address m' = map_option p2v (load sample_address m)"
      "\<And>w s. camera_message p2v send w m s =
        (case serve_calls w (map (call_for m') (filter (wants m) (consumerList s))) s of
           Fault \<Rightarrow> Fault | Done (fx, s') \<Rightarrow> Done (map Effect fx @ [Release msg], s'))"
proof -
  obtain m' es where r: "callback_camif False p2v (\<lambda>k m. cb_result) send m = Some (es, m')"
    and keep: "\<forall>f. f \<noteq> sample_address \<longrightarrow> load f m' = load f m"
    and addr: "load sample_address m' = map_option (\<lambda>a. if False then a
      else if load MagicCode m = Some STREAM_MAGIC \<and> load Sub_Command m = Some 0x10000 then p2v (p2v a)
      else p2v a) (load sample_address m)"
    and es: "es = (if load MagicCode m \<noteq> Some STREAM_MAGIC then []
      else case kind_of (the (load Sub_Command m)) of None \<Rightarrow> []
        | Some k \<Rightarrow> Callback k m' # (if cb_result > 0 then [] else snd (the (release_stream send m'))))"
    using camif_callback_run [OF assms, of False p2v "\<lambda>k m. cb_result" send] by blast
  have len': "44 \<le> length m'"
    using addr load_some [OF assms, of sample_address] by (auto simp: load_def split: if_splits)
  have w: "wants m' = wants m" using keep by (intro ext) (simp add: wants_def)
  obtain msg where rel: "release_stream send m' = Some (if load MagicCode m' = Some STREAM_MAGIC
      then (send msg, [Send msg]) else (-1, []))"
    using release_stream_some [OF len'] by blast
  show thesis
  proof (cases "load MagicCode m = Some STREAM_MAGIC \<and> kind_of (the (load Sub_Command m)) \<notin> {None, Some Meta}")
    case True
    then obtain k where k: "kind_of (the (load Sub_Command m)) = Some k" "k \<noteq> Meta" by auto
    with True es keep rel have e: "es = [Callback k m', Send msg]" by (auto simp: cb_result_def)
    have "load Sub_Command m \<noteq> Some 0x10000" using k by (auto simp: kind_of_def)
    then have "load sample_address m' = map_option p2v (load sample_address m)"
      using addr by (cases "load sample_address m") auto
    moreover have "camera_message p2v send w m s =
        (case serve_calls w (map (call_for m') (filter (wants m) (consumerList s))) s of
           Fault \<Rightarrow> Fault | Done (fx, s') \<Rightarrow> Done (map Effect fx @ [Release msg], s'))" for w s
      using k(2) by (simp add: camera_message_def r e cb_calls_eq [OF len'] \<open>wants m' = wants m\<close> split: run.split)
    ultimately show thesis using served True len' keep by blast
  next
    case False
    have "\<exists>rs. \<forall>w s. stream_events w es s = Done (map Release rs, s)"
    proof (cases es)
      case (Cons e ds)
      with es False rel keep have "es = [Callback Meta m', Send msg]"
        by (auto simp: cb_result_def split: option.splits if_splits)
      then show ?thesis by (intro exI [of _ "[msg]"]) simp
    qed (auto intro: exI [of _ "[]"])
    then show thesis using nobody False by (auto simp: camera_message_def r)
  qed
qed

lemma camera_message_cases:
  assumes "camera_message p2v send w m s = Done (evs, s')"
  obtains (nobody) rs where "evs = map Release rs" "s' = s"
      "\<not> (load MagicCode m = Some STREAM_MAGIC \<and> kind_of (the (load Sub_Command m)) \<notin> {None, Some Meta})"
  | (served) m' fx msg where "load MagicCode m = Some STREAM_MAGIC" "44 \<le> length m'"
      "\<forall>f. f \<noteq> sample_address \<longrightarrow> load f m' = load f m"
      "load sample_address m' = map_option p2v (load sample_address m)"
      "serve_calls w (map (call_for m') (filter (wants m) (consumerList s))) s = Done (fx, s')"
      "evs = map Effect fx @ [Release msg]"
  using camera_message_long [OF assms]
proof (cases rule: camera_message_eq [where p2v = p2v and send = send])
  case (nobody rs)
  then show thesis using assms that(1) [of rs] by simp
next
  case (served m' msg)
  from assms [unfolded served(6)] obtain fx where
    "serve_calls w (map (call_for m') (filter (wants m) (consumerList s))) s = Done (fx, s')"
    "evs = map Effect fx @ [Release msg]" by (auto split: run.splits)
  then show thesis using that(2) served by blast
qed

text \<open>The calls of one consumer, and the bytes a call hands over.\<close>

lemma calls_of_consumer:
  "filter (\<lambda>c. f_consumer c = d) (map (call_for m') (filter (wants m) xs)) =
    map (call_for m') (filter (wants m) (filter (\<lambda>c. fConsumer c = d) xs))"
  by (simp add: filter_map comp_def call_for_def conj_commute)

lemma call_bytes:
  assumes "44 \<le> length m" "\<forall>f. f \<noteq> sample_address \<longrightarrow> load f m' = load f m"
    "load sample_address m' = map_option p2v (load sample_address m)"
  shows "fw_mem w (f_address (call_for m' e)) (unat (f_size (call_for m' e))) =
    fw_mem w (p2v (the (load sample_address m))) (unat (the (load sample_size m)))"
proof -
  have "unat (ucast z :: u64) = unat z" for z :: u32
    using unsigned_less [of z, where 'a = nat] by (simp add: unsigned_ucast_eq take_bit_nat_eq_self)
  then show ?thesis using assms(2,3) load_some [OF assms(1), of sample_address] by (auto simp: call_for_def)
qed

lemma recorder_labels:
  "serve_calls w cs s = Done (fx, s') \<Longrightarrow> records sid t0 s \<Longrightarrow>
    \<exists>c\<in>set cs. f_consumer c = RecorderConsumer \<Longrightarrow>
    \<exists>d. gps_for_frame (fw_junk w) (sv_gps s) (fw_now w) = Done d"
proof (induction cs arbitrary: s fx)
  case (Cons c cs)
  obtain es1 s1 where c: "consumer_call w (f_consumer c) (f_address c) (f_size c) s = Done (es1, s1)"
    using Cons.prems(1) by (cases "consumer_call w (f_consumer c) (f_address c) (f_size c) s") auto
  obtain es2 where r: "serve_calls w cs s1 = Done (es2, s')"
    using Cons.prems(1) c by (cases "serve_calls w cs s1") auto
  show ?case
  proof (cases "f_consumer c = RecorderConsumer")
    case True
    then show ?thesis using c Cons.prems(2)
      by (auto simp: records_def recorder_onFrameReceivedCallback_def write_one_frame_def split: run.splits)
  next
    case False
    moreover have "records sid t0 s1" using consumer_call_keeps [OF c] Cons.prems(2) records_cong by blast
    ultimately show ?thesis
      using Cons.IH [OF r] Cons.prems(3) consumer_call_av [OF c] by simp
  qed
qed simp

lemma camera_records:
  assumes rec: "records sid t0 s" and m: "camera_message p2v send w m s = Done (evs, s')"
    and g: "gps_run (j_lib J) (j_strtof J) ps g0 = Some (sv_gps s)"
  shows "records sid t0 s' \<and>
    (\<exists>css. list_all2 (recorded J g0 p2v t0) (map (Pair ps) (video_frame sid (Camera w m))) css \<and>
      av_trace evs = concat css)"
  using m
proof (cases rule: camera_message_cases)
  case (nobody rs)
  then have "video_frame sid (Camera w m) = []" by (auto simp: kind_of_def)
  moreover have "av_trace (map Release rs) = []" by (simp add: av_trace_def comp_def)
  ultimately show ?thesis using rec nobody by auto
next
  case (served m' fx msg)
  let ?e = "\<lparr>fConsumer = RecorderConsumer, streamId = sid, streamType = 0x100\<rparr>"
  let ?cs = "filter (wants m) (consumerList s)"
  have keep: "records sid t0 s'"
    using serve_calls_keeps [OF served(5)] rec records_cong by blast
  have "filter (\<lambda>c. f_consumer c = RecorderConsumer) (map (call_for m') ?cs) = (if wants m ?e then [call_for m' ?e] else [])"
    unfolding calls_of_consumer using rec by (simp add: records_def recorder_entries_def)
  then have fx: "concat (map av_of fx) = (if wants m ?e
      then recorder_output w s (f_address (call_for m' ?e)) (f_size (call_for m' ?e)) else [])"
    using serve_calls_av [OF served(5)] by simp
  show ?thesis
  proof (cases "wants m ?e")
    case False
    then have "video_frame sid (Camera w m) = []" by (auto simp: wants_def)
    with keep fx False show ?thesis by (simp add: served(6) av_trace_effects)
  next
    case True
    then have v: "video_frame sid (Camera w m) = [(w, m)]" using served(1) by (simp add: wants_def)
    obtain d where d: "gps_for_frame (fw_junk w) (sv_gps s) (fw_now w) = Done d"
      using recorder_labels [OF served(5) rec] True rec
      by (force simp: records_def recorder_entries_def call_for_def filter_eq_Cons_iff)
    have "f_address (call_for m' ?e) = p2v (the (load sample_address m))"
      "f_size (call_for m' ?e) = ucast (the (load sample_size m))"
      using served(3,4) load_some [OF camera_message_long [OF m], of sample_address] by (auto simp: call_for_def)
    with recorder_output_recorded [OF rec d g] have
      "recorded J g0 p2v t0 (ps, w, m) (recorder_output w s (f_address (call_for m' ?e)) (f_size (call_for m' ?e)))"
      by simp
    with keep fx True v show ?thesis
      by (intro conjI exI [of _ "[concat (map av_of fx)]"]) (simp_all add: served(6) av_trace_effects)
  qed
qed

subsection \<open>Everything that may happen during a recording\<close>

lemma round_records:
  assumes rec: "records sid t0 s" and no: "no_stop J (Round now w gps_msg status_msg request)"
    and r: "main_round J now w gps_msg status_msg request s = Some (es, sent, s')"
  shows "records sid t0 s' \<and> es = []"
  using r
proof (cases rule: main_round_cases)
  case (1 t)
  then show ?thesis using rec records_cong [of s' s] by simp
next
  case (2 t req ok)
  then have t: "records sid t0 t" using rec records_cong [of t s] by blast
  from 2(4) show ?thesis
  proof (cases rule: handle_cmd_some)
    case (start width height sid' codec rate)
    from start(2) records_recording [OF t] show ?thesis
      using t by (cases rule: video_start_some) auto
  next
    case stop
    then show ?thesis using no 2(3) by (simp add: no_stop_def)
  next
    case (storage r p f)
    then have "records sid t0 s'" using t
      by (auto simp: records_def recorder_entries_def setPath_def setPrefix_def)
    with storage show ?thesis by simp
  next
    case (photo j)
    then have "records sid t0 s' = records sid t0 t" by (intro records_cong) auto
    with photo t show ?thesis by simp
  qed (use t in auto)
qed

lemma input_records:
  assumes rec: "records sid t0 s" and no: "no_stop J i" and i: "serve_input J p2v send i s = Done (evs, s')"
    and g: "gps_run (j_lib J) (j_strtof J) ps g0 = Some (sv_gps s)"
  shows "records sid t0 s' \<and>
    (\<exists>css. list_all2 (recorded J g0 p2v t0) (map (Pair ps) (video_frame sid i)) css \<and> av_trace evs = concat css)"
proof (cases i)
  case (Camera w m)
  with camera_records [OF rec _ g] i show ?thesis by simp
next
  case (Round now w gps_msg status_msg request)
  with i obtain es sent where r: "main_round J now w gps_msg status_msg request s = Some (es, sent, s')"
    "evs = map Effect es @ map Answer sent" by (auto split: option.splits)
  from round_records [OF rec _ r(1)] no Round r(2) show ?thesis by simp
next
  case (Client_opens mem trigger)
  with i rec show ?thesis
    by (auto split: option.splits simp: records_def recorder_entries_def)
next
  case Client_closes
  with i rec show ?thesis
    by (auto split: option.splits simp: records_def recorder_entries_def)
next
  case Signalled
  with i rec show ?thesis by (auto simp: records_def recorder_entries_def signal_handler_def)
qed

text \<open>The receiver follows its messages, and nothing else touches it.\<close>

lemma serve_calls_gps: "serve_calls w cs s = Done (fx, s') \<Longrightarrow> sv_gps s' = sv_gps s"
proof (induction cs arbitrary: s fx)
  case (Cons c cs)
  then show ?case
    by (auto split: run.splits dest!: consumer_call_av)
qed simp

lemma handle_cmd_gps:
  assumes "handle_cmd J w req s = Some (ok, es, s')"
  shows "sv_gps s' = sv_gps s"
  using assms
proof (cases rule: handle_cmd_some)
  case (start width height sid codec rate)
  from start(2) show ?thesis by (cases rule: video_start_some) auto
next
  case stop
  from stop(2) show ?thesis by (cases rule: video_stop_some) auto
qed auto

lemma sub_msg_gps:
  assumes "handle_sub_msg J now msg s = Some s'"
  shows "gps_run (j_lib J) (j_strtof J)
    (if getStrFromJson (j_lib J) (j_parse J msg) ''cmd'' [] [] = Some ''GPS''
     then [Gps_message now (j_parse J msg)] else []) (sv_gps s) = Some (sv_gps s')"
proof (cases "getStrFromJson (j_lib J) (j_parse J msg) ''cmd'' [] [] = Some ''GPS''")
  case True
  then show ?thesis using assms by (auto simp: handle_sub_msg_def Let_def split: bind_splits)
next
  case False
  then have "sv_gps s' = sv_gps s"
    using assms by (auto simp: handle_sub_msg_def Let_def split: bind_splits if_splits)
  with False show ?thesis by simp
qed

lemma input_gps:
  assumes "serve_input J p2v send i s = Done (evs, s')"
  shows "gps_run (j_lib J) (j_strtof J) (gps_input J i) (sv_gps s) = Some (sv_gps s')"
proof (cases i)
  case (Camera w m)
  with assms have "camera_message p2v send w m s = Done (evs, s')" by simp
  then have "sv_gps s' = sv_gps s"
    by (cases rule: camera_message_cases) (auto dest: serve_calls_gps)
  with Camera show ?thesis by simp
next
  case (Round now w gps_msg status_msg request)
  with assms obtain es sent where "main_round J now w gps_msg status_msg request s = Some (es, sent, s')"
    by (auto split: option.splits)
  then obtain t where t: "(case receiveSub gps_msg status_msg of None \<Rightarrow> Some s | Some m \<Rightarrow> handle_sub_msg J now m s) = Some t"
    "do { (_, es, sent, s) \<leftarrow> receiveCmd (handle_cmd J w) request t; Some (es, sent, s) } = Some (es, sent, s')"
    by (auto simp: main_round_def split: bind_splits)
  have "sv_gps s' = sv_gps t"
    using t(2) by (auto simp: receiveCmd_def split: option.split_asm bind_splits dest: handle_cmd_gps)
  moreover have "gps_run (j_lib J) (j_strtof J) (gps_input J i) (sv_gps s) = Some (sv_gps t)"
  proof (cases "receiveSub gps_msg status_msg")
    case None
    with t(1) show ?thesis by (simp add: Round)
  next
    case (Some m)
    with t(1) have "handle_sub_msg J now m s = Some t" by simp
    from sub_msg_gps [OF this] Some show ?thesis by (simp add: Round)
  qed
  ultimately show ?thesis by simp
next
  case Signalled
  with assms show ?thesis by (auto simp: signal_handler_def)
qed (use assms in \<open>auto split: option.splits\<close>)

lemma session_records:
  "server_session J p2v send ins s = Done (evs, s') \<Longrightarrow> records sid t0 s \<Longrightarrow> list_all (no_stop J) ins \<Longrightarrow>
    gps_run (j_lib J) (j_strtof J) ps g0 = Some (sv_gps s) \<Longrightarrow>
    records sid t0 s' \<and>
    (\<exists>css. list_all2 (recorded J g0 p2v t0) (video_frames J sid ps ins) css \<and> av_trace evs = concat css)"
proof (induction ins arbitrary: s evs ps)
  case (Cons i ins)
  from Cons.prems(1) obtain es t fs where i: "serve_input J p2v send i s = Done (es, t)"
    "server_session J p2v send ins t = Done (fs, s')" "evs = es @ fs" by (rule server_session_Cons)
  from input_records [OF Cons.prems(2) _ i(1) Cons.prems(4)] Cons.prems(3) obtain cs1 where
    t: "records sid t0 t" "list_all2 (recorded J g0 p2v t0) (map (Pair ps) (video_frame sid i)) cs1"
      "av_trace es = concat cs1" by auto
  have g: "gps_run (j_lib J) (j_strtof J) (ps @ gps_input J i) g0 = Some (sv_gps t)"
    using Cons.prems(4) input_gps [OF i(1)] by (simp add: gps_run_append)
  from Cons.IH [OF i(2) t(1) _ g] Cons.prems(3) obtain cs2 where
    u: "records sid t0 s'" "list_all2 (recorded J g0 p2v t0) (video_frames J sid (ps @ gps_input J i) ins) cs2"
      "av_trace fs = concat cs2" by auto
  from list_all2_appendI [OF t(2) u(2)] u t i(3) show ?case by (intro conjI exI [of _ "cs1 @ cs2"]) simp_all
qed simp

text \<open>The parameters that a request to start a recording asks for, as \<open>handle_cmd\<close> reads them.\<close>

definition start_parameters :: "'j json_ops \<Rightarrow> string \<Rightarrow> (int \<times> int \<times> u32 \<times> AVCodecID \<times> int) option" where
  "start_parameters J req = do {
     let str = getStrFromJson (j_lib J) (j_parse J req);
     resolution \<leftarrow> str ''data'' ''resolve'' [];
     (width, height) \<leftarrow> (if resolution \<noteq> [] then request_size resolution else Some (1920, 1080));
     stream_type \<leftarrow> str ''data'' ''format'' [];
     fps \<leftarrow> str ''data'' ''fps'' [];
     frame_rate \<leftarrow> (if fps \<noteq> [] then stoi fps else Some 25);
     Some (width, height, fst (request_stream stream_type), snd (request_stream stream_type), frame_rate)
   }"

lemma start_request:
  assumes "getStrFromJson (j_lib J) (j_parse J req) ''cmd'' [] [] = Some ''VideoStart''"
    and "handle_cmd J w req s = Some (ok, es, s')"
  shows "\<exists>width height sid codec rate. start_parameters J req = Some (width, height, sid, codec, rate) \<and>
    video_start w width height sid codec rate s = Some (ok, es, s')"
  using assms
  by (auto simp: handle_cmd_def start_parameters_def Let_def case_prod_unfold split: bind_splits)

lemma round_request:
  assumes "serve_input J p2v send (Round now w gps_msg status_msg (Some req)) s = Done (evs, s')"
  obtains t ok es where "consumerList t = consumerList s" "sv_recorder t = sv_recorder s"
    "handle_cmd J w req t = Some (ok, es, s')" "av_trace evs = concat (map av_of es)"
proof -
  from assms obtain es sent where r: "main_round J now w gps_msg status_msg (Some req) s = Some (es, sent, s')"
    "evs = map Effect es @ map Answer sent" by (auto split: option.splits)
  from r(1) show thesis
    using that r(2) by (cases rule: main_round_cases) (auto simp: av_trace_effects)
qed

lemma session_starts:
  assumes i: "serve_input J p2v send (Round now w gps_msg status_msg (Some req)) s = Done (evs, s')"
    and cmd: "getStrFromJson (j_lib J) (j_parse J req) ''cmd'' [] [] = Some ''VideoStart''"
    and s: "\<not> recording s" "recorder_entries s = []" "sv_recorder s = Some r"
    and av: "good_start (rq_av w)" "av_documented (rq_av w)"
  obtains width height sid codec rate where "start_parameters J req = Some (width, height, sid, codec, rate)"
    "records sid (rq_ms w) s'"
    "av_trace evs = (let path = record_path r @ ''/'' @ name_prefix r @ rq_time w @ ''.avi'' in
       [AllocOutputContext path, AvioOpen path, NewStream codec width height rate, WriteHeader])"
proof -
  from i obtain t ok es where t: "consumerList t = consumerList s" "sv_recorder t = sv_recorder s"
    "handle_cmd J w req t = Some (ok, es, s')" "av_trace evs = concat (map av_of es)" by (rule round_request)
  from start_request [OF cmd t(3)] obtain width height sid codec rate where
    p: "start_parameters J req = Some (width, height, sid, codec, rate)"
      "video_start w width height sid codec rate t = Some (ok, es, s')" by blast
  have "\<not> recording t" "recorder_entries t = []" "sv_recorder t = Some r"
    using s t by (simp_all add: recording_def recorder_entries_def)
  with p(2) av t(4) that [OF p(1)] show thesis
    by (auto simp: video_start_def start_record_def good_start_def av_documented_def records_def recorder_entries_def
        recording_def Let_def createVideoStream_def addConsumer_def COMMAND_STREAM_VIDEO_def split: if_splits)
qed

lemma session_stops:
  assumes i: "serve_input J p2v send (Round now w gps_msg status_msg (Some req)) s = Done (evs, s')"
    and cmd: "getStrFromJson (j_lib J) (j_parse J req) ''cmd'' [] [] = Some ''VideoStop''"
    and s: "records sid t0 s"
  shows "\<not> recording s' \<and> recorder_entries s' = [] \<and> av_trace evs = [WriteTrailer, FreeContext]"
proof -
  from i obtain t ok es where t: "consumerList t = consumerList s" "sv_recorder t = sv_recorder s"
    "handle_cmd J w req t = Some (ok, es, s')" "av_trace evs = concat (map av_of es)" by (rule round_request)
  then have "records sid t0 t" using s records_cong by blast
  then have r: "recording t" "length (recorder_entries t) \<le> 1"
    by (auto simp: records_recording) (simp add: records_def)
  have "video_stop t = Some (ok, es, s')" using t(3) cmd by (simp add: handle_cmd_def Let_def)
  then show ?thesis
    using r t(4) recorder_entries_removed [of t]
    by (cases rule: video_stop_some) (auto simp: recording_def getRecordStatus_def recorder_entries_def)
qed

subsection \<open>Properties\<close>

text \<open>C1: A whole recording, from the request that starts it to the one that stops it. Whatever
  comes between (camera messages of any kind, GPS and status messages, other requests, RTSP
  clients, signals), if the server survives it, then libav is called exactly as follows: the
  file of the path and the parameters of the request is opened and its header written; then every video
  frame of the requested stream, and no other frame, is handed over once, in the order of arrival, as the
  bytes at its translated address behind an SEI unit, with the time since the start. The unit decodes to
  the very sample that the GPS receiver gives for the time of the frame after exactly the GPS messages
  that came before the frame (\<open>gps_run\<close>, the run of \<open>GpsEstone\<close> over messages); then the trailer is written and the context freed. Afterwards nothing is recorded
  and the recorder is not registered.\<close>

theorem recording_session:
  assumes "server_reachable J good_start s" "\<not> recording s" "sv_recorder s = Some r"
    and "good_start (rq_av w1)" "av_documented (rq_av w1)"
    and "getStrFromJson (j_lib J) (j_parse J start) ''cmd'' [] [] = Some ''VideoStart''"
    and "getStrFromJson (j_lib J) (j_parse J stop) ''cmd'' [] [] = Some ''VideoStop''"
    and "list_all (no_stop J) ins"
    and "server_session J p2v send
      (Round n1 w1 g1 d1 (Some start) # ins @ [Round n2 w2 g2 d2 (Some stop)]) s = Done (evs, s')"
  shows "\<exists>width height sid codec rate path css.
    start_parameters J start = Some (width, height, sid, codec, rate) \<and>
    path = record_path r @ ''/'' @ name_prefix r @ rq_time w1 @ ''.avi'' \<and>
    list_all2 (recorded J (sv_gps s) p2v (rq_ms w1))
      (video_frames J sid (gps_input J (Round n1 w1 g1 d1 (Some start))) ins) css \<and>
    av_trace evs = [AllocOutputContext path, AvioOpen path, NewStream codec width height rate, WriteHeader] @
      concat css @ [WriteTrailer, FreeContext] \<and>
    \<not> recording s' \<and> recorder_entries s' = []"
proof -
  have entries: "recorder_entries s = []"
    using server_once [OF assms(1)] assms(2) by (simp add: once_inv_def)
  from assms(9) obtain es t fs where first: "serve_input J p2v send (Round n1 w1 g1 d1 (Some start)) s = Done (es, t)"
    and rest: "server_session J p2v send (ins @ [Round n2 w2 g2 d2 (Some stop)]) t = Done (fs, s')"
    and evs: "evs = es @ fs" by (rule server_session_Cons)
  from rest obtain gs u hs where mid: "server_session J p2v send ins t = Done (gs, u)"
    and last: "server_session J p2v send [Round n2 w2 g2 d2 (Some stop)] u = Done (hs, s')"
    and fs: "fs = gs @ hs" by (rule server_session_append)
  have final: "serve_input J p2v send (Round n2 w2 g2 d2 (Some stop)) u = Done (hs, s')"
    using last by (auto split: run.splits)
  from session_starts [OF first assms(6,2) entries assms(3,4,5)] obtain width height sid codec rate where
    p: "start_parameters J start = Some (width, height, sid, codec, rate)" "records sid (rq_ms w1) t"
    and a: "av_trace es = (let path = record_path r @ ''/'' @ name_prefix r @ rq_time w1 @ ''.avi'' in
       [AllocOutputContext path, AvioOpen path, NewStream codec width height rate, WriteHeader])" .
  from session_records [OF mid p(2) assms(8) input_gps [OF first]] obtain css where
    u: "records sid (rq_ms w1) u" "list_all2 (recorded J (sv_gps s) p2v (rq_ms w1))
      (video_frames J sid (gps_input J (Round n1 w1 g1 d1 (Some start))) ins) css"
      "av_trace gs = concat css" by blast
  from session_stops [OF final assms(7) u(1)] p(1) u a show ?thesis by (auto simp: evs fs Let_def)
qed

text \<open>A session of the demonstration server: one frame between start and stop.\<close>

definition demo_frame_world :: frame_world where
  "demo_frame_world = \<lparr>fw_mem = (\<lambda>a n. [0, 0, 1, 0x65]), fw_info = demo_info, fw_jpeg = demo_world,
     fw_file = \<lparr>f_opens = True, f_write = 4, f_time = ''230101120000''\<rparr>, fw_av = \<lparr>packet_ret = 0, write_ret = 0\<rparr>,
     fw_rescale = (\<lambda>x. x), fw_now = 0, fw_ms = 1040, fw_free = True, fw_junk = demo_sample\<rparr>"

lemma demo_round:
  assumes "handle_cmd demo_json_ops w req s = Some (ok, es, s')"
  shows "\<exists>evs. serve_input demo_json_ops p2v send (Round 0 w None None (Some req)) s = Done (evs, s')"
  using assms by (simp add: main_round_def receiveSub_def receiveCmd_def)

lemma camera_served:
  assumes "44 \<le> length m"
    and "\<And>m'. 44 \<le> length m' \<Longrightarrow> \<exists>fx. serve_calls w (map (call_for m') (filter (wants m) (consumerList s))) s = Done (fx, t)"
    and "load MagicCode m = Some STREAM_MAGIC" "kind_of (the (load Sub_Command m)) = Some k" "k \<noteq> Meta"
  shows "\<exists>evs. camera_message p2v send w m s = Done (evs, t)"
  using assms(1)
proof (cases rule: camera_message_eq [where p2v = p2v and send = send])
  case (nobody rs)
  then show ?thesis using assms(3-5) by simp
next
  case (served m' msg)
  then show ?thesis using assms(2) [OF served(3)] by auto
qed

lemma demo_video_frame_magic: "load MagicCode demo_video_frame = Some STREAM_MAGIC"
  by (simp add: load_def window_def demo_video_frame_def le_bytes32_def le_word32_def STREAM_MAGIC_def)

lemma demo_started_server:
  "consumerList demo_started = [\<lparr>fConsumer = RecorderConsumer, streamId = 0, streamType = 0x100\<rparr>]"
  "\<exists>r. sv_recorder demo_started = Some r \<and> recordStatus r = RECORD_STATUS_RECORDING \<and> f_ctx r = Live True \<and> start_time r = 1000"
  "sv_gps demo_started = GPSEstone"
  using demo_server_state
  by (simp_all add: demo_started_def video_start_def start_record_def demo_request_def recording_def
      getRecordStatus_def MediaRecorder_def Let_def addConsumer_def COMMAND_STREAM_VIDEO_def)
    (simp add: demo_server_def init_modules_def handle_params_def initial_server_def demo_options_def Let_def)

text \<open>The session: a start, a GPS message, one frame, a stop.\<close>

definition demo_inputs :: "server_input list" where
  "demo_inputs = [Round 5000 (demo_request 0) (Some ''GPS'') None None, Camera demo_frame_world demo_video_frame]"

definition demo_labelled :: server where
  "demo_labelled = demo_started\<lparr>sv_gps := demo_taken\<rparr>"

lemma demo_labelled_gps: "gps_for_frame junk demo_taken 0 = Done (last (gps_data_buf demo_taken))"
  by (simp add: gps_for_frame_def getGPSData_def demo_taken_def getTimingOffset_def GPSEstone_def)

lemma demo_gps_round:
  "\<exists>evs. serve_input demo_json_ops p2v send (Round 5000 (demo_request 0) (Some ''GPS'') None None) demo_started =
     Done (evs, demo_labelled)"
proof -
  have "handle_sub_msg demo_json_ops 5000 ''GPS'' demo_started = Some demo_labelled"
    using demo_message_taken demo_cmd [of "''GPS''"]
    by (simp add: handle_sub_msg_def Let_def demo_started_server(3) demo_labelled_def)
      (simp add: demo_json_ops_def)
  then show ?thesis by (simp add: main_round_def receiveSub_def receiveCmd_def)
qed

lemma demo_camera: "\<exists>evs. camera_message id (\<lambda>_. 0) demo_frame_world demo_video_frame demo_labelled = Done (evs, demo_labelled)"
proof (rule camera_served [where k = Video])
  fix m' :: "byte list"
  assume "44 \<le> length m'"
  from demo_started_server(2) obtain r where r: "sv_recorder demo_started = Some r"
    "recordStatus r = RECORD_STATUS_RECORDING" "f_ctx r = Live True" by blast
  show "\<exists>fx. serve_calls demo_frame_world (map (call_for m') (filter (wants demo_video_frame) (consumerList demo_labelled)))
      demo_labelled = Done (fx, demo_labelled)"
    using recorder_on_recording [OF r(2,3) demo_labelled_gps] r(1)
    by (simp add: demo_started_server(1) demo_labelled_def wants_def demo_video_frame_words call_for_def demo_frame_world_def)
qed (simp_all add: demo_video_frame_words kind_of_def demo_video_frame_magic)

lemma demo_session:
  "\<exists>evs s'. server_session demo_json_ops id (\<lambda>_. 0) (Round 0 (demo_request 0) None None (Some ''VideoStart'') #
     demo_inputs @ [Round 0 (demo_request 0) None None (Some ''VideoStop'')]) demo_server = Done (evs, s')"
proof -
  obtain es where "handle_cmd demo_json_ops (demo_request 0) ''VideoStart'' demo_server = Some (True, es, demo_started)"
    using demo_start_eq by (auto simp: demo_video_start)
  from demo_round [OF this] obtain e1 where e1: "serve_input demo_json_ops id (\<lambda>_. 0)
      (Round 0 (demo_request 0) None None (Some ''VideoStart'')) demo_server = Done (e1, demo_started)" by blast
  obtain e0 where e0: "serve_input demo_json_ops id (\<lambda>_. 0)
      (Round 5000 (demo_request 0) (Some ''GPS'') None None) demo_started = Done (e0, demo_labelled)"
    using demo_gps_round by blast
  obtain e2 where e2: "camera_message id (\<lambda>_. 0) demo_frame_world demo_video_frame demo_labelled = Done (e2, demo_labelled)"
    using demo_camera by blast
  from demo_started_server(2) obtain r where "sv_recorder demo_labelled = Some r"
    "recordStatus r = RECORD_STATUS_RECORDING" "f_ctx r = Live True" by (auto simp: demo_labelled_def)
  then obtain es s' where "handle_cmd demo_json_ops (demo_request 0) ''VideoStop'' demo_labelled = Some (True, es, s')"
    by (simp add: handle_cmd_def demo_cmd Let_def video_stop_def getRecordStatus_def stop_record_def)
  from demo_round [OF this] obtain e3 where e3: "serve_input demo_json_ops id (\<lambda>_. 0)
      (Round 0 (demo_request 0) None None (Some ''VideoStop'')) demo_labelled = Done (e3, s')" by blast
  show ?thesis by (simp add: demo_inputs_def e0 e1 e2 e3 del: serve_input.simps(2))
qed

theorem recording_session_witness:
  "\<exists>evs s' sei. server_session demo_json_ops id (\<lambda>_. 0) (Round 0 (demo_request 0) None None (Some ''VideoStart'') #
     demo_inputs @ [Round 0 (demo_request 0) None None (Some ''VideoStop'')]) demo_server = Done (evs, s') \<and>
   sei_decode sei = Some [7, - 12, - 3, 0x3f800000, 0x3f800000, 0x3f800000] \<and>
   av_trace evs = [AllocOutputContext ''/sd/video230101120000.avi'', AvioOpen ''/sd/video230101120000.avi'',
     NewStream AV_CODEC_ID_H264 1920 1080 25, WriteHeader, PacketFromData (sei @ [0, 0, 1, 0x65]),
     WriteFrame (sei @ [0, 0, 1, 0x65]) 40, WriteTrailer, FreeContext]"
proof -
  from demo_session obtain evs s' where s: "server_session demo_json_ops id (\<lambda>_. 0)
      (Round 0 (demo_request 0) None None (Some ''VideoStart'') # demo_inputs @
        [Round 0 (demo_request 0) None None (Some ''VideoStop'')]) demo_server = Done (evs, s')" by blast
  have reach: "server_reachable demo_json_ops good_start demo_server"
    unfolding demo_server_def by (rule sr_init)
  have av: "good_start (rq_av (demo_request 0))" "av_documented (rq_av (demo_request 0))"
    by (simp_all add: good_start_def av_documented_def demo_request_def)
  have p: "start_parameters demo_json_ops ''VideoStart'' = Some (1920, 1080, 0, AV_CODEC_ID_H264, 25)"
    by (simp add: start_parameters_def demo_no_data request_stream_def Let_def)
  have f: "video_frame 0 (Camera demo_frame_world demo_video_frame) = [(demo_frame_world, demo_video_frame)]"
    by (simp add: demo_video_frame_words load_def window_def demo_video_frame_def le_bytes32_def le_word32_def
        STREAM_MAGIC_def)
  let ?ps = "[Gps_message 5000 (demo_message ''-12'' ''99'')]"
  have g: "gps_input demo_json_ops (Round 5000 (demo_request 0) (Some ''GPS'') None None) = ?ps"
    using demo_cmd [of "''GPS''"] by (simp add: receiveSub_def) (simp add: demo_json_ops_def)
  have "sv_gps demo_server = GPSEstone"
    by (simp add: demo_server_def init_modules_def handle_params_def initial_server_def demo_options_def Let_def)
  then have run: "gps_run (j_lib demo_json_ops) (j_strtof demo_json_ops) ?ps (sv_gps demo_server) = Some demo_taken"
    using demo_message_taken by (simp add: demo_json_ops_def)
  have v: "video_frames demo_json_ops 0 [] demo_inputs = [(?ps, demo_frame_world, demo_video_frame)]"
    using f g by (simp add: demo_inputs_def del: gps_input.simps(1) video_frame.simps(1))
  have "gps_input demo_json_ops (Round 0 (demo_request 0) None None (Some ''VideoStart'')) = []"
    by (simp add: receiveSub_def)
  from recording_session [OF reach demo_server_state(3,1) av demo_cmd demo_cmd _ s] p v this
  obtain css where c: "list_all2 (recorded demo_json_ops (sv_gps demo_server) id 1000)
      [(?ps, demo_frame_world, demo_video_frame)] css"
    "av_trace evs = [AllocOutputContext ''/sd/video230101120000.avi'', AvioOpen ''/sd/video230101120000.avi'',
     NewStream AV_CODEC_ID_H264 1920 1080 25, WriteHeader] @ concat css @ [WriteTrailer, FreeContext]"
    by (auto simp: demo_inputs_def no_stop_def MediaRecorder_def demo_request_def)
  obtain cs sei where "css = [cs]"
    "sei_decode sei = Some [7, - 12, - 3, 0x3f800000, 0x3f800000, 0x3f800000]"
    "cs = [PacketFromData (sei @ [0, 0, 1, 0x65]), WriteFrame (sei @ [0, 0, 1, 0x65]) 40]"
    using c(1) run demo_labelled_gps
    by (auto simp: list_all2_Cons1 recorded_def demo_frame_world_def demo_taken_def)
  then show ?thesis using s c(2) by auto
qed

subsection \<open>Every frame is given back\<close>

fun release_of :: "server_event \<Rightarrow> byte list list" where
  "release_of (Release r) = [r]"
| "release_of _ = []"

definition releases :: "server_event list \<Rightarrow> byte list list" where
  "releases evs = concat (map release_of evs)"

lemma releases_simps [simp]:
  "releases [] = []" "releases (e # es) = release_of e @ releases es"
  "releases (es @ fs) = releases es @ releases fs"
  "releases (map Effect fx) = []" "releases (map Answer xs) = []"
  by (simp_all add: releases_def comp_def)

lemma stream_events_releases:
  "stream_events w es s = Done (evs, s') \<Longrightarrow> releases evs = concat (map sent_of es)"
  by (induction w es s arbitrary: evs rule: stream_events.induct) (auto split: run.splits option.splits)

text \<open>The messages of a session that the library knows.\<close>

fun known_message :: "server_input \<Rightarrow> byte list list" where
  "known_message (Camera w m) = (if load MagicCode m = Some STREAM_MAGIC \<and>
     kind_of (the (load Sub_Command m)) \<noteq> None then [m] else [])"
| "known_message _ = []"

lemma camera_releases:
  assumes "camera_message p2v send w m s = Done (evs, s')"
  shows "list_all2 (answers p2v) (known_message (Camera w m)) (releases evs)"
proof -
  have rel: "releases evs = concat (map sent_of es)"
    if "callback_camif False p2v (\<lambda>k m. cb_result) send m = Some (es, m')" for es m'
    using assms that stream_events_releases by (auto simp: camera_message_def)
  from camera_message_long [OF assms] show ?thesis
  proof (cases rule: callback_events [where p2v = p2v and send = send])
    case (silent m')
    then show ?thesis using rel [OF silent(1)] by auto
  next
    case (known k m' r)
    then show ?thesis using rel [OF known(3)] by simp
  qed
qed

lemma released_in_session:
  assumes "server_session J p2v send ins s = Done (evs, s')"
  shows "list_all2 (answers p2v) (concat (map known_message ins)) (releases evs)"
  using assms
proof (induction ins arbitrary: s evs)
  case (Cons i ins)
  from Cons.prems obtain es t fs where i: "serve_input J p2v send i s = Done (es, t)"
    "server_session J p2v send ins t = Done (fs, s')" "evs = es @ fs" by (rule server_session_Cons)
  have "list_all2 (answers p2v) (known_message i) (releases es)"
    using i(1) camera_releases [of p2v send _ _ s es t] by (cases i) (auto split: option.splits)
  with Cons.IH [OF i(2)] i(3) show ?case by (simp add: list_all2_appendI)
qed simp

text \<open>C9: Every frame buffer is given back. However messages, requests and clients follow on each other, the
  releases sent are those of the messages with the magic code and a known sub-command, one for each
  and in the order of arrival, whether or not a consumer wants the frame; each has 36 bytes and reads
  back as the fields of its message. The release of meta data, which is found by its address,
  carries the address after two translations instead of the one the camera sent.\<close>

theorem session_releases:
  assumes "server_session J p2v send ins s = Done (evs, s')"
  shows "list_all2 (answers p2v) (concat (map known_message ins)) (releases evs)"
  using assms by (rule released_in_session)

theorem session_releases_witness:
  "\<exists>evs s' r. server_session demo_json_ops id (\<lambda>_. 0) (Round 0 (demo_request 0) None None (Some ''VideoStart'') #
     demo_inputs @ [Round 0 (demo_request 0) None None (Some ''VideoStop'')]) demo_server = Done (evs, s') \<and> releases evs = [r] \<and>
   map (\<lambda>i. le_word32 (window (4 * i) 4 r)) [0..<9] = [0xAAAAFFFF, 1, 0x10100, 0x100, 0, 0, 0, 0, 3]"
proof -
  from demo_session obtain evs s' where s: "server_session demo_json_ops id (\<lambda>_. 0)
      (Round 0 (demo_request 0) None None (Some ''VideoStart'') # demo_inputs @
        [Round 0 (demo_request 0) None None (Some ''VideoStop'')]) demo_server = Done (evs, s')" by blast
  have f: "load MagicCode demo_video_frame = Some STREAM_MAGIC" "load stype demo_video_frame = Some 0"
    "load sformat demo_video_frame = Some 0" "load stream_end_flg demo_video_frame = Some 0"
    "load area_index demo_video_frame = Some 3"
    by (simp_all add: load_def window_def demo_video_frame_def le_bytes32_def le_word32_def STREAM_MAGIC_def)
  have "kind_of 0x100 = Some Video" by (simp add: kind_of_def)
  with session_releases [OF s] s f show ?thesis
    by (auto simp: demo_inputs_def demo_video_frame_words list_all2_Cons1 answers_def release_words_def)
qed

end
