(* ===== verification/ServerMain.thy ===== *)
theory ServerMain
  imports ServerSession
begin

text \<open>
  \<open>main\<close> of \<open>src/src/main.cpp\<close> from its start to its exit code, with \<open>src/src/gpio_ctrl.cpp\<close>: the
  commands for the feedback pin, the options, the serial number, the modules, the start of the
  streams, the loop until a signal, and the end of the streams. The shell, the command
  line, the IPCU driver and the order of inputs are parameters.
\<close>

subsection \<open>The feedback pin\<close>

text \<open>The commands given to \<open>system\<close>.\<close>

definition gpio_value :: "string \<Rightarrow> string" where
  "gpio_value v = ''echo '' @ v @ '' > /sys/class/gpio/gpio440/value''"

definition init_jpeg_feedback_gpio :: "string list" where
  "init_jpeg_feedback_gpio = [''echo 440 > /sys/class/gpio/export'',
     ''echo out > /sys/class/gpio/gpio440/direction'', gpio_value ''0'']"

definition set_feedback_gpio :: "int \<Rightarrow> string list" where
  "set_feedback_gpio value = (if value = 0 then [gpio_value ''0''] else [gpio_value ''1''])"

subsection \<open>The serial number\<close>

text \<open>\<open>fgets\<close> into a cleared buffer of \<open>n\<close> characters: what is left of the text as a C string.\<close>

definition fgets_string :: "nat \<Rightarrow> string \<Rightarrow> string" where
  "fgets_string n text =
    (let t = take (n - 1) text;
         line = takeWhile (\<lambda>c. c \<noteq> CHR 0x0A) t
     in takeWhile (\<lambda>c. c \<noteq> CHR 0x00) (take (length line + 1) t))"

text \<open>
  The output of the command, or \<open>None\<close> if \<open>popen\<close> fails: then \<open>fclose\<close> is called with a null
  pointer, which ends the process.
\<close>

definition read_serial :: "string option \<Rightarrow> string option" where
  "read_serial out = (case out of None \<Rightarrow> None | Some text \<Rightarrow> Some (fgets_string 20 text))"

subsection \<open>The whole program\<close>

text \<open>The static state of the stream interface before \<open>main\<close>.\<close>

definition initial_stream_if :: stream_if where
  "initial_stream_if = \<lparr>if_lib = fresh_lib, ts_id = 0, res_id = 0, phys_addr_on = False,
     func_p = (\<lambda>_. dummy_callback), func_user_data = 0\<rparr>"

fun is_round :: "server_input \<Rightarrow> bool" where
  "is_round (Round _ _ _ _ _) = True"
| "is_round _ = False"

fun is_camera :: "server_input \<Rightarrow> bool" where
  "is_camera (Camera _ _) = True"
| "is_camera _ = False"

text \<open>
  The receiver that the driver has after some calls: the last one that it accepted. A message of the camera
  is handed to it, and to nobody when there is none.
\<close>

fun receiver_after :: "ipcu_driver \<Rightarrow> ipcu_call list \<Rightarrow> receiver \<Rightarrow> receiver" where
  "receiver_after drv [] f = f"
| "receiver_after drv (SetReceiverCB i g # cs) f = receiver_after drv cs (if setcb_result drv i g = 0 then g else f)"
| "receiver_after drv (_ # cs) f = receiver_after drv cs f"

text \<open>
  The loop: a round begins only while \<open>app_abort\<close> is false, other inputs arrive at any time. \<open>rcv\<close> is the
  receiver that the driver has; a camera message reaches the program if that is \<open>callback_camif\<close> (the
  only one that \<open>main\<close> ever installs). The flag of the result: the loop was left.
\<close>

fun main_loop ::
    "'j json_ops \<Rightarrow> (u32 \<Rightarrow> u32) \<Rightarrow> (byte list \<Rightarrow> int) \<Rightarrow> receiver \<Rightarrow> server_input list \<Rightarrow> server \<Rightarrow>
     (server_event list \<times> server \<times> bool) run" where
  "main_loop J p2v send rcv [] s = Done ([], s, False)"
| "main_loop J p2v send rcv (i # ins) s =
    (if is_round i \<and> app_abort s then Done ([], s, True)
     else if is_camera i \<and> rcv \<noteq> callback_camif_fn then main_loop J p2v send rcv ins s
     else (case serve_input J p2v send i s of
         Fault \<Rightarrow> Fault
       | Done (es, t) \<Rightarrow>
           (case main_loop J p2v send rcv ins t of
              Fault \<Rightarrow> Fault | Done (fs, s', left) \<Rightarrow> Done (es @ fs, s', left))))"

record main_world =
  mw_options :: options
  mw_serial :: "string option"
  mw_driver :: ipcu_driver
  mw_malloc :: node_malloc
  mw_create :: "int \<times> nat"
  mw_join :: "stream_lib \<Rightarrow> stream_lib"

record main_run =
  run_shell :: "string list"
  run_start :: int
  run_calls :: "ipcu_call list"
  run_events :: "server_event list"
  run_server :: server
  run_exit :: "int option"

text \<open>
  \<open>run_exit\<close> is the exit code, or \<open>None\<close> while the loop is still running. The result of \<open>start\<close> is not
  looked at.
\<close>

definition server_main ::
    "'j json_ops \<Rightarrow> (u32 \<Rightarrow> u32) \<Rightarrow> (byte list \<Rightarrow> int) \<Rightarrow> main_world \<Rightarrow> server_input list \<Rightarrow> main_run run" where
  "server_main J p2v send w ins =
    (case read_serial (mw_serial w) of
       None \<Rightarrow> Fault
     | Some serial \<Rightarrow>
         let s = init_modules serial (handle_params (mw_options w) initial_server)
         in (case receiver_start (mw_driver w) (mw_malloc w) (mw_create w) 0 0 initial_stream_if of
               None \<Rightarrow> Fault
             | Some (ret, cs, st) \<Rightarrow>
                 (case main_loop J p2v send (receiver_after (mw_driver w) cs no_receiver) ins s of
                    Fault \<Rightarrow> Fault
                  | Done (evs, s', left) \<Rightarrow>
                      if \<not> left
                      then Done \<lparr>run_shell = init_jpeg_feedback_gpio, run_start = ret, run_calls = cs,
                        run_events = evs, run_server = s', run_exit = None\<rparr>
                      else (case receiver_stop (mw_driver w) (mw_join w) st of
                          None \<Rightarrow> Fault
                        | Some (code, cs', st') \<Rightarrow>
                            Done \<lparr>run_shell = init_jpeg_feedback_gpio, run_start = ret, run_calls = cs @ cs',
                              run_events = evs, run_server = s', run_exit = Some code\<rparr>))))"

subsection \<open>Lemmas\<close>

text \<open>Closing streams that have no thread.\<close>

lemma finalize_fresh: "finalize_stream_thread join fresh_lib = Some fresh_lib"
proof -
  have "stop_stream_thread join fresh_lib = fresh_lib" by (simp add: stop_stream_thread_def fresh_lib_def)
  moreover have "finalize_stream_pool fresh_lib = Some (0, fresh_lib)"
    by (simp add: finalize_stream_pool_def fresh_lib_def drain.simps [of pop_stream_pool] pop_stream_pool_def)
  ultimately show ?thesis by (simp add: finalize_stream_thread_def)
qed

lemma receiver_start_cases:
  assumes o: "open_result drv 6 = (r1, i1)" "open_result drv 7 = (r2, i2)"
  shows "\<exists>st. ts_id st = i1 \<and> res_id st = (if r1 = 0 then i2 else 0) \<and> if_lib st = fresh_lib \<and>
    receiver_start drv m create cb this initial_stream_if = Some
      (if r1 = 0 \<and> r2 = 0 \<and> setcb_result drv i1 callback_camif_fn = 0 then 0 else - 1,
       if r1 \<noteq> 0 then [Open 6] else if r2 \<noteq> 0 then [Open 6, Open 7, Close i1]
       else [Open 6, Open 7, SetReceiverCB i1 callback_camif_fn] @
         (if setcb_result drv i1 callback_camif_fn = 0 then [] else [Close i2, Close i1]), st)"
proof -
  have ch: "channels_of \<lparr>p_sw = 0, p_phys = 0, p_chid = IPCU_STREAM_SENDID, p_ackid = IPCU_STREAM_ACKID\<rparr> = (6, 7)"
    by (simp add: channels_of_def IPCU_STREAM_SENDID_def IPCU_STREAM_ACKID_def)
  consider "r1 \<noteq> 0" | "r1 = 0" "r2 \<noteq> 0" | "r1 = 0" "r2 = 0" by blast
  then show ?thesis
    by cases (cases "setcb_result drv i1 callback_camif_fn = 0";
      simp add: receiver_start_def Stream_ipcu_ch_init_def ch o start_receiver_def install_callbacks_def
        initial_stream_if_def Let_def)+
qed

lemma receiver_stop_eq:
  assumes "if_lib st = fresh_lib"
  shows "receiver_stop drv join st = Some
    (if setcb_result drv (ts_id st) no_receiver \<noteq> 0 then - 1 else close_result drv (ts_id st),
     SetReceiverCB (ts_id st) no_receiver #
       (if setcb_result drv (ts_id st) no_receiver \<noteq> 0 then [] else [Close (res_id st), Close (ts_id st)]), st)"
  using assms finalize_fresh [of join]
  by (cases st) (simp add: receiver_stop_def Stream_ipcu_ch_close_def)

lemma main_loop_session:
  "main_loop J p2v send rcv ins s = Done (evs, s', left) \<Longrightarrow>
    \<exists>n. server_session J p2v send (filter (\<lambda>i. is_camera i \<longrightarrow> rcv = callback_camif_fn) (take n ins)) s = Done (evs, s') \<and>
      (if left then n < length ins \<and> is_round (ins ! n) \<and> app_abort s' else n = length ins)"
proof (induction ins arbitrary: s evs)
  case Nil
  then show ?case by simp
next
  case (Cons i ins)
  consider (out) "is_round i" "app_abort s" | (dropped) "\<not> (is_round i \<and> app_abort s)" "is_camera i" "rcv \<noteq> callback_camif_fn"
    | (served) "\<not> (is_round i \<and> app_abort s)" "\<not> (is_camera i \<and> rcv \<noteq> callback_camif_fn)" by blast
  then show ?case
  proof cases
    case out
    with Cons.prems show ?thesis by (intro exI [of _ 0]) auto
  next
    case dropped
    with Cons.prems have "main_loop J p2v send rcv ins s = Done (evs, s', left)" by simp
    from Cons.IH [OF this] obtain n where
      "server_session J p2v send (filter (\<lambda>i. is_camera i \<longrightarrow> rcv = callback_camif_fn) (take n ins)) s = Done (evs, s')"
      "if left then n < length ins \<and> is_round (ins ! n) \<and> app_abort s' else n = length ins" by blast
    with dropped show ?thesis by (intro exI [of _ "Suc n"]) (simp split: if_splits)
  next
    case served
    with Cons.prems obtain es t fs where i: "serve_input J p2v send i s = Done (es, t)"
      "main_loop J p2v send rcv ins t = Done (fs, s', left)" "evs = es @ fs"
      by (auto split: run.splits)
    from Cons.IH [OF i(2)] obtain n where
      "server_session J p2v send (filter (\<lambda>i. is_camera i \<longrightarrow> rcv = callback_camif_fn) (take n ins)) t = Done (fs, s')"
      "if left then n < length ins \<and> is_round (ins ! n) \<and> app_abort s' else n = length ins" by blast
    with served i show ?thesis by (intro exI [of _ "Suc n"]) (auto split: if_splits)
  qed
qed

lemma only_camera_messages: "\<not> is_camera i \<Longrightarrow> known_message i = []"
  by (cases i) simp_all

subsection \<open>Properties\<close>

text \<open>What the start of the streams asks of the driver, and what it answers.\<close>

definition start_result :: "ipcu_driver \<Rightarrow> int" where
  "start_result drv = (if fst (open_result drv 6) = 0 \<and> fst (open_result drv 7) = 0 \<and>
     setcb_result drv (snd (open_result drv 6)) callback_camif_fn = 0 then 0 else - 1)"

definition start_calls :: "ipcu_driver \<Rightarrow> ipcu_call list" where
  "start_calls drv = (case (open_result drv 6, open_result drv 7) of ((r1, i1), (r2, i2)) \<Rightarrow>
     if r1 \<noteq> 0 then [Open 6] else if r2 \<noteq> 0 then [Open 6, Open 7, Close i1]
     else [Open 6, Open 7, SetReceiverCB i1 callback_camif_fn] @
       (if setcb_result drv i1 callback_camif_fn = 0 then [] else [Close i2, Close i1]))"

text \<open>What the end of the streams asks: \<open>Stream_ipcu_ch_close\<close> uses the identifiers that are stored.\<close>

definition stop_calls :: "ipcu_driver \<Rightarrow> ipcu_call list" where
  "stop_calls drv = (case (open_result drv 6, open_result drv 7) of ((r1, i1), (r2, i2)) \<Rightarrow>
     SetReceiverCB i1 no_receiver # (if setcb_result drv i1 no_receiver = 0
       then [Close (if r1 = 0 then i2 else 0), Close i1] else []))"

lemma start_installs: "receiver_after drv (start_calls drv) no_receiver = callback_camif_fn \<longleftrightarrow> start_result drv = 0"
  by (simp add: start_calls_def start_result_def split: prod.split)

lemma server_main_run:
  assumes "server_main J p2v send w ins = Done R"
  obtains serial n where "read_serial (mw_serial w) = Some serial"
    "server_session J p2v send (filter (\<lambda>i. is_camera i \<longrightarrow> run_start R = 0) (take n ins))
      (init_modules serial (handle_params (mw_options w) initial_server)) = Done (run_events R, run_server R)"
    "run_start R = start_result (mw_driver w)"
    "(run_exit R = None \<and> n = length ins \<and> run_calls R = start_calls (mw_driver w)) \<or>
     (n < length ins \<and> is_round (ins ! n) \<and> app_abort (run_server R) \<and>
      run_calls R = start_calls (mw_driver w) @ stop_calls (mw_driver w) \<and>
      run_exit R = Some (let i1 = snd (open_result (mw_driver w) 6)
        in if setcb_result (mw_driver w) i1 no_receiver = 0 then close_result (mw_driver w) i1 else - 1))"
proof -
  let ?d = "mw_driver w"
  obtain serial where serial: "read_serial (mw_serial w) = Some serial"
    using assms by (cases "read_serial (mw_serial w)") (simp_all add: server_main_def)
  let ?s = "init_modules serial (handle_params (mw_options w) initial_server)"
  obtain r1 i1 r2 i2 where o: "open_result ?d 6 = (r1, i1)" "open_result ?d 7 = (r2, i2)" by fastforce
  from receiver_start_cases [OF o, of "mw_malloc w" "mw_create w" 0 0] o obtain st where
    st: "ts_id st = i1" "res_id st = (if r1 = 0 then i2 else 0)" "if_lib st = fresh_lib"
      "receiver_start ?d (mw_malloc w) (mw_create w) 0 0 initial_stream_if = Some (start_result ?d, start_calls ?d, st)"
    by (auto simp: start_calls_def start_result_def)
  obtain evs s' left where
    loop: "main_loop J p2v send (receiver_after ?d (start_calls ?d) no_receiver) ins ?s = Done (evs, s', left)"
    using assms serial st(4)
    by (cases "main_loop J p2v send (receiver_after ?d (start_calls ?d) no_receiver) ins ?s")
      (auto simp: server_main_def)
  note run = assms [unfolded server_main_def serial st(4) option.case Let_def prod.case loop run.case]
  from main_loop_session [OF loop] obtain n where
    n: "server_session J p2v send (filter (\<lambda>i. is_camera i \<longrightarrow> start_result ?d = 0) (take n ins)) ?s = Done (evs, s')"
      "if left then n < length ins \<and> is_round (ins ! n) \<and> app_abort s' else n = length ins"
    by (auto simp: start_installs)
  show thesis
    using run n receiver_stop_eq [OF st(3), of ?d "mw_join w"] st(1,2) o
    by (intro that [OF serial, of n]) (auto simp: stop_calls_def split: if_splits)
qed

text \<open>C10: A run of the program. It serves its inputs in order as a session of the modules the options ask
  for (camera messages only if the streams were started, since only then the driver has a receiver) until a
  round of the loop finds that a signal has arrived; it ends there and nowhere else. Whether or not the
  start succeeded, the end asks the driver to remove the receiver; the exit code is the result of closing
  the first channel if the driver does so, and -1 otherwise. If the streams were started, both channels are opened and,
  unless the driver keeps the receiver, closed again, in reverse order.\<close>

theorem server_run:
  assumes "server_main J p2v send w ins = Done R"
    and "open_result (mw_driver w) 6 = (r1, i1)" "open_result (mw_driver w) 7 = (r2, i2)"
  shows "\<exists>serial n. read_serial (mw_serial w) = Some serial \<and>
    server_session J p2v send (filter (\<lambda>i. is_camera i \<longrightarrow> run_start R = 0) (take n ins))
      (init_modules serial (handle_params (mw_options w) initial_server)) = Done (run_events R, run_server R) \<and>
    run_start R = (if r1 = 0 \<and> r2 = 0 \<and> setcb_result (mw_driver w) i1 callback_camif_fn = 0 then 0 else - 1) \<and>
    (case run_exit R of
       None \<Rightarrow> n = length ins
     | Some code \<Rightarrow> n < length ins \<and> is_round (ins ! n) \<and> app_abort (run_server R) \<and>
         code = (if setcb_result (mw_driver w) i1 no_receiver = 0 then close_result (mw_driver w) i1 else - 1) \<and>
         (run_start R = 0 \<longrightarrow> opened (mw_driver w) (run_calls R) = [i1, i2] \<and>
           closed (run_calls R) = (if setcb_result (mw_driver w) i1 no_receiver = 0 then [i2, i1] else [])))"
proof -
  from server_main_run [OF assms(1)] obtain serial n where
    r: "read_serial (mw_serial w) = Some serial"
      "server_session J p2v send (filter (\<lambda>i. is_camera i \<longrightarrow> run_start R = 0) (take n ins))
        (init_modules serial (handle_params (mw_options w) initial_server)) = Done (run_events R, run_server R)"
      "run_start R = start_result (mw_driver w)"
      "(run_exit R = None \<and> n = length ins \<and> run_calls R = start_calls (mw_driver w)) \<or>
       (n < length ins \<and> is_round (ins ! n) \<and> app_abort (run_server R) \<and>
        run_calls R = start_calls (mw_driver w) @ stop_calls (mw_driver w) \<and>
        run_exit R = Some (let i1 = snd (open_result (mw_driver w) 6)
          in if setcb_result (mw_driver w) i1 no_receiver = 0 then close_result (mw_driver w) i1 else - 1))" .
  from r(4) assms(2,3) show ?thesis
    by (intro exI [of _ serial] exI [of _ n] conjI r(1,2))
      (auto simp: r(3) start_result_def start_calls_def stop_calls_def Let_def opened_def closed_def split: if_splits)
qed

definition demo_main_world :: "int \<Rightarrow> main_world" where
  "demo_main_world r = \<lparr>mw_options = demo_options, mw_serial = Some ''00:11'',
     mw_driver = \<lparr>open_result = (\<lambda>ch. if ch = 7 then (r, 4) else (0, 3)), setcb_result = (\<lambda>_ _. 0),
       close_result = (\<lambda>_. 0)\<rparr>,
     mw_malloc = (\<lambda>_. None), mw_create = (0, 0), mw_join = (\<lambda>l. l)\<rparr>"

definition demo_signal_inputs :: "server_input list" where
  "demo_signal_inputs = [Round 0 (demo_request 0) None None None, Signalled, Round 0 (demo_request 0) None None None]"

lemma demo_run:
  "\<exists>R. server_main demo_json_ops id (\<lambda>_. 0) (demo_main_world r) demo_signal_inputs = Done R \<and> run_exit R = Some 0"
proof -
  have serial: "read_serial (Some ''00:11'') = Some ''00:11''"
    by (simp add: read_serial_def fgets_string_def Let_def)
  have idle: "main_round demo_json_ops 0 (demo_request 0) None None None demo_server = Some ([], [], demo_server)"
    by (simp add: main_round_def receiveSub_def receiveCmd_def)
  have run: "app_abort demo_server = False"
    by (simp add: demo_server_def init_modules_def handle_params_def initial_server_def demo_options_def Let_def)
  have loop: "main_loop demo_json_ops id (\<lambda>_. 0) rcv demo_signal_inputs demo_server =
      Done ([], signal_handler demo_server, True)" for rcv
    by (simp add: demo_signal_inputs_def idle run signal_handler_def)
  let ?d = "mw_driver (demo_main_world r)"
  obtain st where st: "if_lib st = fresh_lib" and start: "\<exists>ret cs. receiver_start ?d (\<lambda>_. None) (0, 0) 0 0 initial_stream_if = Some (ret, cs, st)"
    using receiver_start_cases [of ?d "0" "3" r "4" "\<lambda>_. None" "(0, 0)" 0 0] by (auto simp: demo_main_world_def)
  from start obtain ret cs where start: "receiver_start ?d (\<lambda>_. None) (0, 0) 0 0 initial_stream_if = Some (ret, cs, st)"
    by blast
  have "receiver_stop ?d (\<lambda>l. l) st =
      Some (0, SetReceiverCB (ts_id st) no_receiver # [Close (res_id st), Close (ts_id st)], st)"
    using receiver_stop_eq [OF st, of ?d "\<lambda>l. l"] by (simp add: demo_main_world_def)
  with start loop show ?thesis
    by (simp add: server_main_def demo_main_world_def serial demo_server_def [symmetric])
qed

text \<open>The streams come up; a signal arrives after one idle round.\<close>

lemma server_run_witness:
  "\<exists>R n. server_main demo_json_ops id (\<lambda>_. 0) (demo_main_world 0) demo_signal_inputs = Done R \<and>
     run_exit R = Some 0 \<and> n < 3 \<and> is_round (demo_signal_inputs ! n) \<and> app_abort (run_server R)"
proof -
  obtain R where R: "server_main demo_json_ops id (\<lambda>_. 0) (demo_main_world 0) demo_signal_inputs = Done R" "run_exit R = Some 0"
    using demo_run by blast
  have "open_result (mw_driver (demo_main_world 0)) 6 = (0, 3)" "open_result (mw_driver (demo_main_world 0)) 7 = (0, 4)"
    by (simp_all add: demo_main_world_def)
  from server_run [OF R(1) this] R(2) obtain n where "n < length demo_signal_inputs" "is_round (demo_signal_inputs ! n)"
    "app_abort (run_server R)" by auto
  moreover have "length demo_signal_inputs = 3" by (simp add: demo_signal_inputs_def)
  ultimately show ?thesis using R by (metis (no_types))
qed

text \<open>C35: The result of starting the streams is ignored. When the start fails, in whatever call, no receiver is
  installed, and the loop runs all the same: it serves everything but camera messages and gives
  nothing back to the camera. The failed start has closed every channel it opened. The end then
  asks the driver to remove the receiver of the first channel once more, and, if the driver does not refuse
  (its behaviour for a channel that is not open is not documented, so both answers are covered), it
  closes both channels, whether they had been opened or not: every channel that the failed start opened is
  closed a second time. The exit code shows the failure only as far as these calls fail.\<close>

theorem failed_start_ignored:
  assumes "server_main J p2v send w ins = Done R" and "run_exit R = Some code" and "run_start R \<noteq> 0"
    and "open_result (mw_driver w) 6 = (r1, i1)" "open_result (mw_driver w) 7 = (r2, i2)"
  shows "\<exists>serial n. read_serial (mw_serial w) = Some serial \<and>
      server_session J p2v send (filter (\<lambda>i. \<not> is_camera i) (take n ins))
        (init_modules serial (handle_params (mw_options w) initial_server)) = Done (run_events R, run_server R) \<and>
    releases (run_events R) = [] \<and>
    (\<exists>cs. run_calls R = cs @ SetReceiverCB i1 no_receiver # (if setcb_result (mw_driver w) i1 no_receiver = 0
        then [Close (if r1 = 0 then i2 else 0), Close i1] else []) \<and>
      closed cs = rev (opened (mw_driver w) cs) \<and>
      opened (mw_driver w) cs = (if r1 \<noteq> 0 then [] else if r2 \<noteq> 0 then [i1] else [i1, i2]) \<and>
      receiver_after (mw_driver w) cs no_receiver = no_receiver) \<and>
    code = (if setcb_result (mw_driver w) i1 no_receiver = 0 then close_result (mw_driver w) i1 else - 1)"
proof -
  from server_main_run [OF assms(1)] obtain serial n where
    r: "read_serial (mw_serial w) = Some serial"
      "server_session J p2v send (filter (\<lambda>i. is_camera i \<longrightarrow> run_start R = 0) (take n ins))
        (init_modules serial (handle_params (mw_options w) initial_server)) = Done (run_events R, run_server R)"
      "run_start R = start_result (mw_driver w)"
      "(run_exit R = None \<and> n = length ins \<and> run_calls R = start_calls (mw_driver w)) \<or>
       (n < length ins \<and> is_round (ins ! n) \<and> app_abort (run_server R) \<and>
        run_calls R = start_calls (mw_driver w) @ stop_calls (mw_driver w) \<and>
        run_exit R = Some (let i1 = snd (open_result (mw_driver w) 6)
          in if setcb_result (mw_driver w) i1 no_receiver = 0 then close_result (mw_driver w) i1 else - 1))" .
  have session: "server_session J p2v send (filter (\<lambda>i. \<not> is_camera i) (take n ins))
      (init_modules serial (handle_params (mw_options w) initial_server)) = Done (run_events R, run_server R)"
    using r(2) assms(3) by simp
  have "concat (map known_message (filter (\<lambda>i. \<not> is_camera i) js)) = []" for js
    by (induction js) (simp_all add: only_camera_messages)
  then have "list_all2 (answers p2v) [] (releases (run_events R))" by (metis released_in_session [OF session])
  then have rel: "releases (run_events R) = []" by simp
  have calls: "run_calls R = start_calls (mw_driver w) @ stop_calls (mw_driver w)"
    and code: "code = (if setcb_result (mw_driver w) i1 no_receiver = 0 then close_result (mw_driver w) i1 else - 1)"
    using r(4) assms(2,4) by (auto simp: Let_def)
  have "\<exists>cs. run_calls R = cs @ SetReceiverCB i1 no_receiver # (if setcb_result (mw_driver w) i1 no_receiver = 0
        then [Close (if r1 = 0 then i2 else 0), Close i1] else []) \<and>
      closed cs = rev (opened (mw_driver w) cs) \<and>
      opened (mw_driver w) cs = (if r1 \<noteq> 0 then [] else if r2 \<noteq> 0 then [i1] else [i1, i2]) \<and>
      receiver_after (mw_driver w) cs no_receiver = no_receiver"
    using assms(3-5) r(3)
    by (intro exI [of _ "start_calls (mw_driver w)"])
      (auto simp: calls stop_calls_def start_calls_def start_result_def opened_def closed_def)
  with r(1) session rel code show ?thesis by blast
qed

text \<open>The driver cannot open the second channel.\<close>

lemma failed_start_ignored_witness:
  "\<exists>R. server_main demo_json_ops id (\<lambda>_. 0) (demo_main_world (- 5)) demo_signal_inputs = Done R \<and> run_exit R = Some 0 \<and>
     run_start R = - 1 \<and> closed (run_calls R) = [3, 4, 3]"
proof -
  obtain R where R: "server_main demo_json_ops id (\<lambda>_. 0) (demo_main_world (- 5)) demo_signal_inputs = Done R" "run_exit R = Some 0"
    using demo_run by blast
  have o: "open_result (mw_driver (demo_main_world (- 5))) 6 = (0, 3)"
    "open_result (mw_driver (demo_main_world (- 5))) 7 = (- 5, 4)"
    "setcb_result (mw_driver (demo_main_world (- 5))) 3 no_receiver = 0"
    by (simp_all add: demo_main_world_def)
  have f: "run_start R = - 1"
    by (rule server_main_run [OF R(1)]) (simp add: start_result_def o)
  then have "run_start R \<noteq> 0" by simp
  from failed_start_ignored [OF R this o(1,2)] R f show ?thesis by (auto simp: o(3) closed_def)
qed

text \<open>The serial number is the line as \<open>cat\<close> prints it, line feed included: what the EXIF data and the
  status carry is one character longer than the address.\<close>

theorem serial_keeps_newline:
  assumes "length mac = 17" "CHR 0x0A \<notin> set mac" "CHR 0x00 \<notin> set mac"
  shows "read_serial (Some (mac @ [CHR 0x0A])) = Some (mac @ [CHR 0x0A])"
proof -
  have "takeWhile (\<lambda>c. c \<noteq> CHR 0x0A) (mac @ [CHR 0x0A]) = mac"
    using assms(2) by (subst takeWhile_append2) auto
  moreover have "takeWhile (\<lambda>c. c \<noteq> CHR 0x00) (mac @ [CHR 0x0A]) = mac @ [CHR 0x0A]"
    using assms(3) by (subst takeWhile_append2) auto
  ultimately show ?thesis using assms(1) by (simp add: read_serial_def fgets_string_def Let_def)
qed

end
