(* ===== verification/StatusBounds.thy ===== *)
theory StatusBounds
  imports ServerMain
begin

text \<open>
  The fixed-size buffers of the program: \<open>maker_note[512]\<close> and \<open>date_str[100]\<close> of \<open>src/src/jpeg_capture.cpp\<close>,
  \<open>sei_data[128]\<close> of \<open>src/src/media_recorder.cpp\<close> and \<open>src/src/live555_server.cpp\<close>, and \<open>serial_number[20]\<close>
  of \<open>src/src/main.cpp\<close>. Their contents come from the status values that messages change, so that what fits is
  a question of the states the server can reach.
\<close>

subsection \<open>The sizes in the code\<close>

definition MAKER_NOTE_SIZE :: nat where "MAKER_NOTE_SIZE = 512"
definition DATE_STR_SIZE :: nat where "DATE_STR_SIZE = 100"
definition SEI_DATA_SIZE :: nat where "SEI_DATA_SIZE = 128"
definition SERIAL_NUMBER_SIZE :: nat where "SERIAL_NUMBER_SIZE = 20"

subsection \<open>Status values\<close>

text \<open>No message reaches the internal code, and the quality level is one of the three.\<close>

definition status_inv :: "device_status \<Rightarrow> bool" where
  "status_inv st \<longleftrightarrow> internal_code st = ''A'' \<and> jpeg_quality_level st \<in> {0, 1, 2}"

lemma quality_levels: "quality_level v \<in> {0, 1, 2}"
  by (simp add: quality_level_def)

lemma set_from_inv:
  assumes "set_from str f st = Some st'" "status_inv st" "\<And>v u. status_inv u \<Longrightarrow> status_inv (f v u)"
  shows "status_inv st'"
  using assms by (auto simp: set_from_def split: if_splits option.splits)

lemma handle_params_status: "sv_status (handle_params vm s) = sv_status s"
  unfolding handle_params_def
  by (intro let_keeps [where Q = "\<lambda>t. sv_status t = sv_status s"]) (auto split: option.splits)

lemma initial_status: "status_inv (sv_status (init_modules serial (handle_params vm initial_server)))"
  by (simp add: init_modules_def Let_def handle_params_status initial_server_def status_inv_def DeviceStatus_def)

lemma sub_msg_status:
  assumes "handle_sub_msg J now msg s = Some s'" "status_inv (sv_status s)"
  shows "status_inv (sv_status s')"
proof -
  obtain cmd where c: "getStrFromJson (j_lib J) (j_parse J msg) ''cmd'' [] [] = Some cmd"
    using assms by (cases "getStrFromJson (j_lib J) (j_parse J msg) ''cmd'' [] []")
      (simp_all add: handle_sub_msg_def Let_def)
  consider "cmd = ''GPS''" | "cmd = ''DeviceStatus''" | "cmd = ''workStatus''"
    | "cmd \<noteq> ''GPS''" "cmd \<noteq> ''DeviceStatus''" "cmd \<noteq> ''workStatus''" by blast
  then show ?thesis
  proof cases
    case 1
    with assms c show ?thesis by (clarsimp simp: handle_sub_msg_def Let_def bind_eq_Some_conv)
  next
    case 2
    with assms c show ?thesis by (clarsimp simp: handle_sub_msg_def Let_def bind_eq_Some_conv status_inv_def)
  next
    case 3
    with assms(1) c obtain nr jq sc st1 st2 where
      st1: "set_from nr (\<lambda>v. noise_reduction_strength_update (\<lambda>_. v))
        ((sv_status s)\<lparr>shutter_mode := j_to_int J (getFloatFromJson (get_ex (j_lib J)) (j_float J) 0 (j_parse J msg)
          ''data'' ''shutter_mode'' [])\<rparr>) = Some st1"
      and st2: "set_from jq (\<lambda>v. jpeg_quality_level_update (\<lambda>_. quality_level v)) st1 = Some st2"
      and st3: "set_from sc (\<lambda>v. shutter_count_update (\<lambda>_. v)) st2 = Some (sv_status s')"
      by (clarsimp simp: handle_sub_msg_def Let_def bind_eq_Some_conv)
    have "status_inv st1" using assms(2) by (intro set_from_inv [OF st1]) (simp_all add: status_inv_def)
    then have "status_inv st2" using quality_levels by (intro set_from_inv [OF st2]) (simp_all add: status_inv_def)
    then show ?thesis by (intro set_from_inv [OF st3]) (simp_all add: status_inv_def)
  next
    case 4
    with assms c show ?thesis by (simp add: handle_sub_msg_def Let_def)
  qed
qed

lemma handle_cmd_status: "handle_cmd J w req s = Some (ok, es, s') \<Longrightarrow> sv_status s' = sv_status s"
  by (erule handle_cmd_some; (elim video_start_some video_stop_some)?; auto)

lemma serve_calls_status: "serve_calls w cs s = Done (es, s') \<Longrightarrow> sv_status s' = sv_status s"
proof (induction cs arbitrary: s es)
  case (Cons c cs)
  obtain es1 s1 where c: "consumer_call w (f_consumer c) (f_address c) (f_size c) s = Done (es1, s1)"
    using Cons.prems by (cases "consumer_call w (f_consumer c) (f_address c) (f_size c) s") auto
  then have "sv_status s1 = sv_status s"
    by (cases "f_consumer c") (auto split: option.split_asm run.split_asm prod.split_asm simp: Let_def)
  moreover obtain es2 where "serve_calls w cs s1 = Done (es2, s')"
    using Cons.prems c by (cases "serve_calls w cs s1") auto
  ultimately show ?case using Cons.IH by simp
qed simp

lemma main_round_status:
  assumes "main_round J now w gps_msg status_msg request s = Some (es, sent, s')" "status_inv (sv_status s)"
  shows "status_inv (sv_status s')"
proof -
  obtain t where t: "(case receiveSub gps_msg status_msg of None \<Rightarrow> Some s | Some m \<Rightarrow> handle_sub_msg J now m s) = Some t"
    and rest: "do { (_, es, sent, s) \<leftarrow> receiveCmd (handle_cmd J w) request t; Some (es, sent, s) } = Some (es, sent, s')"
    using assms by (auto simp: main_round_def split: bind_splits)
  have "status_inv (sv_status t)" using t assms(2) by (auto split: option.splits dest: sub_msg_status)
  moreover have "sv_status s' = sv_status t"
    using rest by (auto simp: receiveCmd_def split: option.splits bind_splits dest: handle_cmd_status)
  ultimately show ?thesis by simp
qed

lemma reachable_status: "server_reachable J P s \<Longrightarrow> status_inv (sv_status s)"
proof (induction rule: server_reachable.induct)
  case (sr_init serial vm)
  show ?case by (rule initial_status)
next
  case (sr_round s w now gps_msg status_msg request es sent s')
  then show ?case using main_round_status by blast
next
  case (sr_frame s p cs w es s')
  then show ?case using serve_calls_status by metis
qed (simp_all add: signal_handler_def)

subsection \<open>Printed numbers\<close>

lemma show_int_length: "length (show_int w) \<le> 11"
proof -
  have "- (2 ^ 31) \<le> sint w" "sint w < 2 ^ 31"
    using sint_ge [of w] sint_lt [of w] by simp_all
  then have "nat (- sint w) < 10 ^ 10" "nat (sint w) < 10 ^ 10" by simp_all
  then have "length (decimal (nat (- sint w))) \<le> 10" "length (decimal (nat (sint w))) \<le> 10"
    by (simp_all add: decimal_length)
  then show ?thesis by (simp add: show_int_def)
qed

lemma maker_note_length:
  assumes "status_inv st" "\<And>v. length (show_float fu v) \<le> 47"
  shows "length (maker_note fu st) \<le> 225"
  using assms(1) show_int_length [of "shutter_count st"] show_int_length [of "jpeg_quality_level st"]
    show_int_length [of "shutter_mode st"] assms(2) [of "cmos_temperature st"] assms(2) [of "input_voltage st"]
  by (simp add: maker_note_def status_inv_def)

lemma read_serial_length:
  assumes "read_serial out = Some serial"
  shows "length serial \<le> 19"
proof (cases out)
  case None
  with assms show ?thesis by (simp add: read_serial_def)
next
  case (Some line)
  with assms have "serial = takeWhile (\<lambda>c. c \<noteq> CHR 0x00) (take (length (takeWhile (\<lambda>c. c \<noteq> CHR 0x0A) (take 19 line)) + 1)
      (take 19 line))" by (simp add: read_serial_def fgets_string_def Let_def)
  then show ?thesis by (auto intro: order.trans [OF length_takeWhile_le])
qed

subsection \<open>Property\<close>

text \<open>C30: The fixed-size buffers suffice. Whatever messages, requests and frames a server has seen, the maker
  note that \<open>sprintf\<close> writes for a picture has at most 226 of its 512 bytes, terminator included,
  given that a printed \<open>float\<close> has at most 47 characters; the date with its milliseconds fits its 100 bytes, a SEI unit its 128 and
  the serial number its 20; and every EXIF entry is backed by the bytes that its format makes libexif read.\<close>

theorem fixed_buffers_suffice:
  assumes "server_reachable J P s" and "\<And>v. length (show_float fu v) \<le> 47" and "length date = 20" "ms < 1000"
    and "exif_sizes X"
  shows "length (c_str (maker_note fu (sv_status s))) \<le> 226 \<and> 226 \<le> MAKER_NOTE_SIZE \<and>
    length (c_str (date @ decimal ms)) \<le> 24 \<and> 24 \<le> DATE_STR_SIZE \<and>
    length (fst (sei_encode d)) \<le> SEI_DATA_SIZE \<and>
    (\<forall>out serial. read_serial out = Some serial \<longrightarrow> length (c_str serial) \<le> SERIAL_NUMBER_SIZE) \<and>
    list_all (\<lambda>e. e_size e \<le> length (e_data e))
      (exif_ifd_0 X @ exif_ifd_exif X fu (sv_status s) date ms info @ exif_ifd_gps X fu d)"
proof -
  have "length (maker_note fu (sv_status s)) \<le> 225"
    by (rule maker_note_length [OF reachable_status [OF assms(1)] assms(2)])
  moreover have "length (decimal ms) \<le> 3" using assms(4) by (intro decimal_length) simp_all
  moreover have "length (fst (sei_encode d)) \<le> 128" using sei_unit_length [of d] by simp
  moreover have "\<forall>out serial. read_serial out = Some serial \<longrightarrow> length serial \<le> 19" using read_serial_length by blast
  moreover have "list_all (\<lambda>e. e_size e \<le> length (e_data e))
      (exif_ifd_0 X @ exif_ifd_exif X fu (sv_status s) date ms info @ exif_ifd_gps X fu d)"
    using assms(5) by (simp add: exif_ifd_0_def exif_ifd_exif_def exif_ifd_gps_def exif_sizes_def degree_data_def Let_def)
  ultimately show ?thesis
    using assms(3) by (simp add: MAKER_NOTE_SIZE_def DATE_STR_SIZE_def SEI_DATA_SIZE_def SERIAL_NUMBER_SIZE_def)
qed

lemma fixed_buffers_suffice_witness:
  "length (c_str (maker_note demo_floats (sv_status demo_started))) \<le> 226 \<and>
   length (c_str (''2023:01:01 12:00:00:'' @ decimal 7)) \<le> 24"
proof -
  have "length (show_float demo_floats v) \<le> 47" for v by (simp add: demo_floats_def)
  moreover have "exif_sizes demo_codec" by (simp add: exif_sizes_def demo_codec_def)
  ultimately show ?thesis
    using fixed_buffers_suffice [OF demo_started_reachable, of demo_floats "''2023:01:01 12:00:00:''" 7 demo_codec]
    by simp
qed

end
