(* ===== verification/PhotoSession.thy ===== *)
theory PhotoSession
  imports StatusBounds
begin

text \<open>
  Pictures in a session of the whole server: from the camera message through \<open>callback_camif\<close>, \<open>cb\<close> and
  \<open>JpegCapture::onFrameReceivedCallback\<close> to the file in the parent path and the two announcements of
  \<open>savedCallback\<close> (\<open>src/src/main.cpp\<close>), whatever else the server does meanwhile.
\<close>

subsection \<open>The pictures in a log\<close>

definition ends_jpg :: "string \<Rightarrow> bool" where
  "ends_jpg t \<longleftrightarrow> drop (length t - 4) t = ''.jpg''"

lemma ends_jpg_append [simp]: "length e = 4 \<Longrightarrow> ends_jpg (t @ e) \<longleftrightarrow> e = ''.jpg''"
  by (simp add: ends_jpg_def)

text \<open>Files and announcements of pictures; raw and YUV files and the other announcements have other endings.\<close>

fun of_picture :: "effect \<Rightarrow> bool" where
  "of_picture (Saved p f) = ends_jpg p"
| "of_picture (Publish t) = (t = photo_result \<or> ends_jpg t)"
| "of_picture (Av c) = False"

fun picture_of_event :: "server_event \<Rightarrow> effect list" where
  "picture_of_event (Effect e) = (if of_picture e then [e] else [])"
| "picture_of_event _ = []"

definition picture_log :: "server_event list \<Rightarrow> effect list" where
  "picture_log evs = concat (map picture_of_event evs)"

lemma picture_log_simps [simp]:
  "picture_log [] = []" "picture_log (e # es) = picture_of_event e @ picture_log es"
  "picture_log (es @ fs) = picture_log es @ picture_log fs"
  "picture_log (map Effect fx) = filter of_picture fx"
  "picture_log (map Answer xs) = []" "picture_log (map Release rs) = []"
proof -
  show "picture_log (map Effect fx) = filter of_picture fx" by (induction fx) (simp_all add: picture_log_def)
qed (simp_all add: picture_log_def comp_def)

lemma not_photo_result: "x \<noteq> CHR ''{'' \<Longrightarrow> x # t \<noteq> photo_result"
  by (auto simp: photo_result_def)

text \<open>The messages of the camera that carry pictures.\<close>

fun jpeg_frame :: "server_input \<Rightarrow> (frame_world \<times> byte list) list" where
  "jpeg_frame (Camera w m) = (if load MagicCode m = Some STREAM_MAGIC \<and>
     load Sub_Command m = Some 0x500 \<and> load stream_id m = Some 16 then [(w, m)] else [])"
| "jpeg_frame _ = []"

definition jpeg_frames :: "server_input list \<Rightarrow> (frame_world \<times> byte list) list" where
  "jpeg_frames ins = concat (map jpeg_frame ins)"

definition picture_bytes :: "(u32 \<Rightarrow> u32) \<Rightarrow> frame_world \<Rightarrow> byte list \<Rightarrow> byte list" where
  "picture_bytes p2v w m = fw_mem w (p2v (the (load sample_address m))) (unat (the (load sample_size m)))"

text \<open>
  The mutex of the capture is free, libexif and the file system do their part, and the frame has its start
  marker.
\<close>

definition picture_possible :: "(u32 \<Rightarrow> u32) \<Rightarrow> frame_world \<times> byte list \<Rightarrow> bool" where
  "picture_possible p2v = (\<lambda>(w, m). fw_free w \<and> w_exif_new (fw_jpeg w) \<and> w_opens (fw_jpeg w) \<and>
     w_write (fw_jpeg w) 0 2 = 2 \<and> 2 \<le> length (picture_bytes p2v w m))"

text \<open>What the server does with picture number \<open>k\<close>.\<close>

definition pictured :: "(u32 \<Rightarrow> u32) \<Rightarrow> string \<Rightarrow> string \<Rightarrow> nat \<times> frame_world \<times> byte list \<Rightarrow> effect list \<Rightarrow> bool" where
  "pictured p2v path url = (\<lambda>(k, w, m) fx. \<exists>out st g name.
     name = ''tmp'' @ decimal (k mod 3 + 1) @ ''.jpg'' \<and>
     saveJpegWithExif (fw_jpeg w) st g (picture_bytes p2v w m) (fw_info w) = Done (False, Some out) \<and>
     fx = [Saved (path @ ''//'' @ name) out, Publish photo_result, Publish (url @ ''/'' @ name)])"

subsection \<open>The capture\<close>

definition photo_state :: "string \<Rightarrow> string \<Rightarrow> nat \<Rightarrow> server \<Rightarrow> bool" where
  "photo_state path url k s \<longleftrightarrow> ram_dcim_url s = url \<and>
     (\<exists>j. sv_jpeg s = Some j \<and> parentPath j = path \<and> jp_num j \<le> 3 \<and> jp_num j mod 3 = k mod 3)"

definition takes_pictures :: "server \<Rightarrow> bool" where
  "takes_pictures s \<longleftrightarrow> filter (\<lambda>c. fConsumer c = JpegConsumer) (consumerList s) =
     [\<lparr>fConsumer = JpegConsumer, streamId = 16, streamType = 0x500\<rparr>]"

lemma picture_taken:
  assumes "2 \<le> length address" "w_write w 0 2 = 2" "jp_num j \<le> 3" "w_exif_new w" "w_opens w"
  shows "\<exists>out n. n = jp_num j mod 3 + 1 \<and> saveJpegWithExif w st g address info = Done (False, Some out) \<and>
    jpeg_onFrameReceivedCallback True w st g address info j = Done (j\<lparr>jp_num := n\<rparr>,
      Some (parentPath j @ ''//tmp'' @ decimal n @ ''.jpg'', out), Some (''/tmp'' @ decimal n @ ''.jpg''))"
proof -
  let ?n = "jp_num j mod 3 + 1"
  obtain d where d: "gps_for_picture (w_junk w) g = Done d" using gps_for_picture_no_fault by blast
  have two: "length (take 2 address) = 2" using assms(1) by simp
  have ret: "fst (do_writes (w_write w) 0 (take 2 address # bs)) \<noteq> 0" for bs
    using assms(2) by (simp add: two Let_def case_prod_unfold or_eq_0_iff del: length_take)
  obtain bs where "saveJpegWithExif w st g address info =
      (let (ret, out) = do_writes (w_write w) 0 (take 2 address # bs) in Done (ret = 0, Some out))"
    using picture_file [OF assms(4,5,1) d, of st info] by blast
  then have save: "\<exists>out. saveJpegWithExif w st g address info = Done (False, Some out)"
    using ret [of bs] by (simp add: Let_def case_prod_unfold)
  have "jp_num j = 3 \<or> jp_num j < 3" using assms(3) by linarith
  then have "get_temp_file_name j = (''tmp'' @ decimal ?n @ ''.jpg'', j\<lparr>jp_num := ?n\<rparr>)"
    by (auto simp: get_temp_file_name_def JPEG_TEMPFILES_NUMBER_def)
  with save show ?thesis
    by (auto simp: jpeg_onFrameReceivedCallback_def get_jpeg_full_path_def get_url_def)
qed

lemma jpeg_call_pictures:
  assumes call: "consumer_call w JpegConsumer a z s = Done (es, s')" and s: "photo_state path url k s"
    and ok: "fw_free w" "w_exif_new (fw_jpeg w)" "w_opens (fw_jpeg w)" "w_write (fw_jpeg w) 0 2 = 2"
      "2 \<le> length (fw_mem w a (unat z))"
  shows "photo_state path url (Suc k) s' \<and> (\<exists>out st g name. name = ''tmp'' @ decimal (k mod 3 + 1) @ ''.jpg'' \<and>
     saveJpegWithExif (fw_jpeg w) st g (fw_mem w a (unat z)) (fw_info w) = Done (False, Some out) \<and>
     filter of_picture es = [Saved (path @ ''//'' @ name) out, Publish photo_result, Publish (url @ ''/'' @ name)])"
proof -
  from s obtain j where j: "ram_dcim_url s = url" "sv_jpeg s = Some j" "parentPath j = path" "jp_num j \<le> 3"
    "jp_num j mod 3 = k mod 3" by (auto simp: photo_state_def)
  let ?n = "k mod 3 + 1" and ?name = "''tmp'' @ decimal (k mod 3 + 1) @ ''.jpg''"
  from picture_taken [OF ok(5,4) j(4) ok(2,3), of "sv_status s" "sv_gps s" "fw_info w"] j obtain out where
    f: "saveJpegWithExif (fw_jpeg w) (sv_status s) (sv_gps s) (fw_mem w a (unat z)) (fw_info w) = Done (False, Some out)"
    "jpeg_onFrameReceivedCallback True (fw_jpeg w) (sv_status s) (sv_gps s) (fw_mem w a (unat z)) (fw_info w) j =
       Done (j\<lparr>jp_num := ?n\<rparr>, Some (path @ ''//tmp'' @ decimal ?n @ ''.jpg'', out), Some (''/tmp'' @ decimal ?n @ ''.jpg''))"
    by auto
  have e: "es = [Saved (path @ ''//'' @ ?name) out, Publish photo_result, Publish (url @ ''/'' @ ?name)]"
    and s': "s' = s\<lparr>sv_jpeg := Some (j\<lparr>jp_num := ?n\<rparr>)\<rparr>"
    using call ok(1) j(1,2) f(2) by (auto simp: saved_effects_def savedCallback_def)
  have "ends_jpg (path @ ''//'' @ ?name)" "ends_jpg (url @ ''/'' @ ?name)"
    using ends_jpg_append [of "''.jpg''" "path @ ''//tmp'' @ decimal ?n"]
      ends_jpg_append [of "''.jpg''" "url @ ''/tmp'' @ decimal ?n"] by simp_all
  then have "filter of_picture es = es" by (simp add: e)
  moreover have "photo_state path url (Suc k) s'"
    using j by (auto simp: photo_state_def s' mod_Suc)
  ultimately show ?thesis using f(1) e by blast
qed

text \<open>The other consumers save and announce no picture, and leave the capture alone.\<close>

lemma other_call_pictures:
  assumes "consumer_call w c a z s = Done (es, s')" "c \<noteq> JpegConsumer"
  shows "filter of_picture es = [] \<and> sv_jpeg s' = sv_jpeg s \<and> ram_dcim_url s' = ram_dcim_url s"
proof -
  have raw: "of_picture (Publish (CHR ''r'' # ''aw: '' @ t @ ''.raw'')) = False"
    and yuv: "of_picture (Publish (CHR ''y'' # ''uv: '' @ t @ ''.yuv'')) = False" for t
    using ends_jpg_append [of "''.raw''" "''raw: '' @ t"] ends_jpg_append [of "''.yuv''" "''yuv: '' @ t"]
    by (simp_all add: photo_result_def)
  have none: "filter of_picture (saved_effects (fst (capture_onFrameReceivedCallback e fw path addr)) @
      announce topic (snd (capture_onFrameReceivedCallback e fw path addr))) = []"
    if "\<And>t. \<not> of_picture (Publish (topic @ t @ e))" "\<And>t. \<not> ends_jpg (t @ e)" for e topic fw path addr
    using that [of "path @ ''/img'' @ f_time fw"] that(1) that(2)
    by (auto simp: capture_onFrameReceivedCallback_def case_prod_unfold Let_def saved_effects_def announce_def
        split: option.split)
  show ?thesis
  proof (cases c)
    case RawConsumer
    with assms none [of "''raw: ''" "''.raw''"] raw show ?thesis
      by (auto simp: raw_onFrameReceivedCallback_def case_prod_unfold Let_def split: option.split_asm)
  next
    case YuvConsumer
    with assms none [of "''yuv: ''" "''.yuv''"] yuv show ?thesis
      by (auto simp: yuv_onFrameReceivedCallback_def case_prod_unfold Let_def split: option.split_asm)
  next
    case RecorderConsumer
    have "filter of_picture (map Av avs) = []" for avs by (induction avs) simp_all
    with assms RecorderConsumer show ?thesis by (auto split: option.split_asm run.split_asm)
  qed (use assms in \<open>auto split: option.split_asm run.split_asm\<close>)
qed

lemma serve_calls_pictures:
  "serve_calls w cs s = Done (fx, s') \<Longrightarrow> photo_state path url k s \<Longrightarrow>
    length (filter (\<lambda>c. f_consumer c = JpegConsumer) cs) \<le> 1 \<Longrightarrow>
    \<forall>c\<in>set cs. f_consumer c = JpegConsumer \<longrightarrow> fw_free w \<and> w_exif_new (fw_jpeg w) \<and> w_opens (fw_jpeg w) \<and>
      w_write (fw_jpeg w) 0 2 = 2 \<and> 2 \<le> length (fw_mem w (f_address c) (unat (f_size c))) \<Longrightarrow>
    (case filter (\<lambda>c. f_consumer c = JpegConsumer) cs of
       [] \<Rightarrow> photo_state path url k s' \<and> filter of_picture fx = []
     | c # _ \<Rightarrow> photo_state path url (Suc k) s' \<and> (\<exists>out st g name. name = ''tmp'' @ decimal (k mod 3 + 1) @ ''.jpg'' \<and>
         saveJpegWithExif (fw_jpeg w) st g (fw_mem w (f_address c) (unat (f_size c))) (fw_info w) = Done (False, Some out) \<and>
         filter of_picture fx = [Saved (path @ ''//'' @ name) out, Publish photo_result, Publish (url @ ''/'' @ name)]))"
proof (induction cs arbitrary: s fx k)
  case (Cons c cs)
  obtain es1 s1 where c: "consumer_call w (f_consumer c) (f_address c) (f_size c) s = Done (es1, s1)"
    using Cons.prems by (cases "consumer_call w (f_consumer c) (f_address c) (f_size c) s") auto
  obtain es2 where r: "serve_calls w cs s1 = Done (es2, s')" "fx = es1 @ es2"
    using Cons.prems c by (cases "serve_calls w cs s1") auto
  show ?case
  proof (cases "f_consumer c = JpegConsumer")
    case True
    then have none: "filter (\<lambda>c. f_consumer c = JpegConsumer) cs = []" using Cons.prems(3) by simp
    then have "\<forall>c\<in>set cs. f_consumer c \<noteq> JpegConsumer" by (simp add: filter_empty_conv)
    with Cons.prems(4) none have rest: "photo_state path url (Suc k) s1 \<Longrightarrow>
        photo_state path url (Suc k) s' \<and> filter of_picture es2 = []"
      using Cons.IH [OF r(1), of "Suc k"] by simp
    from jpeg_call_pictures [OF c [unfolded True] Cons.prems(2)] Cons.prems(4) True
    have one: "photo_state path url (Suc k) s1" "\<exists>out st g name. name = ''tmp'' @ decimal (k mod 3 + 1) @ ''.jpg'' \<and>
      saveJpegWithExif (fw_jpeg w) st g (fw_mem w (f_address c) (unat (f_size c))) (fw_info w) = Done (False, Some out) \<and>
      filter of_picture es1 = [Saved (path @ ''//'' @ name) out, Publish photo_result, Publish (url @ ''/'' @ name)]"
      by simp_all
    have "photo_state path url (Suc k) s' \<and> filter of_picture es2 = []"
      by (rule rest [OF one(1)])
    with one(2) True show ?thesis by (simp add: r(2))
  next
    case False
    from other_call_pictures [OF c False] Cons.prems(2) have first: "photo_state path url k s1" "filter of_picture es1 = []"
      by (simp_all add: photo_state_def)
    have "length (filter (\<lambda>c. f_consumer c = JpegConsumer) cs) \<le> 1" using Cons.prems(3) False by simp
    note rest = Cons.IH [OF r(1) first(1) this, rule_format]
    show ?thesis
    proof (cases "filter (\<lambda>c. f_consumer c = JpegConsumer) cs")
      case Nil
      then show ?thesis using rest Cons.prems(4) first(2) False by (simp add: r(2))
    next
      case (Cons d ds)
      show ?thesis using rest Cons.prems(4) first(2) False unfolding r(2) by (simp add: Cons)
    qed
  qed
qed simp

lemma camera_pictures:
  assumes m: "camera_message p2v send w m s = Done (evs, s')" and s: "photo_state path url k s" "takes_pictures s"
    and ok: "list_all (picture_possible p2v) (jpeg_frame (Camera w m))"
  shows "takes_pictures s' \<and> photo_state path url (k + length (jpeg_frame (Camera w m))) s' \<and>
    (\<exists>css. list_all2 (pictured p2v path url) (enumerate k (jpeg_frame (Camera w m))) css \<and> picture_log evs = concat css)"
  using m
proof (cases rule: camera_message_cases)
  case (nobody rs)
  then have "jpeg_frame (Camera w m) = []" by (auto simp: kind_of_def)
  with s nobody show ?thesis by simp
next
  case (served m' fx msg)
  let ?e = "\<lparr>fConsumer = JpegConsumer, streamId = 16, streamType = 0x500\<rparr>"
  let ?cs = "filter (wants m) (consumerList s)"
  have keep: "takes_pictures s'" using serve_calls_keeps [OF served(5)] s(2) by (simp add: takes_pictures_def)
  have pics: "filter (\<lambda>c. f_consumer c = JpegConsumer) (map (call_for m') ?cs) = (if wants m ?e then [call_for m' ?e] else [])"
    unfolding calls_of_consumer using s(2) by (simp add: takes_pictures_def)
  have frame: "jpeg_frame (Camera w m) = (if wants m ?e then [(w, m)] else [])"
    using served(1) by (auto simp: wants_def)
  have bytes: "fw_mem w (f_address (call_for m' ?e)) (unat (f_size (call_for m' ?e))) = picture_bytes p2v w m"
    using call_bytes [OF camera_message_long [OF m] served(3,4)] by (simp add: picture_bytes_def)
  have "\<forall>c\<in>set (map (call_for m') ?cs). f_consumer c = JpegConsumer \<longrightarrow> c = call_for m' ?e \<and> wants m ?e"
  proof (intro ballI impI)
    fix c assume "c \<in> set (map (call_for m') ?cs)" "f_consumer c = JpegConsumer"
    then have "c \<in> set (filter (\<lambda>c. f_consumer c = JpegConsumer) (map (call_for m') ?cs))" by simp
    then show "c = call_for m' ?e \<and> wants m ?e" unfolding pics by (simp split: if_splits)
  qed
  moreover have "wants m ?e \<Longrightarrow> picture_possible p2v (w, m)" using ok unfolding frame by simp
  ultimately have ready: "\<forall>c\<in>set (map (call_for m') ?cs). f_consumer c = JpegConsumer \<longrightarrow> fw_free w \<and>
      w_exif_new (fw_jpeg w) \<and> w_opens (fw_jpeg w) \<and> w_write (fw_jpeg w) 0 2 = 2 \<and>
      2 \<le> length (fw_mem w (f_address c) (unat (f_size c)))"
    using bytes unfolding picture_possible_def by (metis (mono_tags, lifting) case_prod_conv)
  have one: "length (filter (\<lambda>c. f_consumer c = JpegConsumer) (map (call_for m') ?cs)) \<le> 1"
    unfolding pics by simp
  note run = serve_calls_pictures [OF served(5) s(1) one ready, unfolded pics]
  show ?thesis
  proof (cases "wants m ?e")
    case False
    with run keep show ?thesis by (simp add: served(6) frame del: jpeg_frame.simps)
  next
    case True
    with run have "photo_state path url (Suc k) s'" "pictured p2v path url (k, w, m) (filter of_picture fx)"
      by (simp_all add: pictured_def bytes)
    with True keep show ?thesis
      by (intro conjI exI [of _ "[filter of_picture fx]"]) (simp_all add: served(6) frame del: jpeg_frame.simps)
  qed
qed

subsection \<open>Everything that may happen between pictures\<close>

lemma entries_removed:
  assumes "c \<noteq> d"
  shows "filter (\<lambda>x. fConsumer x = c) (removeConsumer d xs) = filter (\<lambda>x. fConsumer x = c) xs"
proof -
  have sub: "filter (\<lambda>x. fConsumer x = c) ys =
      filter (\<lambda>x. fConsumer x = c) (filter (\<lambda>x. fConsumer x \<noteq> d) ys)" for ys :: "'a StreamConsumer list"
    using assms by (induction ys) auto
  show ?thesis
    unfolding removeConsumer_skip sub [of "remove_skip d xs"] remove_skip_others
    by (rule sub [symmetric])
qed

lemma photo_storage:
  assumes "handle_cmd J w req s = Some (ok, es, s')"
    and "getStrFromJson (j_lib J) (j_parse J req) ''cmd'' [] [] = Some ''PhotoStorage''" and "photo_state path url k s"
  shows "photo_state path url k s' \<and> consumerList s' = consumerList s \<and> es = []"
  using assms
  by (auto simp: handle_cmd_def Let_def photo_state_def jpeg_setPrefix_def setSubPath_def split: bind_splits option.splits)

lemma handle_cmd_pictures:
  assumes r: "handle_cmd J w req s = Some (ok, es, s')" and s: "photo_state path url k s" "takes_pictures s"
  shows "photo_state path url k s' \<and> takes_pictures s' \<and> filter of_picture es = []"
  using r
proof (cases rule: handle_cmd_some)
  case (start width height sid codec rate)
  have none: "filter of_picture (map Av avs) = []" for avs by (induction avs) simp_all
  from start(2) s show ?thesis
    by (auto simp: video_start_def Let_def case_prod_unfold none photo_state_def takes_pictures_def addConsumer_def
        split: option.split_asm if_split_asm)
next
  case stop
  from stop(2) show ?thesis
    by (cases rule: video_stop_some)
      (use s in \<open>auto simp: photo_state_def takes_pictures_def entries_removed photo_result_def ends_jpg_def\<close>)
next
  case (photo j)
  with photo_storage [OF r photo(1) s(1)] s(2) show ?thesis by (simp add: takes_pictures_def)
qed (use s in \<open>auto simp: photo_state_def takes_pictures_def\<close>)

lemma round_pictures:
  assumes r: "main_round J now w gps_msg status_msg request s = Some (es, sent, s')"
    and s: "photo_state path url k s" "takes_pictures s"
  shows "photo_state path url k s' \<and> takes_pictures s' \<and> filter of_picture es = []"
proof -
  obtain t where t: "(case receiveSub gps_msg status_msg of None \<Rightarrow> Some s | Some m \<Rightarrow> handle_sub_msg J now m s) = Some t"
    and rest: "do { (_, es, sent, s) \<leftarrow> receiveCmd (handle_cmd J w) request t; Some (es, sent, s) } = Some (es, sent, s')"
    using assms by (auto simp: main_round_def split: bind_splits)
  have "sv_jpeg t = sv_jpeg s \<and> ram_dcim_url t = ram_dcim_url s \<and> consumerList t = consumerList s"
  proof (cases "receiveSub gps_msg status_msg")
    case None
    with t show ?thesis by simp
  next
    case (Some m)
    with t have "handle_sub_msg J now m s = Some t" by simp
    then show ?thesis by (simp add: sub_msg_keeps)
  qed
  with s have t: "photo_state path url k t" "takes_pictures t" by (simp_all add: photo_state_def takes_pictures_def)
  show ?thesis
    using rest t by (auto simp: receiveCmd_def split: option.splits bind_splits dest: handle_cmd_pictures)
qed

lemma session_pictures:
  "server_session J p2v send ins s = Done (evs, s') \<Longrightarrow> photo_state path url k s \<Longrightarrow> takes_pictures s \<Longrightarrow>
    list_all (picture_possible p2v) (jpeg_frames ins) \<Longrightarrow>
    \<exists>css. list_all2 (pictured p2v path url) (enumerate k (jpeg_frames ins)) css \<and> picture_log evs = concat css"
proof (induction ins arbitrary: s evs k)
  case Nil
  then show ?case by (simp add: jpeg_frames_def)
next
  case (Cons i ins)
  from Cons.prems(1) obtain es t fs where i: "serve_input J p2v send i s = Done (es, t)"
    "server_session J p2v send ins t = Done (fs, s')" "evs = es @ fs" by (rule server_session_Cons)
  have "takes_pictures t \<and> photo_state path url (k + length (jpeg_frame i)) t \<and>
    (\<exists>css. list_all2 (pictured p2v path url) (enumerate k (jpeg_frame i)) css \<and> picture_log es = concat css)"
  proof (cases i)
    case (Camera w m)
    with camera_pictures [of p2v send w m s es t] i(1) Cons.prems(2,3,4) show ?thesis
      by (simp add: jpeg_frames_def del: jpeg_frame.simps)
  next
    case (Round now w gps_msg status_msg request)
    with i(1) obtain fx sent where "main_round J now w gps_msg status_msg request s = Some (fx, sent, t)"
      "es = map Effect fx @ map Answer sent" by (auto split: option.splits)
    with round_pictures [OF this(1) Cons.prems(2,3)] Round show ?thesis by simp
  qed (use i(1) Cons.prems(2,3) in \<open>auto simp: photo_state_def takes_pictures_def signal_handler_def split: option.splits\<close>)
  then obtain cs1 where t: "takes_pictures t" "photo_state path url (k + length (jpeg_frame i)) t"
    "list_all2 (pictured p2v path url) (enumerate k (jpeg_frame i)) cs1" "picture_log es = concat cs1" by blast
  have "list_all (picture_possible p2v) (jpeg_frames ins)" using Cons.prems(4) by (simp add: jpeg_frames_def)
  from Cons.IH [OF i(2) t(2,1) this] obtain cs2 where
    u: "list_all2 (pictured p2v path url) (enumerate (k + length (jpeg_frame i)) (jpeg_frames ins)) cs2"
      "picture_log fs = concat cs2" by blast
  have "enumerate k (jpeg_frames (i # ins)) =
      enumerate k (jpeg_frame i) @ enumerate (k + length (jpeg_frame i)) (jpeg_frames ins)"
    by (simp add: jpeg_frames_def enumerate_append_eq)
  with list_all2_appendI [OF t(3) u(1)] t(4) u(2) i(3) show ?case
    by (intro exI [of _ "cs1 @ cs2"]) simp
qed

lemma jpeg_params:
  assumes "opt_jpeg vm = Some path"
  shows "bit (flag (handle_params vm s)) 3 \<and> jpeg_path (handle_params vm s) = path \<and>
    ram_dcim_url (handle_params vm s) = (case opt_ram_dcim_url vm of None \<Rightarrow> ram_dcim_url s | Some u \<Rightarrow> u) \<and>
    consumerList (handle_params vm s) = consumerList s"
  using assms
  by (cases "opt_debug vm"; cases "opt_video vm"; cases "opt_mjpeg vm"; cases "opt_ram_dcim_url vm"; cases "opt_rtsp vm";
      cases "opt_gps_timing_offset vm")
    (simp_all add: handle_params_def Let_def FLAG_DEBUG_def FLAG_VIDEO_def FLAG_MJPEG_def FLAG_JPEG_def FLAG_RTSP_def bit_simps)

lemma initial_photo:
  assumes "opt_jpeg vm = Some path" "s = init_modules serial (handle_params vm initial_server)"
  shows "photo_state path (case opt_ram_dcim_url vm of None \<Rightarrow> ram_dcim_url initial_server | Some u \<Rightarrow> u) 0 s"
    and "takes_pictures s"
proof -
  let ?t = "handle_params vm initial_server"
  note t = jpeg_params [OF assms(1), of initial_server]
  have "bit (flag ?t AND FLAG_JPEG) 3" using t by (simp add: FLAG_JPEG_def bit_simps)
  then have on: "flag ?t AND FLAG_JPEG \<noteq> 0" by (metis bit_0_eq bot_apply bot_bool_def)
  then show "photo_state path (case opt_ram_dcim_url vm of None \<Rightarrow> ram_dcim_url initial_server | Some u \<Rightarrow> u) 0 s"
    using t by (simp add: assms(2) photo_state_def init_modules_def Let_def JpegCapture_def)
  from on show "takes_pictures s"
    using t by (simp add: assms(2) takes_pictures_def init_modules_def Let_def addConsumer_def initial_server_def
        COMMAND_STREAM_JPG_def)
qed

subsection \<open>Property\<close>

text \<open>C2: Pictures. A server started with the option for pictures does the following, whatever messages,
  requests, clients and other frames come between, if it survives them: for every picture message of
  the camera, in order, it writes one file and announces it twice, and it writes and announces no other picture.
  The file is what \<open>saveJpegWithExif\<close> makes of the bytes at the translated address; the names run through
  \<open>tmp1.jpg\<close>, \<open>tmp2.jpg\<close> and \<open>tmp3.jpg\<close> in turn. (Provided that the mutex of the capture is free, which
  holds as long as the driver delivers one message after the other, and that libexif and the file system
  do their part.)\<close>

theorem photo_session:
  assumes "opt_jpeg vm = Some path"
    and "server_session J p2v send ins (init_modules serial (handle_params vm initial_server)) = Done (evs, s')"
    and "list_all (picture_possible p2v) (jpeg_frames ins)"
  shows "\<exists>css. list_all2 (pictured p2v path (case opt_ram_dcim_url vm of None \<Rightarrow> ram_dcim_url initial_server | Some u \<Rightarrow> u))
      (enumerate 0 (jpeg_frames ins)) css \<and> picture_log evs = concat css"
  by (rule session_pictures [OF assms(2) initial_photo [OF assms(1) refl] assms(3)])

definition demo_photo_server :: server where
  "demo_photo_server = init_modules ''00:11'' (handle_params
     (demo_options\<lparr>opt_jpeg := Some ''/ram'', opt_ram_dcim_url := Some ''http://camera''\<rparr>) initial_server)"

lemma demo_photo_consumers:
  "filter (wants demo_jpeg_frame) (consumerList demo_photo_server) =
    [\<lparr>fConsumer = JpegConsumer, streamId = 16, streamType = 0x500\<rparr>]"
  "sv_jpeg demo_photo_server = Some (JpegCapture ''/ram'')"
  by (simp_all add: demo_photo_server_def init_modules_def handle_params_def demo_options_def initial_server_def Let_def
      FLAG_VIDEO_def FLAG_JPEG_def FLAG_RTSP_def addConsumer_def wants_def demo_jpeg_frame_words COMMAND_STREAM_JPG_def
      COMMAND_STREAM_RAW_def COMMAND_STREAM_YUV_def)

lemma demo_photo_possible: "picture_possible id (demo_frame_world, demo_jpeg_frame)"
  by (simp add: picture_possible_def demo_frame_world_def demo_world_def picture_bytes_def)

lemma demo_photo_message:
  "\<exists>evs t. camera_message id (\<lambda>_. 0) demo_frame_world demo_jpeg_frame demo_photo_server = Done (evs, t)"
proof -
  let ?t = "demo_photo_server\<lparr>sv_jpeg := Some ((JpegCapture ''/ram'')\<lparr>jp_num := 1\<rparr>)\<rparr>"
  have "\<exists>fx. serve_calls demo_frame_world (map (call_for m') (filter (wants demo_jpeg_frame) (consumerList demo_photo_server)))
      demo_photo_server = Done (fx, ?t)" for m'
  proof -
    let ?a = "fw_mem demo_frame_world (the (load sample_address m')) (unat (ucast (the (load sample_size m')) :: u64))"
    have "2 \<le> length ?a" "w_write demo_world 0 2 = 2" "jp_num (JpegCapture ''/ram'') \<le> 3" "w_exif_new demo_world" "w_opens demo_world"
      by (simp_all add: demo_frame_world_def demo_world_def JpegCapture_def)
    from picture_taken [OF this, of "sv_status demo_photo_server" "sv_gps demo_photo_server" demo_info] show ?thesis
      by (auto simp: demo_photo_consumers call_for_def demo_frame_world_def JpegCapture_def)
  qed
  moreover have "44 \<le> length demo_jpeg_frame" by (simp add: demo_jpeg_frame_def)
  moreover have "kind_of (the (load Sub_Command demo_jpeg_frame)) = Some Jpeg" by (simp add: demo_jpeg_frame_words kind_of_def)
  ultimately show ?thesis
    using camera_served [of demo_jpeg_frame demo_frame_world demo_photo_server ?t Jpeg id "\<lambda>_. 0"] demo_jpeg_frame_words(1) by auto
qed

lemma photo_session_witness:
  "\<exists>evs s' out. server_session demo_json_ops id (\<lambda>_. 0) [Camera demo_frame_world demo_jpeg_frame] demo_photo_server =
      Done (evs, s') \<and>
    picture_log evs = [Saved ''/ram//tmp1.jpg'' out, Publish photo_result, Publish ''http://camera/tmp1.jpg'']"
proof -
  let ?ins = "[Camera demo_frame_world demo_jpeg_frame]"
  let ?vm = "demo_options\<lparr>opt_jpeg := Some ''/ram'', opt_ram_dcim_url := Some ''http://camera''\<rparr>"
  obtain evs s' where s: "server_session demo_json_ops id (\<lambda>_. 0) ?ins demo_photo_server = Done (evs, s')"
    using demo_photo_message by auto
  have f: "jpeg_frames ?ins = [(demo_frame_world, demo_jpeg_frame)]"
    by (simp add: jpeg_frames_def demo_jpeg_frame_words)
  have "decimal 1 = ''1''" by code_simp
  with photo_session [of ?vm "''/ram''" demo_json_ops id "\<lambda>_. 0" ?ins "''00:11''" evs s'] s demo_photo_possible
  show ?thesis
    by (auto simp: f demo_photo_server_def [symmetric] list_all2_Cons1 pictured_def)
qed

end
