(* ===== verification/LiveSession.thy ===== *)
theory LiveSession
  imports PhotoSession
begin

text \<open>
  The live stream in a session of the whole server: from the camera message to what live555 hands to a client. A
  frame of stream 0 runs through \<open>callback_camif\<close>, \<open>cb\<close>, \<open>Live555Server::onFrameReceivedCallback\<close> and
  \<open>writeFrameToBuf\<close>; the delivery copies what is then in the buffer.
\<close>

subsection \<open>Inputs that concern the live stream\<close>

definition live_frame :: "byte list \<Rightarrow> bool" where
  "live_frame m \<longleftrightarrow> load MagicCode m = Some STREAM_MAGIC \<and> load Sub_Command m = Some 0x100 \<and> load stream_id m = Some 0"

text \<open>Whether the server was started (its first frame does that), and whether a source is open.\<close>

fun live_phase :: "bool \<times> bool \<Rightarrow> server_input \<Rightarrow> bool \<times> bool" where
  "live_phase (started, src_open) (Camera w m) = (started \<or> live_frame m, src_open)"
| "live_phase (started, src_open) (Client_opens mem trigger) = (started, True)"
| "live_phase (started, src_open) Client_closes = (started, False)"
| "live_phase (started, src_open) _ = (started, src_open)"

text \<open>
  What live555 does with a subsession that reuses its first source: it asks for a source only while none is
  open, and closes the one that is. The buffer of a source has its size.
\<close>

fun live_protocol :: "bool \<Rightarrow> server_input list \<Rightarrow> bool" where
  "live_protocol src_open [] = True"
| "live_protocol src_open (Client_opens mem trigger # ins) = (\<not> src_open \<and> length mem = BUFFER_SIZE \<and> live_protocol True ins)"
| "live_protocol src_open (Client_closes # ins) = (src_open \<and> live_protocol False ins)"
| "live_protocol src_open (i # ins) = live_protocol src_open ins"

definition not_live :: "server_input \<Rightarrow> bool" where
  "not_live i = (case i of Camera w m \<Rightarrow> \<not> live_frame m | Client_opens _ _ \<Rightarrow> False | Client_closes \<Rightarrow> False | _ \<Rightarrow> True)"

subsection \<open>The state of the live server\<close>

definition serves_live :: "server \<Rightarrow> bool" where
  "serves_live s \<longleftrightarrow> filter (\<lambda>c. fConsumer c = LiveConsumer) (consumerList s) =
     [\<lparr>fConsumer = LiveConsumer, streamId = 0, streamType = 0x100\<rparr>]"

definition live_state :: "bool \<times> bool \<Rightarrow> live_server \<Rightarrow> bool" where
  "live_state = (\<lambda>(started, src_open) l. isStarted l = started \<and>
     (if src_open then referenceCount (source_static l) = 1 \<and>
        (\<exists>src. ipcuFramedSource l = Source src \<and> length (frame_buffer src) = BUFFER_SIZE)
      else referenceCount (source_static l) = 0 \<and> (\<forall>src. ipcuFramedSource l \<noteq> Source src)))"

definition in_phase :: "bool \<times> bool \<Rightarrow> server \<Rightarrow> bool" where
  "in_phase ph s \<longleftrightarrow> serves_live s \<and> (\<exists>l. sv_live s = Some l \<and> live_state ph l)"

text \<open>A frame as the live server stores it, behind the SEI unit of its sample.\<close>

definition stored_frame :: "gps_data_t run \<Rightarrow> byte list \<Rightarrow> live_server \<Rightarrow> bool" where
  "stored_frame sample frame l \<longleftrightarrow> (\<exists>cl src src' d. ipcuFramedSource l = Source src' \<and> sample = Done d \<and>
     length (frame_buffer src) = BUFFER_SIZE \<and>
     writeFrameToBuf True frame (fst (sei_encode d)) cl src = Done (0, True, src'))"

lemma live_frame_in_phase:
  assumes "live_onFrameReceivedCallback free junk g now frame l = Done l'" "live_state (st, on) l"
  shows "live_state (True, on) l' \<and>
    (st \<and> on \<and> free \<and> length frame \<le> BUFFER_SIZE \<longrightarrow> stored_frame (gps_for_frame junk g now) frame l')"
proof (cases "isStarted l")
  case False
  with assms show ?thesis by (auto simp: live_onFrameReceivedCallback_def live_state_def live_start_def)
next
  case True
  then have st: st using assms(2) by (simp add: live_state_def)
  show ?thesis
  proof (cases "gps_for_frame junk g now")
    case Fault
    with assms(1) True have False by (auto simp: live_onFrameReceivedCallback_def split: source_pointer.split_asm)
    then show ?thesis ..
  next
    case (Done d)
    note run = assms(1) [unfolded live_frame_cases [OF Done True]]
    show ?thesis
    proof (cases on)
      case False
      with assms(2) run True show ?thesis
        by (auto simp: live_state_def split: source_pointer.split_asm if_split_asm)
    next
      case on: True
      then obtain src where src: "ipcuFramedSource l = Source src" "length (frame_buffer src) = BUFFER_SIZE"
        "referenceCount (source_static l) = 1" using assms(2) by (auto simp: live_state_def)
      from run src(1) obtain r t src' where
        w: "writeFrameToBuf free frame (fst (sei_encode d)) (source_static l) src = Done (r, t, src')"
          "l' = l\<lparr>ipcuFramedSource := Source src'\<rparr>"
        by (auto split: run.split_asm)
      have len: "length (frame_buffer src') = BUFFER_SIZE"
        using w(1) src(2) unfolding writeFrameToBuf_eq [OF src(3,2)] by (auto split: if_split_asm)
      then have "live_state (True, on) l'" using True on src w(2) by (simp add: live_state_def)
      moreover have "stored_frame (gps_for_frame junk g now) frame l'" if "free" "length frame \<le> BUFFER_SIZE"
      proof -
        from w(1) that have "r = 0" "t" unfolding writeFrameToBuf_eq [OF src(3,2)] by (auto split: if_split_asm)
        with w that(1) src(2) show ?thesis by (auto simp: stored_frame_def Done)
      qed
      ultimately show ?thesis by blast
    qed
  qed
qed

subsection \<open>A message of the camera\<close>

lemma other_call_live:
  "consumer_call w c a z s = Done (es, s') \<Longrightarrow> c \<noteq> LiveConsumer \<Longrightarrow> sv_live s' = sv_live s"
  by (cases c) (auto split: option.split_asm run.split_asm prod.split_asm simp: Let_def)

lemma serve_calls_live:
  "serve_calls w cs s = Done (fx, s') \<Longrightarrow> sv_live s = Some l \<Longrightarrow> live_state (st, on) l \<Longrightarrow>
    length (filter (\<lambda>c. f_consumer c = LiveConsumer) cs) \<le> 1 \<Longrightarrow>
    (case filter (\<lambda>c. f_consumer c = LiveConsumer) cs of
       [] \<Rightarrow> sv_live s' = Some l
     | c # _ \<Rightarrow> \<exists>l'. sv_live s' = Some l' \<and> live_state (True, on) l' \<and>
         (st \<and> on \<and> fw_free w \<and> length (fw_mem w (f_address c) (unat (f_size c))) \<le> BUFFER_SIZE \<longrightarrow>
           stored_frame (gps_for_frame (fw_junk w) (sv_gps s) (fw_now w)) (fw_mem w (f_address c) (unat (f_size c))) l'))"
proof (induction cs arbitrary: s fx)
  case (Cons c cs)
  obtain es1 s1 where c: "consumer_call w (f_consumer c) (f_address c) (f_size c) s = Done (es1, s1)"
    using Cons.prems by (cases "consumer_call w (f_consumer c) (f_address c) (f_size c) s") auto
  obtain es2 where r: "serve_calls w cs s1 = Done (es2, s')"
    using Cons.prems c by (cases "serve_calls w cs s1") auto
  show ?case
  proof (cases "f_consumer c = LiveConsumer")
    case True
    then have none: "filter (\<lambda>c. f_consumer c = LiveConsumer) cs = []" using Cons.prems(4) by simp
    from c True Cons.prems(2) obtain l' where
      l': "live_onFrameReceivedCallback (fw_free w) (fw_junk w) (sv_gps s) (fw_now w)
         (fw_mem w (f_address c) (unat (f_size c))) l = Done l'" "sv_live s1 = Some l'"
      by (auto split: run.split_asm)
    note after = live_frame_in_phase [OF l'(1) Cons.prems(3)]
    have "sv_live s' = Some l'"
      using r none l'(2)
    proof (induction cs arbitrary: s1 es2)
      case (Cons d ds)
      obtain es3 s2 where d: "consumer_call w (f_consumer d) (f_address d) (f_size d) s1 = Done (es3, s2)"
        using Cons.prems by (cases "consumer_call w (f_consumer d) (f_address d) (f_size d) s1") auto
      obtain es4 where "serve_calls w ds s2 = Done (es4, s')"
        using Cons.prems d by (cases "serve_calls w ds s2") auto
      moreover have "f_consumer d \<noteq> LiveConsumer" "filter (\<lambda>c. f_consumer c = LiveConsumer) ds = []"
        using Cons.prems(2) by (simp_all split: if_split_asm)
      ultimately show ?case using Cons.IH other_call_live [OF d] Cons.prems(3) by simp
    qed simp
    with after True show ?thesis by simp
  next
    case False
    from other_call_live [OF c False] consumer_call_av [OF c] Cons.prems(2)
    have l: "sv_live s1 = Some l" "sv_gps s1 = sv_gps s" by simp_all
    have "length (filter (\<lambda>c. f_consumer c = LiveConsumer) cs) \<le> 1" using Cons.prems(4) False by simp
    from Cons.IH [OF r l(1) Cons.prems(3) this, unfolded l(2)] False show ?thesis by simp
  qed
qed simp

definition live_bytes :: "(u32 \<Rightarrow> u32) \<Rightarrow> frame_world \<Rightarrow> byte list \<Rightarrow> byte list" where
  "live_bytes p2v w m = fw_mem w (p2v (the (load sample_address m))) (unat (the (load sample_size m)))"

lemma camera_live:
  assumes m: "camera_message p2v send w m s = Done (evs, s')" and s: "serves_live s" "sv_live s = Some l" "live_state (st, on) l"
  shows "serves_live s' \<and>
    (if live_frame m
     then \<exists>l'. sv_live s' = Some l' \<and> live_state (True, on) l' \<and>
       (st \<and> on \<and> fw_free w \<and> length (live_bytes p2v w m) \<le> BUFFER_SIZE \<longrightarrow>
         stored_frame (gps_for_frame (fw_junk w) (sv_gps s) (fw_now w)) (live_bytes p2v w m) l')
     else sv_live s' = Some l)"
  using m
proof (cases rule: camera_message_cases)
  case (nobody rs)
  then have "\<not> live_frame m" by (auto simp: kind_of_def live_frame_def)
  with s nobody show ?thesis by simp
next
  case (served m' fx msg)
  let ?e = "\<lparr>fConsumer = LiveConsumer, streamId = 0, streamType = 0x100\<rparr>"
  let ?cs = "filter (wants m) (consumerList s)"
  have keep: "serves_live s'" using serve_calls_keeps [OF served(5)] s(1) by (simp add: serves_live_def)
  have "wants m ?e \<longleftrightarrow> live_frame m" using served(1) by (auto simp: wants_def live_frame_def)
  then have calls: "filter (\<lambda>c. f_consumer c = LiveConsumer) (map (call_for m') ?cs) =
      (if live_frame m then [call_for m' ?e] else [])"
    unfolding calls_of_consumer using s(1) by (simp add: serves_live_def)
  have bytes: "fw_mem w (f_address (call_for m' ?e)) (unat (f_size (call_for m' ?e))) = live_bytes p2v w m"
    using call_bytes [OF camera_message_long [OF m] served(3,4)] by (simp add: live_bytes_def)
  have one: "length (filter (\<lambda>c. f_consumer c = LiveConsumer) (map (call_for m') ?cs)) \<le> 1"
    unfolding calls by simp
  note run = serve_calls_live [OF served(5) s(2,3) one, unfolded calls]
  show ?thesis
  proof (cases "live_frame m")
    case True
    with run keep show ?thesis by (simp add: bytes)
  next
    case False
    with run keep show ?thesis by simp
  qed
qed

subsection \<open>Everything that may happen between frames\<close>

lemma handle_cmd_live:
  assumes r: "handle_cmd J w req s = Some (ok, es, s')" and s: "serves_live s"
  shows "serves_live s' \<and> sv_live s' = sv_live s"
  using r
proof (cases rule: handle_cmd_some)
  case (start width height sid codec rate)
  from start(2) s show ?thesis
    by (auto simp: video_start_def Let_def case_prod_unfold serves_live_def addConsumer_def
        split: option.split_asm if_split_asm)
next
  case stop
  from stop(2) show ?thesis
    by (cases rule: video_stop_some) (use s in \<open>auto simp: serves_live_def entries_removed\<close>)
qed (use s in \<open>auto simp: serves_live_def\<close>)

lemma round_live:
  assumes r: "main_round J now w gps_msg status_msg request s = Some (es, sent, s')" and s: "serves_live s"
  shows "serves_live s' \<and> sv_live s' = sv_live s"
proof -
  obtain t where t: "(case receiveSub gps_msg status_msg of None \<Rightarrow> Some s | Some m \<Rightarrow> handle_sub_msg J now m s) = Some t"
    and rest: "do { (_, es, sent, s) \<leftarrow> receiveCmd (handle_cmd J w) request t; Some (es, sent, s) } = Some (es, sent, s')"
    using r by (auto simp: main_round_def split: bind_splits)
  have "sv_live t = sv_live s \<and> consumerList t = consumerList s"
  proof (cases "receiveSub gps_msg status_msg")
    case None
    with t show ?thesis by simp
  next
    case (Some m)
    with t have "handle_sub_msg J now m s = Some t" by simp
    then show ?thesis by (simp add: sub_msg_keeps)
  qed
  with s have t: "serves_live t" "sv_live t = sv_live s" by (simp_all add: serves_live_def)
  show ?thesis
    using rest t by (auto simp: receiveCmd_def split: option.splits bind_splits dest: handle_cmd_live)
qed

lemma input_live:
  assumes i: "serve_input J p2v send i s = Done (es, t)" and s: "in_phase ph s" and p: "live_protocol (snd ph) [i]"
  shows "in_phase (live_phase ph i) t"
proof -
  obtain st on where ph: "ph = (st, on)" by (cases ph)
  from s obtain l where l: "serves_live s" "sv_live s = Some l" "live_state (st, on) l"
    by (auto simp: in_phase_def ph)
  show ?thesis
  proof (cases i)
    case (Camera w m)
    with i camera_live [of p2v send w m s es t, OF _ l] l(3) show ?thesis
      by (auto simp: in_phase_def ph split: if_split_asm)
  next
    case (Round now w gps_msg status_msg request)
    with i obtain fx sent where "main_round J now w gps_msg status_msg request s = Some (fx, sent, t)"
      by (auto split: option.splits)
    with round_live [OF this l(1)] l Round show ?thesis by (simp add: in_phase_def ph)
  qed (use i l p in \<open>auto simp: in_phase_def ph serves_live_def live_state_def signal_handler_def createNewStreamSource_def
      IPCU555FramedSource_def closeStreamSource_def delete_source_def Let_def\<close>)
qed

lemma session_live:
  "server_session J p2v send ins s = Done (evs, s') \<Longrightarrow> in_phase ph s \<Longrightarrow> live_protocol (snd ph) ins \<Longrightarrow>
    in_phase (foldl live_phase ph ins) s'"
proof (induction ins arbitrary: s evs ph)
  case (Cons i ins)
  from Cons.prems(1) obtain es t fs where i: "serve_input J p2v send i s = Done (es, t)"
    "server_session J p2v send ins t = Done (fs, s')" by (rule server_session_Cons)
  have p: "live_protocol (snd ph) [i]" "live_protocol (snd (live_phase ph i)) ins"
    using Cons.prems(3) by (cases ph; cases i; simp)+
  from Cons.IH [OF i(2) input_live [OF i(1) Cons.prems(2) p(1)] p(2)] show ?case by simp
qed simp

text \<open>Inputs that do not concern the live stream leave its server as it is.\<close>

lemma unrelated_input:
  assumes i: "serve_input J p2v send i s = Done (es, t)" and s: "serves_live s" "sv_live s = Some l" "live_state ph l"
    and n: "not_live i"
  shows "serves_live t \<and> sv_live t = Some l"
proof -
  obtain st on where ph: "ph = (st, on)" by (cases ph)
  show ?thesis
  proof (cases i)
    case (Camera w m)
    with i n camera_live [of p2v send w m s es t, OF _ s [unfolded ph]] show ?thesis by (simp add: not_live_def)
  next
    case (Round now w gps_msg status_msg request)
    with i obtain fx sent where "main_round J now w gps_msg status_msg request s = Some (fx, sent, t)"
      by (auto split: option.splits)
    with round_live [OF this s(1)] s(2) show ?thesis by simp
  qed (use i s n in \<open>auto simp: not_live_def signal_handler_def serves_live_def\<close>)
qed

lemma unrelated_session:
  "server_session J p2v send ins s = Done (evs, s') \<Longrightarrow> serves_live s \<Longrightarrow> sv_live s = Some l \<Longrightarrow> live_state ph l \<Longrightarrow>
    list_all not_live ins \<Longrightarrow> sv_live s' = Some l"
proof (induction ins arbitrary: s evs)
  case (Cons i ins)
  from Cons.prems(1) obtain es t fs where i: "serve_input J p2v send i s = Done (es, t)"
    "server_session J p2v send ins t = Done (fs, s')" by (rule server_session_Cons)
  with unrelated_input [OF i(1) Cons.prems(2-4)] Cons show ?case by simp
qed simp

lemma rtsp_params:
  assumes "opt_rtsp vm = Some name"
  shows "bit (flag (handle_params vm s)) 4 \<and> consumerList (handle_params vm s) = consumerList s"
  using assms
  by (cases "opt_debug vm"; cases "opt_video vm"; cases "opt_mjpeg vm"; cases "opt_ram_dcim_url vm"; cases "opt_jpeg vm";
      cases "opt_gps_timing_offset vm")
    (simp_all add: handle_params_def Let_def FLAG_DEBUG_def FLAG_VIDEO_def FLAG_MJPEG_def FLAG_JPEG_def FLAG_RTSP_def bit_simps)

lemma initial_live:
  assumes "opt_rtsp vm = Some name"
  shows "in_phase (False, False) (init_modules serial (handle_params vm initial_server))"
proof -
  let ?t = "handle_params vm initial_server"
  note t = rtsp_params [OF assms, of initial_server]
  have "bit (flag ?t AND FLAG_RTSP) 4" using t by (simp add: FLAG_RTSP_def bit_simps)
  then have on: "flag ?t AND FLAG_RTSP \<noteq> 0" by (metis bit_0_eq bot_apply bot_bool_def)
  then show ?thesis
    using t by (simp add: in_phase_def serves_live_def live_state_def init_modules_def Let_def addConsumer_def initial_server_def
        COMMAND_STREAM_VIDEO_def Live555Server_def)
qed

subsection \<open>Property\<close>

text \<open>C3: The live stream. In every session of a server with RTSP whose clients follow the protocol of live555: when
  a frame of the live stream arrives while the server is started and a source is open, its mutex is free, the frame
  is not above 200 KiB and the server survives it, then whatever inputs follow that do not concern the
  live stream, the next client that asks gets the bytes at the translated address behind an SEI unit, without
  the first start code and cut to its buffer; the unit decodes to the sample
  that \<open>getGPSData\<close> found for the time of the frame among those received before it.\<close>

theorem live_session:
  assumes "opt_rtsp vm = Some name"
    and "server_session J p2v send (xs @ Camera w m # ys) (init_modules serial (handle_params vm initial_server)) = Done (evs, s')"
    and "live_protocol False xs" and "foldl live_phase (False, False) xs = (True, True)"
    and "live_frame m" and "fw_free w" and "length (live_bytes p2v w m) \<le> BUFFER_SIZE" and "list_all not_live ys"
  shows "\<exists>es t d sei l src d'. server_session J p2v send xs (init_modules serial (handle_params vm initial_server)) = Done (es, t) \<and>
    gps_for_frame (fw_junk w) (sv_gps t) (fw_now w) = Done d \<and>
    sei_decode sei = Some [longitude d, latitude d, altitude d, pitch d, yaw d, roll d] \<and>
    sv_live s' = Some l \<and> ipcuFramedSource l = Source src \<and>
    deliverFrame True True fMaxSize src dl = Done (Some d') \<and>
    fTo d' = take fMaxSize (drop 4 (sei @ live_bytes p2v w m)) \<and> fFrameSize d' = length (fTo d')"
proof -
  from assms(2) obtain es t fs where xs:
    "server_session J p2v send xs (init_modules serial (handle_params vm initial_server)) = Done (es, t)"
    "server_session J p2v send (Camera w m # ys) t = Done (fs, s')" by (rule server_session_append)
  from xs(2) obtain gs u hs where m: "serve_input J p2v send (Camera w m) t = Done (gs, u)"
    and ys: "server_session J p2v send ys u = Done (hs, s')" by (rule server_session_Cons)
  from session_live [OF xs(1) initial_live [OF assms(1)]] assms(3,4) have "in_phase (True, True) t" by simp
  then obtain l where l: "serves_live t" "sv_live t = Some l" "live_state (True, True) l"
    by (auto simp: in_phase_def)
  from camera_live [OF m [unfolded serve_input.simps] l] assms(5-7) obtain l' where l':
    "serves_live u" "sv_live u = Some l'" "live_state (True, True) l'"
    "stored_frame (gps_for_frame (fw_junk w) (sv_gps t) (fw_now w)) (live_bytes p2v w m) l'" by auto
  have last: "sv_live s' = Some l'" by (rule unrelated_session [OF ys l'(1-3) assms(8)])
  from l'(4) obtain cl src src' d where f: "ipcuFramedSource l' = Source src'"
    "gps_for_frame (fw_junk w) (sv_gps t) (fw_now w) = Done d" "length (frame_buffer src) = BUFFER_SIZE"
    "writeFrameToBuf True (live_bytes p2v w m) (fst (sei_encode d)) cl src = Done (0, True, src')"
    by (auto simp: stored_frame_def)
  have "4 \<le> length (fst (sei_encode d))" using sei_unit_length(1) [of d] by simp
  from written_is_delivered [OF f(3,4) this, of fMaxSize dl] show ?thesis
    using xs(1) last f(1,2) sei_encode_decodes [of d] by blast
qed

definition demo_live_server :: server where
  "demo_live_server = init_modules ''00:11'' (handle_params (demo_options\<lparr>opt_rtsp := Some ''live''\<rparr>) initial_server)"

lemma demo_live_consumers:
  "filter (wants demo_video_frame) (consumerList demo_live_server) =
    [\<lparr>fConsumer = LiveConsumer, streamId = 0, streamType = 0x100\<rparr>]"
  "sv_live demo_live_server = Some Live555Server" "sv_gps demo_live_server = GPSEstone"
  by (simp_all add: demo_live_server_def init_modules_def handle_params_def demo_options_def initial_server_def Let_def
      FLAG_VIDEO_def FLAG_JPEG_def FLAG_RTSP_def addConsumer_def wants_def demo_video_frame_words COMMAND_STREAM_VIDEO_def)

text \<open>The first frame starts the server, the second one is stored.\<close>

lemma demo_live_message:
  assumes "consumerList s = consumerList demo_live_server" "sv_live s = Some l" "sv_gps s = GPSEstone"
    and "live_onFrameReceivedCallback True demo_sample GPSEstone 0 [0, 0, 1, 0x65] l = Done l'"
  shows "\<exists>evs. camera_message id (\<lambda>_. 0) demo_frame_world demo_video_frame s = Done (evs, s\<lparr>sv_live := Some l'\<rparr>)"
proof (rule camera_served [where k = Video])
  fix m' :: "byte list"
  show "\<exists>fx. serve_calls demo_frame_world (map (call_for m') (filter (wants demo_video_frame) (consumerList s))) s =
      Done (fx, s\<lparr>sv_live := Some l'\<rparr>)"
    using assms by (simp add: demo_live_consumers call_for_def demo_frame_world_def)
qed (simp_all add: demo_video_frame_words kind_of_def demo_video_frame_magic)

lemma demo_stored:
  assumes "isStarted l" "ipcuFramedSource l = Source src" "referenceCount (source_static l) = 1"
    "length (frame_buffer src) = BUFFER_SIZE"
  shows "\<exists>l'. live_onFrameReceivedCallback True demo_sample GPSEstone 0 [0, 0, 1, 0x65] l = Done l'"
proof -
  have g: "gps_for_frame demo_sample GPSEstone 0 = Done demo_sample"
    by (simp add: gps_for_frame_def getGPSData_def GPSEstone_def)
  show ?thesis
    using sei_unit_length(2) [of demo_sample]
    by (simp add: live_frame_cases [OF g assms(1)] assms(2) writeFrameToBuf_eq [OF assms(3,4)] BUFFER_SIZE_def)
qed

lemma demo_live_session:
  "\<exists>evs s'. server_session demo_json_ops id (\<lambda>_. 0) ([Client_opens (replicate BUFFER_SIZE 0) 7,
     Camera demo_frame_world demo_video_frame] @ Camera demo_frame_world demo_video_frame # [Signalled]) demo_live_server =
   Done (evs, s')"
proof -
  let ?l = "createNewStreamSource (replicate BUFFER_SIZE 0) 7 Live555Server" and ?s = demo_live_server
  let ?l1 = "?l\<lparr>isStarted := True\<rparr>"
  have src: "ipcuFramedSource ?l1 = Source \<lparr>frame_buffer = replicate BUFFER_SIZE 0, frame_size = 0\<rparr>"
    "referenceCount (source_static ?l1) = 1" "isStarted ?l1"
    by (simp_all add: createNewStreamSource_def IPCU555FramedSource_def Live555Server_def)
  have "live_onFrameReceivedCallback True demo_sample GPSEstone 0 [0, 0, 1, 0x65] ?l = Done ?l1"
    by (simp add: live_onFrameReceivedCallback_def live_start_def createNewStreamSource_def IPCU555FramedSource_def Live555Server_def)
  from demo_live_message [of "?s\<lparr>sv_live := Some ?l\<rparr>", OF _ _ _ this] demo_live_consumers obtain e1 where
    e1: "camera_message id (\<lambda>_. 0) demo_frame_world demo_video_frame (?s\<lparr>sv_live := Some ?l\<rparr>) =
      Done (e1, ?s\<lparr>sv_live := Some ?l1\<rparr>)" by auto
  obtain l2 where "live_onFrameReceivedCallback True demo_sample GPSEstone 0 [0, 0, 1, 0x65] ?l1 = Done l2"
    using demo_stored [OF src(3,1,2)] by auto
  from demo_live_message [of "?s\<lparr>sv_live := Some ?l1\<rparr>", OF _ _ _ this] demo_live_consumers obtain e2 where
    e2: "camera_message id (\<lambda>_. 0) demo_frame_world demo_video_frame (?s\<lparr>sv_live := Some ?l1\<rparr>) =
      Done (e2, ?s\<lparr>sv_live := Some l2\<rparr>)" by auto
  show ?thesis by (simp add: demo_live_consumers e1 e2)
qed

theorem live_session_witness:
  "\<exists>evs s' l src sei d'. server_session demo_json_ops id (\<lambda>_. 0) ([Client_opens (replicate BUFFER_SIZE 0) 7,
     Camera demo_frame_world demo_video_frame] @ Camera demo_frame_world demo_video_frame # [Signalled]) demo_live_server =
   Done (evs, s') \<and> sv_live s' = Some l \<and> ipcuFramedSource l = Source src \<and>
   deliverFrame True True 1000 src \<lparr>fFrameSize = 0, fNumTruncatedBytes = 0, fTo = []\<rparr> = Done (Some d') \<and>
   fTo d' = take 1000 (drop 4 (sei @ [0, 0, 1, 0x65]))"
proof -
  from demo_live_session obtain evs s' where s: "server_session demo_json_ops id (\<lambda>_. 0) ([Client_opens (replicate BUFFER_SIZE 0) 7,
     Camera demo_frame_world demo_video_frame] @ Camera demo_frame_world demo_video_frame # [Signalled]) demo_live_server =
   Done (evs, s')" by blast
  have b: "live_bytes id demo_frame_world demo_video_frame = [0, 0, 1, 0x65]"
    by (simp add: live_bytes_def demo_frame_world_def)
  have f: "live_frame demo_video_frame" by (simp add: live_frame_def demo_video_frame_words demo_video_frame_magic)
  have free: "fw_free demo_frame_world" by (simp add: demo_frame_world_def)
  show ?thesis
    using live_session [OF _ s [unfolded demo_live_server_def] _ _ f free, of "''live''" 1000
        "\<lparr>fFrameSize = 0, fNumTruncatedBytes = 0, fTo = []\<rparr>"] s
    by (auto simp: b f not_live_def BUFFER_SIZE_def)
qed

end
