(* ===== verification/ServerSurvival.thy ===== *)
theory ServerSurvival
  imports LiveSession ServerMain
begin

text \<open>
  Inputs that a server survives. The other theories say what a session does if no input ends the process;
  here is a condition on the inputs alone under which none does: every operation between a camera message, a request
  or a message of the other programs and its effects has a result, and \<open>main\<close> of \<open>src/src/main.cpp\<close>
  returns exactly when a signal is followed by a round of its loop.
\<close>

subsection \<open>Harmless inputs\<close>

text \<open>The strings of a message can all be read, and its numbers convert.\<close>

definition field :: "'j json_ops \<Rightarrow> string \<Rightarrow> string \<Rightarrow> string \<Rightarrow> string \<Rightarrow> string option" where
  "field J msg = getStrFromJson (j_lib J) (j_parse J msg)"

definition readable :: "'j json_ops \<Rightarrow> string \<Rightarrow> bool" where
  "readable J msg \<longleftrightarrow> (\<forall>l1 l2 l3. field J msg l1 l2 l3 \<noteq> None)"

definition sub_msg_ok :: "'j json_ops \<Rightarrow> string \<Rightarrow> bool" where
  "sub_msg_ok J msg \<longleftrightarrow> readable J msg \<and> (case the (field J msg ''cmd'' [] []) of cmd \<Rightarrow>
     (cmd = ''GPS'' \<longrightarrow> stoull (the (field J msg ''data'' ''time_stamp'' [])) \<noteq> None) \<and>
     (cmd = ''DeviceStatus'' \<longrightarrow> j_strtof J (the (field J msg ''data'' ''cmos_temp'' [])) \<noteq> None \<and>
       j_strtof J (the (field J msg ''data'' ''total_voltage'' [])) \<noteq> None) \<and>
     (cmd = ''workStatus'' \<longrightarrow> (\<forall>(l2, l3) \<in> {(''noise_reduction_strength'', []), (''photo_resolve'', []), (''shutter_count'', ''count1'')}.
       the (field J msg ''data'' l2 l3) = [] \<or> stoi (the (field J msg ''data'' l2 l3)) \<noteq> None)))"

text \<open>A start or stop of a recording needs a recorder; the numbers of a start convert.\<close>

definition request_ok :: "'j json_ops \<Rightarrow> bool \<Rightarrow> string \<Rightarrow> bool" where
  "request_ok J recorder req \<longleftrightarrow> readable J req \<and> (case the (field J req ''cmd'' [] []) of cmd \<Rightarrow>
     (cmd \<in> {''VideoStart'', ''VideoStop''} \<longrightarrow> recorder) \<and>
     (cmd = ''VideoStart'' \<longrightarrow>
       (the (field J req ''data'' ''resolve'' []) = [] \<or> request_size (the (field J req ''data'' ''resolve'' [])) \<noteq> None) \<and>
       (the (field J req ''data'' ''fps'' []) = [] \<or> stoi (the (field J req ''data'' ''fps'' [])) \<noteq> None)))"

text \<open>A camera message is complete, and a picture has its start marker.\<close>

fun harmless :: "'j json_ops \<Rightarrow> (u32 \<Rightarrow> u32) \<Rightarrow> bool \<Rightarrow> server_input \<Rightarrow> bool" where
  "harmless J p2v recorder (Camera w m) \<longleftrightarrow> 44 \<le> length m \<and>
     (jpeg_frame (Camera w m) \<noteq> [] \<longrightarrow> 2 \<le> length (picture_bytes p2v w m))"
| "harmless J p2v recorder (Round now w gps_msg status_msg request) \<longleftrightarrow> av_documented (rq_av w) \<and>
     (case receiveSub gps_msg status_msg of None \<Rightarrow> True | Some m \<Rightarrow> sub_msg_ok J m) \<and>
     (case request of None \<Rightarrow> True | Some req \<Rightarrow> request_ok J recorder req)"
| "harmless J p2v recorder _ \<longleftrightarrow> True"

text \<open>
  The live stream: whether the server was started, and the source of live555. A frame of a started
  server needs a source to have been opened, and room for its SEI unit if one is open.
\<close>

datatype source_phase = Never | Present | Gone

definition live_frame_ok :: "bool \<Rightarrow> source_phase \<Rightarrow> byte list \<Rightarrow> bool" where
  "live_frame_ok started p frame \<longleftrightarrow> (started \<longrightarrow> p \<noteq> Never \<and>
     (p = Present \<longrightarrow> BUFFER_SIZE < length frame \<or> length frame + 59 \<le> BUFFER_SIZE))"

fun live_input_ok :: "(u32 \<Rightarrow> u32) \<Rightarrow> bool \<times> source_phase \<Rightarrow> server_input \<Rightarrow> bool" where
  "live_input_ok p2v (started, p) (Camera w m) \<longleftrightarrow> (live_frame m \<longrightarrow> live_frame_ok started p (live_bytes p2v w m))"
| "live_input_ok p2v (started, p) (Client_opens mem trigger) \<longleftrightarrow> p \<noteq> Present \<and> length mem = BUFFER_SIZE"
| "live_input_ok p2v (started, p) Client_closes \<longleftrightarrow> p = Present"
| "live_input_ok p2v (started, p) _ \<longleftrightarrow> True"

fun live_next :: "bool \<times> source_phase \<Rightarrow> server_input \<Rightarrow> bool \<times> source_phase" where
  "live_next (started, p) (Camera w m) = (started \<or> live_frame m, p)"
| "live_next (started, p) (Client_opens mem trigger) = (started, Present)"
| "live_next (started, p) Client_closes = (started, Gone)"
| "live_next (started, p) _ = (started, p)"

fun live_harmless :: "(u32 \<Rightarrow> u32) \<Rightarrow> bool \<times> source_phase \<Rightarrow> server_input list \<Rightarrow> bool" where
  "live_harmless p2v ph [] \<longleftrightarrow> True"
| "live_harmless p2v ph (i # ins) \<longleftrightarrow> live_input_ok p2v ph i \<and> live_harmless p2v (live_next ph i) ins"

subsection \<open>Sound states\<close>

fun has_object :: "server \<Rightarrow> consumer \<Rightarrow> bool" where
  "has_object s JpegConsumer \<longleftrightarrow> sv_jpeg s \<noteq> None"
| "has_object s RawConsumer \<longleftrightarrow> sv_raw s \<noteq> None"
| "has_object s YuvConsumer \<longleftrightarrow> sv_yuv s \<noteq> None"
| "has_object s LiveConsumer \<longleftrightarrow> sv_live s \<noteq> None"
| "has_object s RecorderConsumer \<longleftrightarrow> sv_recorder s \<noteq> None"

definition live_sound :: "bool \<Rightarrow> source_phase \<Rightarrow> live_server \<Rightarrow> bool" where
  "live_sound started p l \<longleftrightarrow> (isStarted l \<longrightarrow> started) \<and> (case p of
     Never \<Rightarrow> ipcuFramedSource l = Uninit \<and> referenceCount (source_static l) = 0
   | Present \<Rightarrow> (\<exists>src. ipcuFramedSource l = Source src \<and> length (frame_buffer src) = BUFFER_SIZE) \<and>
       referenceCount (source_static l) = 1
   | Gone \<Rightarrow> ipcuFramedSource l = Deleted \<and> referenceCount (source_static l) = 0)"

definition gps_sound :: "gps_estone \<Rightarrow> bool" where
  "gps_sound g \<longleftrightarrow> (gps_data_buf g \<noteq> [] \<longrightarrow> gps_rcv_tmout g \<noteq> None)"

definition recorder_sound :: "media_recorder option \<Rightarrow> bool" where
  "recorder_sound r \<longleftrightarrow> (\<forall>x. r = Some x \<longrightarrow> recordStatus x = RECORD_STATUS_RECORDING \<longrightarrow> f_ctx x = Live True)"

definition objects_sound :: "bool \<Rightarrow> source_phase \<Rightarrow> server \<Rightarrow> bool" where
  "objects_sound started p s \<longleftrightarrow> gps_sound (sv_gps s) \<and> recorder_sound (sv_recorder s) \<and>
     (\<forall>l. sv_live s = Some l \<longrightarrow> live_sound started p l)"

text \<open>
  Every registration has its object; pictures are registered for their stream, and the live server once for its own.
\<close>

definition registered :: "server \<Rightarrow> bool" where
  "registered s \<longleftrightarrow> (\<forall>c\<in>set (consumerList s). has_object s (fConsumer c) \<and>
       (fConsumer c = JpegConsumer \<longrightarrow> streamId c = 16 \<and> streamType c = 0x500)) \<and>
     filter (\<lambda>c. fConsumer c = LiveConsumer) (consumerList s) =
       (if sv_live s = None then [] else [\<lparr>fConsumer = LiveConsumer, streamId = 0, streamType = 0x100\<rparr>])"

text \<open>The objects that exist stay the same.\<close>

definition same_objects :: "server \<Rightarrow> server \<Rightarrow> bool" where
  "same_objects s s' \<longleftrightarrow> has_object s' = has_object s"

lemma same_objects_trans: "same_objects s t \<Longrightarrow> same_objects t u \<Longrightarrow> same_objects s u"
  by (simp add: same_objects_def)

lemma same_objectsI:
  "(sv_jpeg s' = None) = (sv_jpeg s = None) \<Longrightarrow> (sv_raw s' = None) = (sv_raw s = None) \<Longrightarrow>
   (sv_yuv s' = None) = (sv_yuv s = None) \<Longrightarrow> (sv_live s' = None) = (sv_live s = None) \<Longrightarrow>
   (sv_recorder s' = None) = (sv_recorder s = None) \<Longrightarrow> same_objects s s'"
proof -
  assume "(sv_jpeg s' = None) = (sv_jpeg s = None)" "(sv_raw s' = None) = (sv_raw s = None)"
    "(sv_yuv s' = None) = (sv_yuv s = None)" "(sv_live s' = None) = (sv_live s = None)"
    "(sv_recorder s' = None) = (sv_recorder s = None)"
  then have "has_object s' c = has_object s c" for c by (cases c) simp_all
  then show "same_objects s s'" by (simp add: same_objects_def fun_eq_iff)
qed

lemma registered_cong:
  assumes "same_objects s s'" "consumerList s' = consumerList s"
  shows "registered s' = registered s"
proof -
  have "has_object s' LiveConsumer = has_object s LiveConsumer" using assms(1) by (simp add: same_objects_def)
  then show ?thesis using assms
    by (cases "sv_live s"; cases "sv_live s'") (simp_all add: registered_def same_objects_def)
qed

lemma live_sound_mono: "live_sound started p l \<Longrightarrow> (started \<longrightarrow> started') \<Longrightarrow> live_sound started' p l"
  by (auto simp: live_sound_def)

lemma gps_sound_label:
  assumes "gps_sound g"
  shows "\<exists>d. gps_for_frame junk g now = Done d"
proof (cases "gps_data_buf g")
  case Nil
  then show ?thesis by (simp add: gps_for_frame_def getGPSData_def)
next
  case (Cons b bs)
  with assms obtain t where t: "gps_rcv_tmout g = Some t" by (auto simp: gps_sound_def)
  obtain d where "search_buf (now - scast (getTimingOffset g)) now (Some t) None (b # bs) = Done (Some d)"
    using search_buf_found by blast
  then show ?thesis by (simp add: gps_for_frame_def getGPSData_def Cons t del: search_buf.simps)
qed

subsection \<open>Frames\<close>

lemma live_frame_survives:
  assumes s: "live_sound started p l" "gps_sound g" and ok: "live_frame_ok started p frame"
  shows "\<exists>l'. live_onFrameReceivedCallback free junk g now frame l = Done l' \<and> live_sound True p l'"
proof (cases "isStarted l")
  case False
  with s(1) show ?thesis
    by (auto simp: live_onFrameReceivedCallback_def live_start_def live_sound_def split: source_phase.splits)
next
  case True
  then have started: "started" using s(1) by (simp add: live_sound_def)
  obtain d where d: "gps_for_frame junk g now = Done d" using gps_sound_label [OF s(2)] by blast
  show ?thesis
  proof (cases p)
    case Never
    with ok started show ?thesis by (simp add: live_frame_ok_def)
  next
    case Gone
    with s(1) show ?thesis by (simp add: live_frame_cases [OF d True] live_sound_def)
  next
    case Present
    with s(1) obtain src where src: "ipcuFramedSource l = Source src" "length (frame_buffer src) = BUFFER_SIZE"
      "referenceCount (source_static l) = 1" by (auto simp: live_sound_def)
    have room: "BUFFER_SIZE < length frame \<or> length (fst (sei_encode d)) + length frame \<le> BUFFER_SIZE"
      using ok started Present sei_unit_length(2) [of d] by (auto simp: live_frame_ok_def)
    have "\<exists>r t src'. writeFrameToBuf free frame (fst (sei_encode d)) (source_static l) src = Done (r, t, src') \<and>
      length (frame_buffer src') = BUFFER_SIZE"
      using room src(2) unfolding writeFrameToBuf_eq [OF src(3,2)]
      by (cases "BUFFER_SIZE < length frame \<or> \<not> free") auto
    then obtain r t src' where w: "writeFrameToBuf free frame (fst (sei_encode d)) (source_static l) src = Done (r, t, src')"
      "length (frame_buffer src') = BUFFER_SIZE" by blast
    have "live_onFrameReceivedCallback free junk g now frame l = Done (l\<lparr>ipcuFramedSource := Source src'\<rparr>)"
      by (simp add: live_frame_cases [OF d True] src(1) w(1))
    with src(3) w(2) Present show ?thesis by (simp add: live_sound_def)
  qed
qed

lemma save_survives:
  assumes "2 \<le> length address"
  shows "saveJpegWithExif w st g address info \<noteq> Fault"
proof (cases "w_exif_new w")
  case True
  obtain d where d: "gps_for_picture (w_junk w) g = Done d" using gps_for_picture_no_fault by blast
  show ?thesis
  proof (cases "w_opens w")
    case opens: True
    from picture_file [OF True opens assms d, of st info] obtain bs where
      "saveJpegWithExif w st g address info =
        (let (ret, out) = do_writes (w_write w) 0 (take 2 address # bs) in Done (ret = 0, Some out))" by blast
    then show ?thesis by (simp add: Let_def case_prod_unfold)
  next
    case False
    with True d show ?thesis by (simp add: saveJpegWithExif_def save_picture_with_exif_def Let_def)
  qed
qed (simp add: saveJpegWithExif_def)

lemma call_survives:
  assumes s: "objects_sound started p s" "has_object s c"
    and j: "c = JpegConsumer \<Longrightarrow> 2 \<le> length (fw_mem w a (unat z))"
    and l: "c = LiveConsumer \<Longrightarrow> live_frame_ok started p (fw_mem w a (unat z))"
  shows "\<exists>es s'. consumer_call w c a z s = Done (es, s') \<and> objects_sound (started \<or> c = LiveConsumer) p s' \<and>
    same_objects s s' \<and> consumerList s' = consumerList s"
proof (cases c)
  case JpegConsumer
  with s obtain x where x: "sv_jpeg s = Some x" by auto
  obtain ok fl where "saveJpegWithExif (fw_jpeg w) (sv_status s) (sv_gps s) (fw_mem w a (unat z)) (fw_info w) = Done (ok, fl)"
    using save_survives [OF j [OF JpegConsumer], of "fw_jpeg w" "sv_status s" "sv_gps s" "fw_info w"]
    by (cases "saveJpegWithExif (fw_jpeg w) (sv_status s) (sv_gps s) (fw_mem w a (unat z)) (fw_info w)") auto
  then have "\<exists>r. jpeg_onFrameReceivedCallback (fw_free w) (fw_jpeg w) (sv_status s) (sv_gps s)
      (fw_mem w a (unat z)) (fw_info w) x = Done r"
    by (cases "fw_free w") (simp_all add: jpeg_onFrameReceivedCallback_def Let_def case_prod_unfold)
  then obtain y out saved where "jpeg_onFrameReceivedCallback (fw_free w) (fw_jpeg w) (sv_status s) (sv_gps s)
      (fw_mem w a (unat z)) (fw_info w) x = Done (y, out, saved)" by auto
  with s x JpegConsumer show ?thesis by (auto simp: objects_sound_def intro!: same_objectsI)
next
  case RawConsumer
  with s show ?thesis by (auto simp: objects_sound_def Let_def case_prod_unfold intro!: same_objectsI)
next
  case YuvConsumer
  with s show ?thesis by (auto simp: objects_sound_def Let_def case_prod_unfold intro!: same_objectsI)
next
  case LiveConsumer
  with s obtain x where x: "sv_live s = Some x" "live_sound started p x" "gps_sound (sv_gps s)"
    by (auto simp: objects_sound_def)
  from live_frame_survives [OF x(2,3) l [OF LiveConsumer], of "fw_free w" "fw_junk w" "fw_now w"] obtain y where
    "live_onFrameReceivedCallback (fw_free w) (fw_junk w) (sv_gps s) (fw_now w) (fw_mem w a (unat z)) x = Done y"
    "live_sound True p y" by blast
  with s x(1) LiveConsumer show ?thesis by (auto simp: objects_sound_def intro!: same_objectsI)
next
  case RecorderConsumer
  with s obtain x where x: "sv_recorder s = Some x" "recorder_sound (sv_recorder s)" "gps_sound (sv_gps s)"
    by (auto simp: objects_sound_def)
  obtain d where d: "gps_for_frame (fw_junk w) (sv_gps s) (fw_now w) = Done d" using gps_sound_label [OF x(3)] by blast
  have "\<exists>avs. recorder_onFrameReceivedCallback (fw_av w) (fw_rescale w) (fw_junk w) (sv_gps s) (fw_now w)
      (fw_ms w) frame x = Done avs" for frame
  proof (cases "recordStatus x = RECORD_STATUS_RECORDING")
    case True
    with x(1,2) have "f_ctx x = Live True" by (simp add: recorder_sound_def)
    from recorder_on_recording [OF True this d] show ?thesis by simp
  qed (simp add: recorder_onFrameReceivedCallback_def)
  then obtain avs where "recorder_onFrameReceivedCallback (fw_av w) (fw_rescale w) (fw_junk w) (sv_gps s) (fw_now w)
      (fw_ms w) (fw_mem w a (unat (ucast z :: u32))) x = Done avs" by blast
  with s x(1) RecorderConsumer show ?thesis by (auto simp: intro!: same_objectsI)
qed

lemma calls_survive:
  "objects_sound started p s \<Longrightarrow> \<forall>c\<in>set cs. has_object s (f_consumer c) \<Longrightarrow>
    \<forall>c\<in>set cs. f_consumer c = JpegConsumer \<longrightarrow> 2 \<le> length (fw_mem w (f_address c) (unat (f_size c))) \<Longrightarrow>
    \<forall>c\<in>set cs. f_consumer c = LiveConsumer \<longrightarrow> live_frame_ok started p (fw_mem w (f_address c) (unat (f_size c))) \<Longrightarrow>
    length (filter (\<lambda>c. f_consumer c = LiveConsumer) cs) \<le> 1 \<Longrightarrow>
    \<exists>fx s'. serve_calls w cs s = Done (fx, s') \<and> same_objects s s' \<and> consumerList s' = consumerList s \<and>
      objects_sound (started \<or> filter (\<lambda>c. f_consumer c = LiveConsumer) cs \<noteq> []) p s'"
proof (induction cs arbitrary: s started)
  case Nil
  then show ?case by (simp add: same_objects_def)
next
  case (Cons c cs)
  let ?st = "started \<or> f_consumer c = LiveConsumer"
  obtain es1 s1 where c: "consumer_call w (f_consumer c) (f_address c) (f_size c) s = Done (es1, s1)"
    "objects_sound ?st p s1" "same_objects s s1" "consumerList s1 = consumerList s"
    using call_survives [OF Cons.prems(1), of "f_consumer c" w "f_address c" "f_size c"] Cons.prems(2-4) by auto
  have live: "\<forall>d\<in>set cs. f_consumer d = LiveConsumer \<longrightarrow> live_frame_ok ?st p (fw_mem w (f_address d) (unat (f_size d)))"
  proof (cases "f_consumer c = LiveConsumer")
    case True
    then have "filter (\<lambda>c. f_consumer c = LiveConsumer) cs = []" using Cons.prems(5) by simp
    then show ?thesis by (auto simp: filter_empty_conv)
  qed (use Cons.prems(4) in simp)
  have "\<forall>d\<in>set cs. has_object s1 (f_consumer d)" using Cons.prems(2) c(3) by (simp add: same_objects_def)
  moreover have "length (filter (\<lambda>c. f_consumer c = LiveConsumer) cs) \<le> 1" using Cons.prems(5) by (simp split: if_split_asm)
  ultimately obtain fx s' where "serve_calls w cs s1 = Done (fx, s')" "same_objects s1 s'" "consumerList s' = consumerList s1"
    "objects_sound (?st \<or> filter (\<lambda>c. f_consumer c = LiveConsumer) cs \<noteq> []) p s'"
    using Cons.IH [OF c(2) _ _ live] Cons.prems(3) by auto
  with c same_objects_trans [OF c(3)] show ?case by (auto split: if_split)
qed

lemma camera_survives:
  assumes s: "objects_sound started p s" "registered s" and m: "harmless J p2v recorder (Camera w m)"
    and l: "sv_live s \<noteq> None \<Longrightarrow> live_frame m \<Longrightarrow> live_frame_ok started p (live_bytes p2v w m)"
  shows "\<exists>evs s'. camera_message p2v send w m s = Done (evs, s') \<and> objects_sound (started \<or> live_frame m) p s' \<and>
    registered s' \<and> same_objects s s'"
proof -
  have long: "44 \<le> length m" using m by simp
  then show ?thesis
  proof (cases rule: camera_message_eq [where p2v = p2v and send = send])
    case (nobody rs)
    with s show ?thesis using live_sound_mono by (fastforce simp: objects_sound_def same_objects_def)
  next
    case (served m' msg)
    let ?cs = "map (call_for m') (filter (wants m) (consumerList s))"
    note bytes = call_bytes [OF long served(4,5)]
    have obj: "\<forall>c\<in>set ?cs. has_object s (f_consumer c)" using s(2) by (auto simp: registered_def call_for_def)
    have live: "filter (\<lambda>c. f_consumer c = LiveConsumer) ?cs = (if sv_live s \<noteq> None \<and> live_frame m
        then [call_for m' \<lparr>fConsumer = LiveConsumer, streamId = 0, streamType = 0x100\<rparr>] else [])"
      unfolding calls_of_consumer using s(2) served(1) by (auto simp: registered_def wants_def live_frame_def)
    have frame: "\<forall>c\<in>set ?cs. f_consumer c = LiveConsumer \<longrightarrow> live_frame_ok started p (fw_mem w (f_address c) (unat (f_size c)))"
    proof (intro ballI impI)
      fix c assume "c \<in> set ?cs" "f_consumer c = LiveConsumer"
      then have "c \<in> set (filter (\<lambda>c. f_consumer c = LiveConsumer) ?cs)" by simp
      then have c: "sv_live s \<noteq> None" "live_frame m" "c = call_for m' \<lparr>fConsumer = LiveConsumer, streamId = 0, streamType = 0x100\<rparr>"
        unfolding live by (simp_all split: if_split_asm)
      show "live_frame_ok started p (fw_mem w (f_address c) (unat (f_size c)))"
        using l [OF c(1,2)] unfolding c(3) bytes by (simp add: live_bytes_def)
    qed
    have pics: "\<forall>c\<in>set ?cs. f_consumer c = JpegConsumer \<longrightarrow> 2 \<le> length (fw_mem w (f_address c) (unat (f_size c)))"
    proof (intro ballI impI)
      fix c assume "c \<in> set ?cs" "f_consumer c = JpegConsumer"
      then obtain e where e: "e \<in> set (consumerList s)" "wants m e" "c = call_for m' e" "fConsumer e = JpegConsumer"
        by (auto simp: call_for_def)
      then have "jpeg_frame (Camera w m) \<noteq> []" using s(2) served(1) by (auto simp: registered_def wants_def)
      then show "2 \<le> length (fw_mem w (f_address c) (unat (f_size c)))"
        using m unfolding e(3) bytes by (simp add: picture_bytes_def)
    qed
    have one: "length (filter (\<lambda>c. f_consumer c = LiveConsumer) ?cs) \<le> 1" unfolding live by simp
    from calls_survive [OF s(1) obj pics frame one] obtain fx s' where f: "serve_calls w ?cs s = Done (fx, s')"
      "same_objects s s'" "consumerList s' = consumerList s"
      "objects_sound (started \<or> filter (\<lambda>c. f_consumer c = LiveConsumer) ?cs \<noteq> []) p s'" by blast
    have "objects_sound (started \<or> live_frame m) p s'"
      using f(4) live_sound_mono unfolding live by (fastforce simp: objects_sound_def split: if_split_asm)
    with f(1-3) s(2) registered_cong [OF f(2,3)] show ?thesis by (simp add: served(6))
  qed
qed

subsection \<open>Rounds\<close>

lemma handleData_survives:
  assumes "readable J msg" "stoull (the (field J msg ''data'' ''time_stamp'' [])) \<noteq> None"
  shows "\<exists>r g'. handleData (j_lib J) (j_strtof J) now (j_parse J msg) g = Some (r, g')"
proof -
  have f: "\<exists>v. getStrFromJson (j_lib J) (j_parse J msg) l1 l2 l3 = Some v" for l1 l2 l3
    using assms(1) by (simp add: readable_def field_def)
  obtain lat lon alt rol pit ya ts where v:
    "getStrFromJson (j_lib J) (j_parse J msg) ''data'' ''location'' ''latitude'' = Some lat"
    "getStrFromJson (j_lib J) (j_parse J msg) ''data'' ''location'' ''longitude'' = Some lon"
    "getStrFromJson (j_lib J) (j_parse J msg) ''data'' ''location'' ''altitude'' = Some alt"
    "getStrFromJson (j_lib J) (j_parse J msg) ''data'' ''angles'' ''roll'' = Some rol"
    "getStrFromJson (j_lib J) (j_parse J msg) ''data'' ''angles'' ''pitch'' = Some pit"
    "getStrFromJson (j_lib J) (j_parse J msg) ''data'' ''angles'' ''yaw'' = Some ya"
    "getStrFromJson (j_lib J) (j_parse J msg) ''data'' ''time_stamp'' [] = Some ts"
    using f by metis
  with assms(2) obtain n where n: "stoull ts = Some n" by (auto simp: field_def)
  show ?thesis
    by (simp add: handleData_def v n case_prod_unfold Let_def)
qed

lemma set_from_survives:
  "str = [] \<or> stoi str \<noteq> None \<Longrightarrow>
    set_from str f st = Some (if str = [] then st else f (word_of_int (the (stoi str))) st)"
  by (auto simp: set_from_def)

lemma sub_msg_survives:
  assumes "sub_msg_ok J msg" "gps_sound (sv_gps s)"
  shows "\<exists>t. handle_sub_msg J now msg s = Some t \<and> gps_sound (sv_gps t)"
proof -
  have f: "\<exists>v. getStrFromJson (j_lib J) (j_parse J msg) l1 l2 l3 = Some v" for l1 l2 l3
    using assms(1) by (simp add: sub_msg_ok_def readable_def field_def)
  obtain cmd where c: "getStrFromJson (j_lib J) (j_parse J msg) ''cmd'' [] [] = Some cmd" using f by blast
  note ok = assms(1) [unfolded sub_msg_ok_def field_def c option.sel Let_def]
  consider (gps) "cmd = ''GPS''" | (status) "cmd = ''DeviceStatus''" | (work) "cmd = ''workStatus''"
    | (other) "cmd \<noteq> ''GPS''" "cmd \<noteq> ''DeviceStatus''" "cmd \<noteq> ''workStatus''" by blast
  then show ?thesis
  proof cases
    case gps
    from handleData_survives [of J msg now "sv_gps s"] assms(1) c gps obtain r g' where
      h: "handleData (j_lib J) (j_strtof J) now (j_parse J msg) (sv_gps s) = Some (r, g')"
      by (auto simp: sub_msg_ok_def field_def)
    from h have "gps_sound g'" by (cases rule: handleData_cases) (use assms(2) in \<open>auto simp: gps_sound_def\<close>)
    with c gps h show ?thesis by (simp add: handle_sub_msg_def Let_def)
  next
    case status
    obtain t v where "getStrFromJson (j_lib J) (j_parse J msg) ''data'' ''cmos_temp'' [] = Some t"
      "getStrFromJson (j_lib J) (j_parse J msg) ''data'' ''total_voltage'' [] = Some v" using f by metis
    with c status ok assms(2) show ?thesis by (auto simp: handle_sub_msg_def Let_def)
  next
    case work
    obtain a b d where v: "getStrFromJson (j_lib J) (j_parse J msg) ''data'' ''noise_reduction_strength'' [] = Some a"
      "getStrFromJson (j_lib J) (j_parse J msg) ''data'' ''photo_resolve'' [] = Some b"
      "getStrFromJson (j_lib J) (j_parse J msg) ''data'' ''shutter_count'' ''count1'' = Some d" using f by metis
    with ok work have n: "a = [] \<or> stoi a \<noteq> None" "b = [] \<or> stoi b \<noteq> None" "d = [] \<or> stoi d \<noteq> None" by auto
    show ?thesis
      using c work v assms(2)
      by (simp add: handle_sub_msg_def Let_def set_from_survives [OF n(1)] set_from_survives [OF n(2)] set_from_survives [OF n(3)]
          del: not_None_eq)
  next
    case other
    with c assms(2) show ?thesis by (simp add: handle_sub_msg_def Let_def)
  qed
qed

lemma video_start_survives:
  "sv_recorder s \<noteq> None \<Longrightarrow> \<exists>ok es t. video_start w width height sid codec rate s = Some (ok, es, t)"
  by (auto simp: video_start_def case_prod_unfold Let_def)

lemma video_stop_survives:
  assumes "sv_recorder s \<noteq> None" "recorder_sound (sv_recorder s)"
  shows "\<exists>ok es t. video_stop s = Some (ok, es, t)"
proof -
  from assms(1) obtain r where r: "sv_recorder s = Some r" by auto
  show ?thesis
  proof (cases "recordStatus r = RECORD_STATUS_RECORDING")
    case True
    with assms(2) r have "f_ctx r = Live True" by (simp add: recorder_sound_def)
    with True r show ?thesis by (auto simp: video_stop_def getRecordStatus_def stop_record_def)
  qed (auto simp: video_stop_def getRecordStatus_def r)
qed

lemma handle_cmd_total:
  assumes ok: "request_ok J recorder req" and rec: "recorder \<Longrightarrow> sv_recorder s \<noteq> None" "recorder_sound (sv_recorder s)"
  shows "handle_cmd J w req s \<noteq> None"
proof -
  have f: "\<exists>v. getStrFromJson (j_lib J) (j_parse J req) l1 l2 l3 = Some v" for l1 l2 l3
    using ok by (simp add: request_ok_def readable_def field_def)
  obtain cmd where c: "getStrFromJson (j_lib J) (j_parse J req) ''cmd'' [] [] = Some cmd" using f by blast
  note ok = ok [unfolded request_ok_def field_def c option.sel Let_def]
  consider (start) "cmd = ''VideoStart''" | (stop) "cmd = ''VideoStop''" | (video) "cmd = ''VideoStorage''" | (photo) "cmd = ''PhotoStorage''"
    | (other) "cmd \<notin> {''VideoStart'', ''VideoStop'', ''VideoStorage'', ''PhotoStorage''}" by blast
  then show ?thesis
  proof cases
    case start
    obtain a b d where v: "getStrFromJson (j_lib J) (j_parse J req) ''data'' ''resolve'' [] = Some a"
      "getStrFromJson (j_lib J) (j_parse J req) ''data'' ''format'' [] = Some b"
      "getStrFromJson (j_lib J) (j_parse J req) ''data'' ''fps'' [] = Some d" using f by metis
    obtain width height where size: "(if a \<noteq> [] then request_size a else Some (1920, 1080)) = Some (width, height)"
      using ok start v by (cases "a = []") auto
    obtain rate where rate: "(if d \<noteq> [] then stoi d else Some 25) = Some rate"
      using ok start v by (cases "d = []") auto
    have "sv_recorder s \<noteq> None" using ok start rec(1) by simp
    from video_start_survives [OF this, of w width height "fst (request_stream b)" "snd (request_stream b)" rate]
    obtain ok es t where
      "video_start w width height (fst (request_stream b)) (snd (request_stream b)) rate s = Some (ok, es, t)" by blast
    then have "handle_cmd J w req s = Some (ok, es, t)"
      using size rate by (cases "a = []"; cases "d = []") (simp_all add: handle_cmd_def c start v Let_def case_prod_unfold)
    then show ?thesis by simp
  next
    case stop
    then have "sv_recorder s \<noteq> None" using ok rec(1) by simp
    from video_stop_survives [OF this rec(2)] show ?thesis by (auto simp: handle_cmd_def c stop Let_def)
  next
    case video
    obtain a b where "getStrFromJson (j_lib J) (j_parse J req) ''data'' ''path'' [] = Some a"
      "getStrFromJson (j_lib J) (j_parse J req) ''data'' ''prefix'' [] = Some b" using f by metis
    with c video show ?thesis by (cases "sv_recorder s") (simp_all add: handle_cmd_def Let_def)
  next
    case photo
    obtain a b where "getStrFromJson (j_lib J) (j_parse J req) ''data'' ''path'' [] = Some a"
      "getStrFromJson (j_lib J) (j_parse J req) ''data'' ''prefix'' [] = Some b" using f by metis
    with c photo show ?thesis by (cases "sv_jpeg s") (simp_all add: handle_cmd_def Let_def)
  next
    case other
    with c show ?thesis by (simp add: handle_cmd_def Let_def)
  qed
qed

lemma registered_add:
  "registered s \<Longrightarrow> sv_recorder s \<noteq> None \<Longrightarrow> same_objects s s' \<Longrightarrow>
    consumerList s' = consumerList s @ [\<lparr>fConsumer = RecorderConsumer, streamId = sid, streamType = t\<rparr>] \<Longrightarrow> registered s'"
proof -
  assume a: "registered s" "sv_recorder s \<noteq> None" "same_objects s s'"
    "consumerList s' = consumerList s @ [\<lparr>fConsumer = RecorderConsumer, streamId = sid, streamType = t\<rparr>]"
  then have o: "has_object s' = has_object s" "(sv_live s' = None) = (sv_live s = None)"
    by (simp_all add: same_objects_def fun_eq_iff) (metis has_object.simps(4))
  with a(1,2,4) show ?thesis unfolding registered_def by (simp add: o)
qed

lemma removeConsumer_subset: "set (removeConsumer d xs) \<subseteq> set xs"
proof -
  have "set (remove_skip d xs) \<subseteq> set xs" by (induction d xs rule: remove_skip.induct) auto
  then show ?thesis by (simp add: removeConsumer_skip)
qed

lemma registered_remove:
  assumes "registered s" "same_objects s s'" "consumerList s' = removeConsumer RecorderConsumer (consumerList s)"
  shows "registered s'"
proof -
  have o: "has_object s' = has_object s" "(sv_live s' = None) = (sv_live s = None)"
    using assms(2) by (simp_all add: same_objects_def fun_eq_iff) (metis has_object.simps(4))
  have "filter (\<lambda>c. fConsumer c = LiveConsumer) (consumerList s') = filter (\<lambda>c. fConsumer c = LiveConsumer) (consumerList s)"
    by (simp add: assms(3) entries_removed)
  with assms(1) removeConsumer_subset [of RecorderConsumer "consumerList s"] show ?thesis
    unfolding registered_def by (auto simp: o assms(3))
qed

lemma start_record_sound:
  "av_documented av \<Longrightarrow> recordStatus r \<noteq> RECORD_STATUS_RECORDING \<Longrightarrow>
    recorder_sound (Some (snd (snd (start_record av now t c w h f n r))))"
  by (auto simp: recorder_sound_def start_record_def Let_def av_documented_def)

lemma handle_cmd_survives:
  assumes ok: "request_ok J recorder req" "av_documented (rq_av w)" and rec: "recorder \<Longrightarrow> sv_recorder s \<noteq> None"
    and s: "objects_sound started p s" "registered s"
  shows "\<exists>b es t. handle_cmd J w req s = Some (b, es, t) \<and> objects_sound started p t \<and> registered t \<and> same_objects s t"
proof -
  have "recorder_sound (sv_recorder s)" using s(1) by (simp add: objects_sound_def)
  with handle_cmd_total [OF ok(1) rec, where w = w] obtain b es t where h: "handle_cmd J w req s = Some (b, es, t)" by (auto simp: not_None_eq)
  then have "objects_sound started p t \<and> registered t \<and> same_objects s t"
  proof (cases rule: handle_cmd_some)
    case (start width height sid codec rate)
    from start(2) show ?thesis
    proof (cases rule: video_start_some)
      case busy
      with s show ?thesis by (simp add: same_objects_def)
    next
      case (started r r')
      have "recordStatus r \<noteq> RECORD_STATUS_RECORDING" using started(1,2) by (simp add: recording_def getRecordStatus_def)
      from start_record_sound [OF ok(2) this] have "recorder_sound (Some r')" by (simp add: started(4))
      moreover have "same_objects s t" using started by (intro same_objectsI) simp_all
      moreover from registered_add [OF s(2) _ this] have "registered t" using started by simp
      ultimately show ?thesis using s(1) started(5) by (simp add: objects_sound_def)
    qed
  next
    case stop
    from stop(2) show ?thesis
    proof (cases rule: video_stop_some)
      case idle
      with s show ?thesis by (simp add: same_objects_def)
    next
      case (stopped r')
      have "sv_recorder s \<noteq> None" using stopped(1) by (auto simp: recording_def split: option.splits)
      then have "same_objects s t" using stopped by (intro same_objectsI) simp_all
      moreover from registered_remove [OF s(2) this] have "registered t" using stopped by simp
      ultimately show ?thesis using s(1) stopped by (simp add: objects_sound_def recorder_sound_def)
    qed
  next
    case (storage r q f)
    then have "same_objects s t" by (intro same_objectsI) simp_all
    moreover from registered_cong [OF this] have "registered t" using s(2) storage by simp
    ultimately show ?thesis using s(1) storage
      by (simp add: objects_sound_def recorder_sound_def setPrefix_def setPath_def)
  next
    case (photo j)
    show ?thesis
    proof (cases "sv_jpeg s")
      case None
      have "t = s" using h photo(1) None by (simp add: handle_cmd_def Let_def)
      with s show ?thesis by (simp add: same_objects_def)
    next
      case (Some x)
      then have "same_objects s t" using photo(4) by (intro same_objectsI) auto
      moreover from registered_cong [OF this] have "registered t" using s(2) photo(4) by auto
      ultimately show ?thesis using s(1) photo(4) by (auto simp: objects_sound_def)
    qed
  qed (use s in \<open>simp_all add: same_objects_def\<close>)
  with h show ?thesis by blast
qed

lemma round_survives:
  assumes ok: "harmless J p2v recorder (Round now w gps_msg status_msg request)" and rec: "recorder \<Longrightarrow> sv_recorder s \<noteq> None"
    and s: "objects_sound started p s" "registered s"
  shows "\<exists>es sent t. main_round J now w gps_msg status_msg request s = Some (es, sent, t) \<and>
    objects_sound started p t \<and> registered t \<and> same_objects s t"
proof -
  have "\<exists>u. (case receiveSub gps_msg status_msg of None \<Rightarrow> Some s | Some m \<Rightarrow> handle_sub_msg J now m s) = Some u \<and>
    objects_sound started p u \<and> registered u \<and> same_objects s u"
  proof (cases "receiveSub gps_msg status_msg")
    case None
    with s show ?thesis by (simp add: same_objects_def)
  next
    case (Some m)
    have "sub_msg_ok J m" "gps_sound (sv_gps s)" using ok Some s(1) by (simp_all add: objects_sound_def)
    from sub_msg_survives [OF this] obtain u where u: "handle_sub_msg J now m s = Some u" "gps_sound (sv_gps u)" by blast
    have "same_objects s u" using sub_msg_keeps [OF u(1)]
      by (intro same_objectsI) simp_all
    moreover from registered_cong [OF this] have "registered u" using sub_msg_keeps [OF u(1)] s(2) by simp
    ultimately show ?thesis using u Some s(1) sub_msg_keeps [OF u(1)]
      by (simp add: objects_sound_def)
  qed
  then obtain u where u: "(case receiveSub gps_msg status_msg of None \<Rightarrow> Some s | Some m \<Rightarrow> handle_sub_msg J now m s) = Some u"
    "objects_sound started p u" "registered u" "same_objects s u" by blast
  show ?thesis
  proof (cases request)
    case None
    with u show ?thesis by (simp add: main_round_def receiveCmd_def)
  next
    case (Some req)
    have "recorder \<Longrightarrow> sv_recorder u \<noteq> None" using rec u(4) unfolding same_objects_def by (metis has_object.simps(5))
    moreover have "request_ok J recorder req" "av_documented (rq_av w)" using ok Some by simp_all
    ultimately obtain b es t where
      "handle_cmd J w req u = Some (b, es, t)" "objects_sound started p t" "registered t" "same_objects u t"
      using handle_cmd_survives [OF _ _ _ u(2,3)] by blast
    with u(1) Some same_objects_trans [OF u(4)] show ?thesis by (simp add: main_round_def receiveCmd_def)
  qed
qed

lemma input_survives:
  assumes ok: "harmless J p2v recorder i" "sv_live s \<noteq> None \<Longrightarrow> live_input_ok p2v (started, p) i"
    and rec: "recorder \<Longrightarrow> sv_recorder s \<noteq> None"
    and s: "objects_sound started p s" "registered s"
  shows "\<exists>es t. serve_input J p2v send i s = Done (es, t) \<and> registered t \<and> same_objects s t \<and>
    objects_sound (fst (live_next (started, p) i)) (snd (live_next (started, p) i)) t"
proof (cases i)
  case (Camera w m)
  with camera_survives [OF s, of J p2v recorder w m send] ok show ?thesis by auto
next
  case (Round now w gps_msg status_msg request)
  from round_survives [OF ok(1) [unfolded Round] rec s] Round show ?thesis by auto
next
  case (Client_opens mem trigger)
  show ?thesis
  proof (cases "sv_live s")
    case None
    with s Client_opens show ?thesis by (simp add: objects_sound_def same_objects_def)
  next
    case (Some l)
    let ?t = "s\<lparr>sv_live := Some (createNewStreamSource mem trigger l)\<rparr>"
    have "live_sound started Present (createNewStreamSource mem trigger l)"
      using ok(2) Some Client_opens s(1)
      by (cases p) (auto simp: objects_sound_def live_sound_def createNewStreamSource_def IPCU555FramedSource_def)
    moreover have "same_objects s ?t" using Some by (intro same_objectsI) simp_all
    moreover from registered_cong [OF this] have "registered ?t" using s(2) by simp
    ultimately show ?thesis using Some Client_opens s(1) by (simp add: objects_sound_def)
  qed
next
  case Client_closes
  show ?thesis
  proof (cases "sv_live s")
    case None
    with s Client_closes show ?thesis by (simp add: objects_sound_def same_objects_def)
  next
    case (Some l)
    let ?t = "s\<lparr>sv_live := Some (closeStreamSource l)\<rparr>"
    have "live_sound started Gone (closeStreamSource l)"
      using ok(2) Some Client_closes s(1)
      by (auto simp: objects_sound_def live_sound_def closeStreamSource_def delete_source_def Let_def)
    moreover have "same_objects s ?t" using Some by (intro same_objectsI) simp_all
    moreover from registered_cong [OF this] have "registered ?t" using s(2) by simp
    ultimately show ?thesis using Some Client_closes s(1) by (simp add: objects_sound_def)
  qed
next
  case Signalled
  have "same_objects s (signal_handler s)" by (intro same_objectsI) (simp_all add: signal_handler_def)
  moreover from registered_cong [OF this] have "registered (signal_handler s)" using s(2) by (simp add: signal_handler_def)
  ultimately show ?thesis using Signalled s(1) by (simp add: objects_sound_def signal_handler_def)
qed

subsection \<open>The loop\<close>

text \<open>Only a signal sets \<open>app_abort\<close>.\<close>

lemma serve_calls_abort: "serve_calls w cs s = Done (es, s') \<Longrightarrow> app_abort s' = app_abort s"
proof (induction cs arbitrary: s es)
  case (Cons c cs)
  obtain es1 s1 where c: "consumer_call w (f_consumer c) (f_address c) (f_size c) s = Done (es1, s1)"
    using Cons.prems by (cases "consumer_call w (f_consumer c) (f_address c) (f_size c) s") auto
  then have "app_abort s1 = app_abort s"
    by (cases "f_consumer c") (auto split: option.split_asm run.split_asm prod.split_asm simp: Let_def)
  moreover obtain es2 where "serve_calls w cs s1 = Done (es2, s')"
    using Cons.prems c by (cases "serve_calls w cs s1") auto
  ultimately show ?case using Cons.IH by simp
qed simp

lemma handle_cmd_abort: "handle_cmd J w req s = Some (ok, es, s') \<Longrightarrow> app_abort s' = app_abort s"
  by (erule handle_cmd_some; (elim video_start_some video_stop_some)?; auto)

lemma round_abort:
  assumes "main_round J now w gps_msg status_msg request s = Some (es, sent, s')"
  shows "app_abort s' = app_abort s"
proof -
  obtain t where t: "(case receiveSub gps_msg status_msg of None \<Rightarrow> Some s | Some m \<Rightarrow> handle_sub_msg J now m s) = Some t"
    and rest: "do { (_, es, sent, s) \<leftarrow> receiveCmd (handle_cmd J w) request t; Some (es, sent, s) } = Some (es, sent, s')"
    using assms by (auto simp: main_round_def split: bind_splits)
  have "app_abort t = app_abort s" using t by (auto split: option.splits dest: sub_msg_keeps)
  then show ?thesis using rest by (auto simp: receiveCmd_def split: option.splits bind_splits dest: handle_cmd_abort)
qed

lemma input_abort:
  assumes "serve_input J p2v send i s = Done (es, t)"
  shows "app_abort t \<longleftrightarrow> app_abort s \<or> i = Signalled"
proof (cases i)
  case (Camera w m)
  with assms have "camera_message p2v send w m s = Done (es, t)" by simp
  then have "app_abort t = app_abort s" by (cases rule: camera_message_cases) (auto dest: serve_calls_abort)
  with Camera show ?thesis by simp
next
  case (Round now w gps_msg status_msg request)
  with assms obtain fx sent where "main_round J now w gps_msg status_msg request s = Some (fx, sent, t)"
    by (auto split: option.splits)
  from round_abort [OF this] Round show ?thesis by simp
qed (use assms in \<open>auto simp: signal_handler_def split: option.splits\<close>)

fun loop_ends :: "bool \<Rightarrow> server_input list \<Rightarrow> bool" where
  "loop_ends a [] \<longleftrightarrow> False"
| "loop_ends a (i # ins) \<longleftrightarrow> (is_round i \<and> a) \<or> loop_ends (a \<or> i = Signalled) ins"

lemma loop_ends_iff:
  "loop_ends a ins \<longleftrightarrow> (\<exists>xs i ys. ins = xs @ i # ys \<and> is_round i \<and> (a \<or> Signalled \<in> set xs))"
proof (induction ins arbitrary: a)
  case (Cons i ins)
  show ?case (is "_ \<longleftrightarrow> ?R")
  proof
    assume "loop_ends a (i # ins)"
    then consider "is_round i" "a" | "loop_ends (a \<or> i = Signalled) ins" by auto
    then show ?R
    proof cases
      case 1
      then show ?thesis by (intro exI [of _ "[]"]) simp
    next
      case 2
      then obtain xs j ys where "ins = xs @ j # ys" "is_round j" "(a \<or> i = Signalled) \<or> Signalled \<in> set xs"
        unfolding Cons.IH by blast
      then show ?thesis by (intro exI [of _ "i # xs"]) auto
    qed
  next
    assume ?R
    then obtain xs j ys where r: "i # ins = xs @ j # ys" "is_round j" "a \<or> Signalled \<in> set xs" by blast
    then show "loop_ends a (i # ins)"
    proof (cases xs)
      case (Cons x xs')
      with r have "loop_ends (a \<or> i = Signalled) ins" unfolding Cons.IH by auto
      then show ?thesis by simp
    qed simp
  qed
qed simp

lemma loop_survives:
  "list_all (harmless J p2v recorder) ins \<Longrightarrow> (sv_live s \<noteq> None \<Longrightarrow> live_harmless p2v (started, p) ins) \<Longrightarrow>
    (recorder \<Longrightarrow> sv_recorder s \<noteq> None) \<Longrightarrow> objects_sound started p s \<Longrightarrow> registered s \<Longrightarrow>
    \<exists>evs s'. main_loop J p2v send rcv ins s = Done (evs, s', loop_ends (app_abort s) ins)"
proof (induction ins arbitrary: s started p)
  case (Cons i ins)
  consider (out) "is_round i" "app_abort s" | (dropped) "\<not> (is_round i \<and> app_abort s)" "is_camera i" "rcv \<noteq> callback_camif_fn"
    | (served) "\<not> (is_round i \<and> app_abort s)" "\<not> (is_camera i \<and> rcv \<noteq> callback_camif_fn)" by blast
  then show ?case
  proof cases
    case out
    then show ?thesis by simp
  next
    case dropped
    then obtain w m where i: "i = Camera w m" by (cases i) auto
    have "objects_sound (started \<or> live_frame m) p s"
      using Cons.prems(4) live_sound_mono by (fastforce simp: objects_sound_def)
    with Cons.IH [of s "started \<or> live_frame m" p] Cons.prems i
    obtain evs s' where "main_loop J p2v send rcv ins s = Done (evs, s', loop_ends (app_abort s) ins)" by auto
    with dropped i show ?thesis by simp
  next
    case served
    obtain st q where ph: "live_next (started, p) i = (st, q)" by fastforce
    have "harmless J p2v recorder i" "sv_live s \<noteq> None \<Longrightarrow> live_input_ok p2v (started, p) i"
      using Cons.prems(1,2) by auto
    from input_survives [OF this Cons.prems(3-5), of send] obtain es t where
      t: "serve_input J p2v send i s = Done (es, t)" "registered t" "same_objects s t" "objects_sound st q t"
      by (auto simp: ph)
    have "(sv_live t = None) = (sv_live s = None)" "(sv_recorder t = None) = (sv_recorder s = None)"
      using t(3) unfolding same_objects_def by (metis has_object.simps(4)) (metis t(3) same_objects_def has_object.simps(5))
    with Cons.IH [OF _ _ _ t(4,2)] Cons.prems(1-3) ph
    obtain evs s' where "main_loop J p2v send rcv ins t = Done (evs, s', loop_ends (app_abort t) ins)" by auto
    with served t(1) input_abort [OF t(1)] show ?thesis by auto
  qed
qed simp

lemma flag_on: "x AND push_bit n 1 \<noteq> 0 \<longleftrightarrow> bit x n" for x :: u32
  by (simp add: push_bit_eq_mult and_exp_eq_0_iff_not_bit)

lemma initial_flags:
  "bit (flag (handle_params vm initial_server)) 1 \<longleftrightarrow> opt_video vm \<noteq> None"
  "bit (flag (handle_params vm initial_server)) 4 \<longleftrightarrow> opt_rtsp vm \<noteq> None"
  by (cases "opt_debug vm"; cases "opt_video vm"; cases "opt_mjpeg vm"; cases "opt_ram_dcim_url vm"; cases "opt_rtsp vm";
      cases "opt_gps_timing_offset vm"; cases "opt_jpeg vm";
      simp add: handle_params_def Let_def FLAG_DEBUG_def FLAG_VIDEO_def FLAG_MJPEG_def FLAG_JPEG_def FLAG_RTSP_def
        initial_server_def bit_simps)+

lemma initial_objects:
  "sv_jpeg (handle_params vm initial_server) = None \<and> sv_raw (handle_params vm initial_server) = None \<and>
   sv_yuv (handle_params vm initial_server) = None \<and> sv_live (handle_params vm initial_server) = None \<and>
   sv_recorder (handle_params vm initial_server) = None \<and> consumerList (handle_params vm initial_server) = [] \<and>
   gps_data_buf (sv_gps (handle_params vm initial_server)) = [] \<and> \<not> app_abort (handle_params vm initial_server)"
  unfolding handle_params_def
  by (intro let_keeps [where Q = "\<lambda>s. sv_jpeg s = None \<and> sv_raw s = None \<and> sv_yuv s = None \<and> sv_live s = None \<and>
      sv_recorder s = None \<and> consumerList s = [] \<and> gps_data_buf (sv_gps s) = [] \<and> \<not> app_abort s"])
    (auto simp: initial_server_def GPSEstone_def setTimingOffset_def split: option.splits)

lemma initial_sound:
  fixes vm serial
  defines "s \<equiv> init_modules serial (handle_params vm initial_server)"
  shows "objects_sound False Never s" "registered s" "sv_recorder s \<noteq> None \<longleftrightarrow> opt_video vm \<noteq> None"
    "sv_live s \<noteq> None \<longleftrightarrow> opt_rtsp vm \<noteq> None" "\<not> app_abort s"
proof -
  let ?t = "handle_params vm initial_server"
  have v: "flag ?t AND FLAG_VIDEO \<noteq> 0 \<longleftrightarrow> opt_video vm \<noteq> None" and r: "flag ?t AND FLAG_RTSP \<noteq> 0 \<longleftrightarrow> opt_rtsp vm \<noteq> None"
    by (simp_all only: FLAG_VIDEO_def FLAG_RTSP_def flag_on initial_flags)
  note facts = initial_objects [of vm] s_def init_modules_def Let_def objects_sound_def gps_sound_def recorder_sound_def
    live_sound_def Live555Server_def MediaRecorder_def registered_def addConsumer_def COMMAND_STREAM_JPG_def
    COMMAND_STREAM_VIDEO_def
  show "sv_recorder s \<noteq> None \<longleftrightarrow> opt_video vm \<noteq> None" "sv_live s \<noteq> None \<longleftrightarrow> opt_rtsp vm \<noteq> None" "\<not> app_abort s"
    "objects_sound False Never s" "registered s"
    using v r by (cases "flag ?t AND FLAG_JPEG = 0"; cases "opt_rtsp vm"; cases "opt_video vm"; simp add: facts)+
qed

subsection \<open>Property\<close>

text \<open>C4: The program survives harmless inputs and ends when it should. If the command for the serial number can be
  run, camera messages are complete, pictures have a start marker, the texts and numbers of messages and requests can
  be read, recordings are started and stopped only with a recorder, libav refuses headers without a
  stream, and clients of a server with RTSP (which has its port) connect before its second frame, follow the protocol of live555, and
  frames leave room for their SEI unit, then no operation faults or throws, whatever the order of the inputs: \<open>main\<close>
  serves them all, and returns if and only if a round of the loop follows a signal.\<close>

theorem server_survives:
  assumes "list_all (harmless J p2v (opt_video (mw_options w) \<noteq> None)) ins"
    and "opt_rtsp (mw_options w) \<noteq> None \<longrightarrow> live_harmless p2v (False, Never) ins" and "mw_serial w \<noteq> None"
  shows "\<exists>R. server_main J p2v send w ins = Done R \<and>
    (run_exit R \<noteq> None \<longleftrightarrow> (\<exists>xs i ys. ins = xs @ i # ys \<and> is_round i \<and> Signalled \<in> set xs))"
proof -
  obtain serial where serial: "read_serial (mw_serial w) = Some serial"
    using assms(3) by (auto simp: read_serial_def)
  let ?s = "init_modules serial (handle_params (mw_options w) initial_server)"
  note init = initial_sound [where serial = serial and vm = "mw_options w"]
  obtain r1 i1 r2 i2 where "open_result (mw_driver w) 6 = (r1, i1)" "open_result (mw_driver w) 7 = (r2, i2)" by fastforce
  from receiver_start_cases [OF this, of "mw_malloc w" "mw_create w" 0 0] obtain ret cs st where
    st: "receiver_start (mw_driver w) (mw_malloc w) (mw_create w) 0 0 initial_stream_if = Some (ret, cs, st)"
      "if_lib st = fresh_lib" by blast
  let ?rcv = "receiver_after (mw_driver w) cs no_receiver"
  obtain evs s' where loop: "main_loop J p2v send ?rcv ins ?s = Done (evs, s', loop_ends False ins)"
    using loop_survives [OF assms(1), of ?s False Never send ?rcv] assms(2) init by auto
  show ?thesis
    using receiver_stop_eq [OF st(2), of "mw_driver w" "mw_join w"]
    by (simp add: server_main_def serial st(1) loop loop_ends_iff [of False, symmetric, simplified])
qed

text \<open>A server with all its modules: a client, frames, a picture, a recording, a signal.\<close>

definition demo_full_world :: main_world where
  "demo_full_world = (demo_main_world 0)\<lparr>mw_options := demo_options\<lparr>opt_jpeg := Some ''/ram'', opt_rtsp := Some ''live''\<rparr>\<rparr>"

definition demo_full_inputs :: "server_input list" where
  "demo_full_inputs = [Client_opens (replicate BUFFER_SIZE 0) 7, Camera demo_frame_world demo_video_frame,
     Camera demo_frame_world demo_video_frame, Camera demo_frame_world demo_jpeg_frame,
     Round 0 (demo_request 0) None None (Some ''VideoStart''), Camera demo_frame_world demo_video_frame,
     Round 0 (demo_request 0) None None (Some ''VideoStop''), Client_closes, Signalled,
     Round 0 (demo_request 0) None None None]"

lemma demo_readable: "readable demo_json_ops msg"
  by (auto simp: readable_def field_def getStrFromJson_def demo_json_ops_def demo_jsonc_def split: option.split demo_json.split)

lemma demo_requests_ok: "request_ok demo_json_ops True ''VideoStart''" "request_ok demo_json_ops True ''VideoStop''"
  using demo_readable by (simp_all add: request_ok_def field_def demo_cmd demo_no_data)

lemma server_survives_witness:
  "\<exists>R code. server_main demo_json_ops id (\<lambda>_. 0) demo_full_world demo_full_inputs = Done R \<and> run_exit R = Some code"
proof -
  have b: "live_bytes id demo_frame_world m = [0, 0, 1, 0x65]" "picture_bytes id demo_frame_world m = [0, 0, 1, 0x65]" for m
    by (simp_all add: live_bytes_def picture_bytes_def demo_frame_world_def)
  have f: "live_frame demo_video_frame" "\<not> live_frame demo_jpeg_frame"
    by (simp_all add: live_frame_def demo_video_frame_words demo_video_frame_magic demo_jpeg_frame_words)
  have len: "44 \<le> length demo_jpeg_frame" by (simp add: demo_jpeg_frame_def)
  have o: "opt_video (mw_options demo_full_world) \<noteq> None" by (simp add: demo_full_world_def demo_options_def)
  have av: "av_documented (rq_av (demo_request 0))" by (simp add: av_documented_def demo_request_def)
  have h: "list_all (harmless demo_json_ops id (opt_video (mw_options demo_full_world) \<noteq> None)) demo_full_inputs"
    using o by (simp add: demo_full_inputs_def b demo_video_frame_words(3) len demo_requests_ok av receiveSub_def)
  have l: "live_harmless id (False, Never) demo_full_inputs"
    by (simp add: demo_full_inputs_def f b live_frame_ok_def BUFFER_SIZE_def)
  have "\<exists>xs i ys. demo_full_inputs = xs @ i # ys \<and> is_round i \<and> Signalled \<in> set xs"
    unfolding demo_full_inputs_def
    by (intro exI [of _ "butlast demo_full_inputs"] exI [of _ "Round 0 (demo_request 0) None None None"] exI [of _ "[]"])
      (simp add: demo_full_inputs_def)
  moreover have "mw_serial demo_full_world \<noteq> None" by (simp add: demo_full_world_def demo_main_world_def)
  ultimately show ?thesis
    using server_survives [OF h, of "\<lambda>_. 0"] l by auto
qed

end
