(* ===== verification/ConsumerVector.thy ===== *)
theory ConsumerVector
  imports StreamReceiver
begin

text \<open>
  \<open>consumerList\<close> of \<open>src/src/stream_receiver.cpp\<close> as what it is in memory: a \<open>std::vector\<close> of pointers to
  \<open>StreamConsumer\<close> objects. The vector refines the list of \<open>StreamReceiver\<close> as long as its
  operations do not overlap. The loop of \<open>cb\<close> runs in the driver's thread and \<open>addConsumer\<close> and
  \<open>removeConsumer\<close> in the main thread, without a lock: what happens when one comes between
  two iterations of the loop is stated too.
\<close>

subsection \<open>Memory\<close>

text \<open>
  Live arrays of pointers (the vector's storage, as long as its capacity) and live objects, by
  address; addresses are not used twice. A vector without storage has the empty array 0.
  \<open>grow\<close> is the capacity after growing.
\<close>

record 'c receiver_mem =
  arrays :: "nat \<rightharpoonup> nat list"
  objects :: "nat \<rightharpoonup> 'c StreamConsumer"
  next_addr :: nat
  v_data :: nat
  v_count :: nat

definition no_consumers :: "'c receiver_mem" where
  "no_consumers = \<lparr>arrays = [0 \<mapsto> []], objects = Map.empty, next_addr = 1, v_data = 0, v_count = 0\<rparr>"

definition new_consumer :: "'c StreamConsumer \<Rightarrow> 'c receiver_mem \<Rightarrow> nat \<times> 'c receiver_mem" where
  "new_consumer x m = (next_addr m, m\<lparr>objects := (objects m)(next_addr m \<mapsto> x), next_addr := next_addr m + 1\<rparr>)"

definition push_back :: "(nat \<Rightarrow> nat) \<Rightarrow> nat \<Rightarrow> 'c receiver_mem \<Rightarrow> 'c receiver_mem run" where
  "push_back grow p m =
    (case arrays m (v_data m) of
       None \<Rightarrow> Fault
     | Some cells \<Rightarrow>
         if v_count m < length cells
         then Done (m\<lparr>arrays := (arrays m)(v_data m \<mapsto> cells[v_count m := p]), v_count := v_count m + 1\<rparr>)
         else Done (m\<lparr>arrays := ((arrays m)(v_data m := None))(next_addr m \<mapsto>
                cells @ [p] @ replicate (grow (v_count m) - v_count m - 1) 0),
              next_addr := next_addr m + 1, v_data := next_addr m, v_count := v_count m + 1\<rparr>))"

definition mem_addConsumer ::
    "(nat \<Rightarrow> nat) \<Rightarrow> u32 \<Rightarrow> u32 \<Rightarrow> 'c \<Rightarrow> 'c receiver_mem \<Rightarrow> 'c receiver_mem run" where
  "mem_addConsumer grow typ sid c m =
    (let (p, m) = new_consumer \<lparr>fConsumer = c, streamId = sid, streamType = typ\<rparr> m in push_back grow p m)"

text \<open>\<open>erase\<close> moves the elements behind the position down by one; the last cell keeps its content.\<close>

definition erase_at :: "nat \<Rightarrow> nat list \<Rightarrow> nat \<Rightarrow> nat list" where
  "erase_at n cells i = take i cells @ drop (i + 1) (take n cells) @ drop (n - 1) cells"

function mem_remove_from :: "'c \<Rightarrow> nat \<Rightarrow> 'c receiver_mem \<Rightarrow> 'c receiver_mem run" where
  "mem_remove_from c i m =
    (if i < v_count m
     then (case arrays m (v_data m) of
         None \<Rightarrow> Fault
       | Some cells \<Rightarrow>
           (case objects m (cells ! i) of
              None \<Rightarrow> Fault
            | Some x \<Rightarrow>
                if fConsumer x = c
                then mem_remove_from c (i + 1) (m\<lparr>objects := (objects m)(cells ! i := None),
                       arrays := (arrays m)(v_data m \<mapsto> erase_at (v_count m) cells i), v_count := v_count m - 1\<rparr>)
                else mem_remove_from c (i + 1) m))
     else Done m)"
  by pat_completeness auto
termination by (relation "measure (\<lambda>(c, i, m). v_count m - i)") auto

declare mem_remove_from.simps [simp del]

definition mem_removeConsumer :: "'c \<Rightarrow> 'c receiver_mem \<Rightarrow> 'c receiver_mem run" where
  "mem_removeConsumer c m = mem_remove_from c 0 m"

text \<open>
  The range-based loop of \<open>cb\<close>: it fixes the array and the number of elements when it starts. \<open>k\<close>
  iterations are left, the next one at index \<open>i\<close> of the array \<open>b\<close>.
\<close>

fun mem_cb_from :: "byte list \<Rightarrow> nat \<Rightarrow> nat \<Rightarrow> nat \<Rightarrow> 'c receiver_mem \<Rightarrow> 'c frame_call list run" where
  "mem_cb_from p b i 0 m = Done []"
| "mem_cb_from p b i (Suc k) m =
    (case arrays m b of
       None \<Rightarrow> Fault
     | Some cells \<Rightarrow>
         if length cells \<le> i then Fault
         else (case objects m (cells ! i) of
            None \<Rightarrow> Fault
          | Some x \<Rightarrow>
              (case cb_one p x of
                 None \<Rightarrow> Fault
               | Some here \<Rightarrow>
                   (case mem_cb_from p b (i + 1) k m of Fault \<Rightarrow> Fault | Done rest \<Rightarrow> Done (here @ rest)))))"

definition mem_cb :: "byte list \<Rightarrow> 'c receiver_mem \<Rightarrow> 'c frame_call list run" where
  "mem_cb p m = mem_cb_from p (v_data m) 0 (v_count m) m"

subsection \<open>What the memory represents\<close>

text \<open>The pointers \<open>ps\<close> to the objects \<open>xs\<close>, and the unused \<open>rest\<close> of the storage.\<close>

definition vector_rep :: "'c receiver_mem \<Rightarrow> nat list \<Rightarrow> nat list \<Rightarrow> 'c StreamConsumer list \<Rightarrow> bool" where
  "vector_rep m ps rest xs \<longleftrightarrow> arrays m (v_data m) = Some (ps @ rest) \<and> v_count m = length ps \<and>
     distinct ps \<and> map (objects m) ps = map Some xs \<and>
     (\<forall>a\<in>dom (arrays m) \<union> dom (objects m). a < next_addr m)"

lemma vector_rep_length: "vector_rep m ps rest xs \<Longrightarrow> length ps = length xs"
  unfolding vector_rep_def by (metis length_map)

lemma vector_rep_nth:
  assumes "vector_rep m ps rest xs" and "i < length xs"
  shows "objects m (ps ! i) = Some (xs ! i)"
proof -
  have "map (objects m) ps ! i = map Some xs ! i" using assms(1) by (simp only: vector_rep_def)
  with assms vector_rep_length [OF assms(1)] show ?thesis by simp
qed

lemma vector_rep_fresh:
  assumes "vector_rep m ps rest xs"
  shows "v_data m < next_addr m" and "p \<in> set ps \<Longrightarrow> p < next_addr m"
proof -
  show "v_data m < next_addr m" using assms by (auto simp: vector_rep_def)
  assume "p \<in> set ps"
  then obtain i where "i < length xs" "p = ps ! i" using vector_rep_length [OF assms] by (auto simp: in_set_conv_nth)
  with vector_rep_nth [OF assms] have "p \<in> dom (objects m)" by blast
  with assms show "p < next_addr m" by (simp add: vector_rep_def)
qed

lemma no_consumers_rep: "vector_rep no_consumers [] [] []"
  by (simp add: vector_rep_def no_consumers_def)

lemma mem_cb_from_rep:
  assumes "44 \<le> length p"
  shows "arrays m b = Some (pre @ qs @ post) \<Longrightarrow> map (objects m) qs = map Some ys \<Longrightarrow>
    mem_cb_from p b (length pre) (length qs) m = Done (map (call_for p) (filter (wants p) ys))"
proof (induction qs arbitrary: pre ys)
  case (Cons q qs)
  then obtain z zs where y: "ys = z # zs" "objects m q = Some z" "map (objects m) qs = map Some zs" by auto
  with Cons.IH [of "pre @ [q]" zs] Cons.prems(1) assms show ?case by (simp add: cb_one_eq)
qed simp

lemma mem_cb_rep:
  assumes "44 \<le> length p" and "vector_rep m ps rest xs"
  shows "mem_cb p m = Done (map (call_for p) (filter (wants p) xs))"
  using mem_cb_from_rep [OF assms(1), of m "v_data m" "[]" ps rest xs] assms(2) by (simp add: mem_cb_def vector_rep_def)

lemma add_rep:
  assumes rep: "vector_rep m ps rest xs"
  shows "\<exists>m' ps' rest'. mem_addConsumer grow typ sid c m = Done m' \<and> vector_rep m' ps' rest' (addConsumer typ sid c xs)"
proof -
  let ?p = "next_addr m" and ?x = "\<lparr>fConsumer = c, streamId = sid, streamType = typ\<rparr>"
  note fresh = vector_rep_fresh [OF rep]
  have new: "?p \<notin> set ps" using fresh(2) by blast
  then have old: "map ((objects m)(?p \<mapsto> ?x)) (ps @ [?p]) = map Some (addConsumer typ sid c xs)"
    using rep by (simp add: vector_rep_def addConsumer_def)
  show ?thesis
  proof (cases rest)
    case (Cons r rs)
    let ?m = "m\<lparr>objects := (objects m)(?p \<mapsto> ?x), next_addr := ?p + 1,
      arrays := (arrays m)(v_data m \<mapsto> (ps @ rest)[length ps := ?p]), v_count := length ps + 1\<rparr>"
    have "vector_rep ?m (ps @ [?p]) rs (addConsumer typ sid c xs)"
      using rep Cons old new fresh(1) by (simp add: vector_rep_def ball_Un) (metis less_SucI)
    moreover have "mem_addConsumer grow typ sid c m = Done ?m"
      using rep Cons by (simp add: mem_addConsumer_def new_consumer_def push_back_def vector_rep_def)
    ultimately show ?thesis by blast
  next
    case Nil
    let ?rest = "replicate (grow (length ps) - length ps - 1) 0"
    let ?m = "m\<lparr>objects := (objects m)(?p \<mapsto> ?x), next_addr := ?p + 1 + 1,
      arrays := ((arrays m)(v_data m := None))(?p + 1 \<mapsto> (ps @ [?p]) @ ?rest), v_data := ?p + 1, v_count := length ps + 1\<rparr>"
    have "vector_rep ?m (ps @ [?p]) ?rest (addConsumer typ sid c xs)"
      using rep old new fresh(1) by (simp add: vector_rep_def ball_Un) (meson DiffD1 less_SucI)
    moreover have "mem_addConsumer grow typ sid c m = Done ?m"
      using rep Nil by (simp add: mem_addConsumer_def new_consumer_def push_back_def vector_rep_def)
    ultimately show ?thesis by blast
  qed
qed

text \<open>One erasure.\<close>

definition mem_erase :: "nat \<Rightarrow> nat list \<Rightarrow> 'c receiver_mem \<Rightarrow> 'c receiver_mem" where
  "mem_erase i cells m = m\<lparr>objects := (objects m)(cells ! i := None),
     arrays := (arrays m)(v_data m \<mapsto> erase_at (v_count m) cells i), v_count := v_count m - 1\<rparr>"

lemma mem_remove_from_rep:
  assumes rep: "vector_rep m ps rest xs"
  shows "mem_remove_from c i m =
    (if i < length xs
     then if fConsumer (xs ! i) = c then mem_remove_from c (i + 1) (mem_erase i (ps @ rest) m)
          else mem_remove_from c (i + 1) m
     else Done m)"
  using rep vector_rep_nth [OF rep, of i] vector_rep_length [OF rep]
  by (subst mem_remove_from.simps) (auto simp: vector_rep_def mem_erase_def nth_append)

lemma erase_rep:
  assumes rep: "vector_rep m ps rest xs" and i: "i < length xs"
  shows "vector_rep (mem_erase i (ps @ rest) m) (take i ps @ drop (Suc i) ps)
    (drop (length ps - 1) ps @ rest) (take i xs @ drop (Suc i) xs)"
proof -
  note len = vector_rep_length [OF rep]
  have "distinct (take i ps @ ps ! i # drop (Suc i) ps)"
    using rep i len id_take_nth_drop [of i ps] by (simp add: vector_rep_def)
  then have out: "ps ! i \<notin> set (take i ps @ drop (Suc i) ps)" "distinct (take i ps @ drop (Suc i) ps)" by auto
  have "map ((objects m)(ps ! i := None)) (take i ps @ drop (Suc i) ps) = map (objects m) (take i ps @ drop (Suc i) ps)"
    using out(1) by (intro map_cong) auto
  also have "\<dots> = map Some (take i xs @ drop (Suc i) xs)"
    using rep by (simp add: vector_rep_def flip: take_map drop_map)
  finally have "map (objects (mem_erase i (ps @ rest) m)) (take i ps @ drop (Suc i) ps) =
      map Some (take i xs @ drop (Suc i) xs)"
    using i len by (simp add: mem_erase_def nth_append)
  moreover have "erase_at (length ps) (ps @ rest) i =
      (take i ps @ drop (Suc i) ps) @ drop (length ps - 1) ps @ rest"
    using i len by (simp add: erase_at_def)
  ultimately show ?thesis
    using rep i len out(2) by (auto simp: vector_rep_def mem_erase_def)
qed

lemma remove_rep:
  "vector_rep m ps rest xs \<Longrightarrow>
    \<exists>m' ps' rest'. mem_remove_from c i m = Done m' \<and> vector_rep m' ps' rest' (remove_from c i xs)"
proof (induction c i xs arbitrary: m ps rest rule: remove_from.induct)
  case (1 c i xs)
  note step = mem_remove_from_rep [OF 1(2), of c i]
  show ?case
  proof (cases "i < length xs")
    case True
    then show ?thesis
      using 1(1) [OF True, of m] 1(1) [OF True, of "mem_erase i (ps @ rest) m"] 1(2) erase_rep [OF 1(2) True] step
      by (subst remove_from.simps) (cases "fConsumer (xs ! i) = c"; auto)
  next
    case False
    with 1(2) step show ?thesis by (subst remove_from.simps) auto
  qed
qed

lemma mem_remove_skip:
  assumes rep: "vector_rep m ps rest zs" and "i \<le> k" and "k \<le> length zs"
    and "\<And>j. i \<le> j \<Longrightarrow> j < k \<Longrightarrow> fConsumer (zs ! j) \<noteq> c"
  shows "mem_remove_from c i m = mem_remove_from c k m"
  using assms(2,4)
proof (induction i rule: inc_induct)
  case (step i)
  then have "mem_remove_from c i m = mem_remove_from c (i + 1) m"
    using assms(3) by (subst mem_remove_from_rep [OF rep]) simp
  with step show ?case by simp
qed simp

lemma mem_remove_once:
  assumes rep: "vector_rep m ps rest (xs @ e # ys)" and c: "fConsumer e = c"
    and others: "\<And>x. x \<in> set xs \<union> set ys \<Longrightarrow> fConsumer x \<noteq> c"
  shows "mem_removeConsumer c m = Done (mem_erase (length xs) (ps @ rest) m)"
proof -
  let ?m = "mem_erase (length xs) (ps @ rest) m"
  have "mem_removeConsumer c m = mem_remove_from c (length xs) m"
    unfolding mem_removeConsumer_def
    by (rule mem_remove_skip [OF rep]) (use others in \<open>auto simp: nth_append\<close>)
  also have "\<dots> = mem_remove_from c (length xs + 1) ?m"
    using c by (subst mem_remove_from_rep [OF rep]) simp
  also have "\<dots> = Done ?m"
  proof (cases ys)
    case Nil
    then show ?thesis using erase_rep [OF rep, of "length xs"]
      by (subst mem_remove_from_rep) auto
  next
    case (Cons y zs)
    have r: "vector_rep ?m (take (length xs) ps @ drop (Suc (length xs)) ps) (drop (length ps - 1) ps @ rest) (xs @ ys)"
      using erase_rep [OF rep, of "length xs"] by simp
    have "mem_remove_from c (length xs + 1) ?m = mem_remove_from c (length (xs @ ys)) ?m"
      by (rule mem_remove_skip [OF r]) (use others Cons in \<open>auto simp: nth_append nth_mem\<close>)
    then show ?thesis by (simp add: mem_remove_from_rep [OF r])
  qed
  finally show ?thesis .
qed

text \<open>The loop of \<open>cb\<close> in its array, from any point on, while the vector has become another one.\<close>

lemma mem_cb_append:
  "mem_cb_from p b i (k + l) m = (case mem_cb_from p b i k m of Fault \<Rightarrow> Fault
    | Done xs \<Rightarrow> (case mem_cb_from p b (i + k) l m of Fault \<Rightarrow> Fault | Done ys \<Rightarrow> Done (xs @ ys)))"
  by (induction k arbitrary: i) (auto split: run.splits option.splits)

lemma mem_cb_one:
  assumes "44 \<le> length p" and "arrays m b = Some (qs @ q # post)"
  shows "mem_cb_from p b (length qs) 1 m = (case objects m q of None \<Rightarrow> Fault
    | Some x \<Rightarrow> Done (map (call_for p) (filter (wants p) [x])))"
  using assms by (auto simp: cb_one_eq split: option.split)

lemma removal_under_loop:
  assumes rep: "vector_rep m ps rest (xs @ e # ys)" and c: "fConsumer e = c"
    and others: "\<And>x. x \<in> set xs \<union> set ys \<Longrightarrow> fConsumer x \<noteq> c"
    and p: "44 \<le> length p" and i: "i \<le> length xs"
  shows "\<exists>m'. mem_removeConsumer c m = Done m' \<and>
    mem_cb_from p (v_data m) i (v_count m - i) m' = (if ys = [] then Fault
      else Done (map (call_for p) (filter (wants p) (drop i xs @ ys @ [last ys]))))"
proof -
  let ?m = "mem_erase (length xs) (ps @ rest) m" and ?n = "length ps"
  let ?ps = "take (length xs) ps @ drop (Suc (length xs)) ps"
  have n: "?n = length xs + 1 + length ys" using vector_rep_length [OF rep] by simp
  then have last: "drop (?n - 1) ps = [last ps]" "ps \<noteq> []"
    by (cases ps rule: rev_cases; simp)+
  have r: "vector_rep ?m ?ps ([last ps] @ rest) (xs @ ys)"
    using erase_rep [OF rep, of "length xs"] last by simp
  have len: "length ?ps = ?n - 1" using n by simp
  have same: "v_data ?m = v_data m" by (simp add: mem_erase_def)
  have count: "v_count m - i = length (drop i ?ps) + 1" using rep n i len by (simp add: vector_rep_def)
  have array: "arrays ?m (v_data m) = Some (take i ?ps @ drop i ?ps @ [last ps] @ rest)"
    using r unfolding vector_rep_def same by (metis append.assoc append_take_drop_id)
  have live: "map (objects ?m) (drop i ?ps) = map Some (drop i (xs @ ys))"
    using r unfolding vector_rep_def by (metis drop_map)
  have front: "mem_cb_from p (v_data m) i (length (drop i ?ps)) ?m =
      Done (map (call_for p) (filter (wants p) (drop i xs @ ys)))"
    using mem_cb_from_rep [OF p array live] i n by simp
  have cell: "arrays ?m (v_data m) = Some (?ps @ last ps # rest)" using r by (simp add: vector_rep_def same)
  have "ps ! (?n - 1) = last ps" using last(2) by (simp add: last_conv_nth)
  then have obj: "objects ?m (last ps) = (if ys = [] then None else Some (last ys))"
  proof (cases "ys = []")
    case True
    then show ?thesis using n \<open>ps ! (?n - 1) = last ps\<close> by (simp add: mem_erase_def nth_append)
  next
    case False
    have "ps ! length xs \<noteq> ps ! (?n - 1)"
      using rep n False nth_eq_iff_index_eq [of ps "length xs" "?n - 1"] by (simp add: vector_rep_def)
    moreover have "objects m (ps ! (?n - 1)) = Some (last ys)"
      using vector_rep_nth [OF rep, of "?n - 1"] n False by (simp add: nth_append last_conv_nth)
    ultimately show ?thesis
      using \<open>ps ! (?n - 1) = last ps\<close> n False by (auto simp: mem_erase_def nth_append)
  qed
  have at: "i + length (drop i ?ps) = length ?ps" using i n by simp
  have "mem_cb_from p (v_data m) i (v_count m - i) ?m = (if ys = [] then Fault
      else Done (map (call_for p) (filter (wants p) (drop i xs @ ys @ [last ys]))))"
    unfolding count mem_cb_append front at mem_cb_one [OF p cell] obj by simp
  with mem_remove_once [OF rep c others] show ?thesis by blast
qed

lemma growth_under_loop:
  assumes rep: "vector_rep m ps [] xs" and i: "i < length xs"
  shows "\<exists>m'. mem_addConsumer grow typ sid c m = Done m' \<and>
    mem_cb_from p (v_data m) i (v_count m - i) m' = Fault"
proof -
  have "v_data m < next_addr m" by (rule vector_rep_fresh [OF rep])
  moreover have "v_count m - i = Suc (v_count m - i - 1)" using rep i vector_rep_length [OF rep]
    by (simp add: vector_rep_def)
  ultimately show ?thesis
    using rep by (auto simp: mem_addConsumer_def new_consumer_def push_back_def vector_rep_def)
qed

subsection \<open>Properties\<close>

text \<open>C11: The vector in memory refines the list of registrations: from the empty vector on, registering,
  removing and dispatching never touch freed memory when they do not overlap, registering and
  removing give a vector that represents the new list, and a dispatched frame calls the
  consumers of the list.\<close>

theorem vector_refines_list:
  assumes "vector_rep m ps rest xs" and "44 \<le> length p"
  shows "vector_rep no_consumers [] [] [] \<and>
    (\<exists>m' ps' rest'. mem_addConsumer grow typ sid c m = Done m' \<and> vector_rep m' ps' rest' (addConsumer typ sid c xs)) \<and>
    (\<exists>m' ps' rest'. mem_removeConsumer d m = Done m' \<and> vector_rep m' ps' rest' (removeConsumer d xs)) \<and>
    Some (mem_cb p m) = map_option Done (cb_calls p xs)"
  using no_consumers_rep add_rep [OF assms(1)] remove_rep [OF assms(1)] mem_cb_rep [OF assms(2,1)]
  by (simp add: mem_removeConsumer_def removeConsumer_def cb_calls_eq [OF assms(2)])

text \<open>C19: The list is used without a lock by the thread that delivers frames and by the main thread. If a
  consumer is removed while a loop of \<open>cb\<close> has not reached it, the loop goes on to the element it
  counted at its start: it reads the object that was deleted if the consumer was registered last
  (as a recorder is, when its recording stops), and calls the last consumer a second time if it was not. If
  a consumer is added to a full vector, the loop reads the array that was freed.\<close>

theorem unlocked_list_race:
  assumes "vector_rep m ps rest (xs @ e # ys)" and "\<And>x. x \<in> set xs \<union> set ys \<Longrightarrow> fConsumer x \<noteq> fConsumer e"
    and "44 \<le> length p" and "i \<le> length xs"
  shows "(\<exists>m'. mem_removeConsumer (fConsumer e) m = Done m' \<and>
      mem_cb_from p (v_data m) i (v_count m - i) m' = (if ys = [] then Fault
        else Done (map (call_for p) (filter (wants p) (drop i xs @ ys @ [last ys]))))) \<and>
    (rest = [] \<longrightarrow> (\<exists>m'. mem_addConsumer grow typ sid c m = Done m' \<and>
      mem_cb_from p (v_data m) i (v_count m - i) m' = Fault))"
  using removal_under_loop [OF assms(1) refl assms(2-4)] growth_under_loop [of m ps "xs @ e # ys" i] assms(1,4) by auto

definition demo_vector :: "nat receiver_mem" where
  "demo_vector = \<lparr>arrays = [3 \<mapsto> [1, 2]], objects = [1 \<mapsto> \<lparr>fConsumer = 1, streamId = 16, streamType = 0x500\<rparr>,
     2 \<mapsto> \<lparr>fConsumer = 2, streamId = 0, streamType = 0x100\<rparr>], next_addr = 4, v_data = 3, v_count = 2\<rparr>"

lemma demo_vector_rep: "vector_rep demo_vector [1, 2] []
    ([\<lparr>fConsumer = 1, streamId = 16, streamType = 0x500\<rparr>] @ \<lparr>fConsumer = 2, streamId = 0, streamType = 0x100\<rparr> # [])"
  by (simp add: vector_rep_def demo_vector_def)

theorem vector_refines_list_witness:
  "\<exists>m' ps' rest'. mem_removeConsumer 2 demo_vector = Done m' \<and>
    vector_rep m' ps' rest' (removeConsumer 2 [\<lparr>fConsumer = 1, streamId = 16, streamType = 0x500\<rparr>,
      \<lparr>fConsumer = 2, streamId = 0, streamType = 0x100\<rparr>])"
proof -
  have "44 \<le> length demo_jpeg_frame" by (simp add: demo_jpeg_frame_def)
  from vector_refines_list [OF demo_vector_rep this, of "\<lambda>n. 2 * n" 0 0 0 2] show ?thesis by auto
qed

theorem unlocked_list_race_witness:
  "\<exists>m'. mem_removeConsumer 2 demo_vector = Done m' \<and> mem_cb_from demo_jpeg_frame 3 1 1 m' = Fault"
proof -
  have "44 \<le> length demo_jpeg_frame" by (simp add: demo_jpeg_frame_def)
  from unlocked_list_race [OF demo_vector_rep _ this, of 1 "\<lambda>n. 2 * n" 0 0 0] show ?thesis
    by (simp add: demo_vector_def)
qed

end
