(* ===== verification/StreamLiveness.thy ===== *)
theory StreamLiveness
  imports StreamService
begin

text \<open>
  Progress of the stream thread of \<open>src/src/sample_library.c\<close> (\<open>stream_thread_proc\<close>, lines 662 to
  679) under weak fairness: an infinite run of \<open>stream_step\<close> in which the thread is not passed over
  for ever while it can move. Every accepted command is delivered, also when the thread is
  stopped in between, and a thread that was told to stop ends, so that the \<open>pthread_join\<close> of
  \<open>stop_stream_thread\<close> returns. Fairness covers what the code relies on: the scheduler runs the
  thread, callbacks return, and \<open>pthread_cond_signal\<close> wakes a waiting thread.
\<close>

subsection \<open>Weak fairness and a rank\<close>

text \<open>Runs of \<open>next_step\<close> with pauses that are weakly fair to the steps of \<open>moves\<close>.\<close>

definition fair_run :: "('s \<Rightarrow> 's \<Rightarrow> bool) \<Rightarrow> ('s \<Rightarrow> 's \<Rightarrow> bool) \<Rightarrow> (nat \<Rightarrow> 's) \<Rightarrow> bool" where
  "fair_run next_step moves \<rho> \<longleftrightarrow> (\<forall>i. \<rho> (Suc i) = \<rho> i \<or> next_step (\<rho> i) (\<rho> (Suc i))) \<and>
     (\<forall>i. \<exists>j\<ge>i. moves (\<rho> j) (\<rho> (Suc j)) \<or> \<not> (\<exists>\<tau>. moves (\<rho> j) \<tau>))"

text \<open>
  The rule of progress: while there is something to do, the process can move, its moves decrease a
  rank, and no other step increases it.
\<close>

locale progress =
  fixes next_step moves :: "'s \<Rightarrow> 's \<Rightarrow> bool" and good todo :: "'s \<Rightarrow> bool" and rank :: "'s \<Rightarrow> nat"
  assumes good_step: "good \<sigma> \<Longrightarrow> next_step \<sigma> \<tau> \<Longrightarrow> good \<tau>"
    and rank_step: "good \<sigma> \<Longrightarrow> todo \<sigma> \<Longrightarrow> next_step \<sigma> \<tau> \<Longrightarrow> rank \<tau> \<le> rank \<sigma>"
    and rank_moves: "good \<sigma> \<Longrightarrow> todo \<sigma> \<Longrightarrow> moves \<sigma> \<tau> \<Longrightarrow> rank \<tau> < rank \<sigma>"
    and can_move: "good \<sigma> \<Longrightarrow> todo \<sigma> \<Longrightarrow> \<exists>\<tau>. moves \<sigma> \<tau>"
begin

lemma good_along:
  assumes "fair_run next_step moves \<rho>" and "good (\<rho> k)" and "k \<le> j"
  shows "good (\<rho> j)"
  using assms(3)
proof (induction j rule: dec_induct)
  case (step i)
  have "\<rho> (Suc i) = \<rho> i \<or> next_step (\<rho> i) (\<rho> (Suc i))" using assms(1) by (simp add: fair_run_def)
  with step.IH good_step[of "\<rho> i"] show ?case by auto
qed (rule assms(2))

lemma rank_along:
  assumes "fair_run next_step moves \<rho>" and "good (\<rho> k)" and "\<And>i. k \<le> i \<Longrightarrow> todo (\<rho> i)" and "k \<le> j"
  shows "rank (\<rho> j) \<le> rank (\<rho> k)"
  using assms(4)
proof (induction j rule: dec_induct)
  case (step i)
  have "\<rho> (Suc i) = \<rho> i \<or> next_step (\<rho> i) (\<rho> (Suc i))" using assms(1) by (simp add: fair_run_def)
  then have "rank (\<rho> (Suc i)) \<le> rank (\<rho> i)"
    using rank_step good_along[OF assms(1,2) step.hyps(1)] assms(3)[OF step.hyps(1)] by auto
  with step.IH show ?case by simp
qed simp

lemma leads_out: "fair_run next_step moves \<rho> \<Longrightarrow> good (\<rho> k) \<Longrightarrow> \<exists>j\<ge>k. \<not> todo (\<rho> j)"
proof (induction "rank (\<rho> k)" arbitrary: k rule: less_induct)
  case less
  show ?case
  proof (rule ccontr)
    assume "\<not> ?case"
    then have todo: "\<And>i. k \<le> i \<Longrightarrow> todo (\<rho> i)" by auto
    from less.prems(1) obtain j where j: "k \<le> j" "moves (\<rho> j) (\<rho> (Suc j)) \<or> \<not> (\<exists>\<tau>. moves (\<rho> j) \<tau>)"
      unfolding fair_run_def by blast
    have good: "good (\<rho> j)" "good (\<rho> (Suc j))" using good_along[OF less.prems] j(1) by simp_all
    have "moves (\<rho> j) (\<rho> (Suc j))" using j can_move[OF good(1) todo[OF j(1)]] by blast
    then have "rank (\<rho> (Suc j)) < rank (\<rho> j)" by (rule rank_moves[OF good(1) todo[OF j(1)]])
    with rank_along[OF less.prems todo j(1)] have "rank (\<rho> (Suc j)) < rank (\<rho> k)" by simp
    from less.hyps[OF this less.prems(1) good(2)] obtain i where "Suc j \<le> i" "\<not> todo (\<rho> i)" by blast
    with todo[of i] j(1) show False by simp
  qed
qed

end

subsection \<open>The steps of the stream thread\<close>

text \<open>A step is one of the thread exactly if it changes the thread's program counter.\<close>

definition thread_step :: "bool \<Rightarrow> (u32 \<Rightarrow> u32) \<Rightarrow> stream_sys \<Rightarrow> stream_sys \<Rightarrow> bool" where
  "thread_step phys p2v \<sigma> \<tau> \<longleftrightarrow> stream_step phys p2v \<sigma> \<tau> \<and> pc \<tau> \<noteq> pc \<sigma>"

abbreviation stopping :: "stream_sys \<Rightarrow> bool" where
  "stopping \<sigma> \<equiv> stop_stream_thread_flag (lib \<sigma>)"

text \<open>The steps left until \<open>n\<close> commands are delivered and the thread has ended.\<close>

definition steps_left :: "nat \<Rightarrow> stream_sys \<Rightarrow> nat" where
  "steps_left n \<sigma> = 3 * (n - length (delivered \<sigma>)) +
     (case pc \<sigma> of Looping \<Rightarrow> 2 | Holding _ \<Rightarrow> 1 | Handing _ \<Rightarrow> 0 | Draining \<Rightarrow> 1 | Finished \<Rightarrow> 0)"

lemma flag_kept:
  "set_release_count c k s = Some (r, t) \<Longrightarrow> stop_stream_thread_flag t = stop_stream_thread_flag s"
  "check_release_counter c s = Some (r, l, t) \<Longrightarrow> stop_stream_thread_flag t = stop_stream_thread_flag s"
  by (auto simp: set_release_count_def check_release_counter_def Option.bind_eq_Some_conv split: option.splits if_splits)

lemma step_flag:
  "stream_step phys p2v \<sigma> \<tau> \<Longrightarrow> stream_inv phys p2v \<sigma> A \<Longrightarrow> stopping \<sigma> \<Longrightarrow>
    stopping \<tau> \<and> accepted \<tau> = accepted \<sigma>"
proof (induction rule: stream_step.induct)
  case (dequeue \<sigma> q s)
  then have A: "lib_rep (lib \<sigma>) A" by (simp add: stream_inv_def)
  with dequeue_sim[OF A] dequeue lib_rep_control(1)[OF A] have "stopping (\<sigma>\<lparr>lib := s\<rparr>)"
    by (auto simp: a_take_recv_def dest: lib_rep_control(1))
  then show ?case by simp
next
  case (leave \<sigma> s)
  then have A: "lib_rep (lib \<sigma>) A" by (simp add: stream_inv_def)
  with dequeue_sim[OF A] leave lib_rep_control(1)[OF A] have "stopping (\<sigma>\<lparr>lib := s\<rparr>)"
    by (auto simp: a_take_recv_def dest: lib_rep_control(1))
  then show ?case by simp
next
  case (store \<sigma> q s)
  then have A: "lib_rep (lib \<sigma>) A" "q \<in> a_owned A" by (auto simp: stream_inv_def)
  with store_sim[OF A] store lib_rep_control(1)[OF A(1)] have "stopping (\<sigma>\<lparr>lib := s\<rparr>)"
    by (auto simp: a_push_rel_def a_set_counter_def dest: lib_rep_control(1))
  then show ?case by simp
next
  case (release_remove a \<sigma> s)
  then have A: "lib_rep (lib \<sigma>) A" "a \<in> set (a_rel A)" by (auto simp: stream_inv_def)
  with remove_sim[OF A] release_remove lib_rep_control(1)[OF A(1)] have "stopping (\<sigma>\<lparr>lib := s\<rparr>)"
    by (auto simp: a_recycle_def dest: lib_rep_control(1))
  then show ?case by simp
next
  case (drained \<sigma> s)
  then have A: "lib_rep (lib \<sigma>) A" by (simp add: stream_inv_def)
  with lib_rep_heads(3)[OF A] drained have "a_rel A = []" by (metis head_of_eq_None)
  from force_remove_empty[OF A this] drained show ?case by simp
qed (auto simp: enqueue_recv_command_def flag_kept split: if_splits)

lemma step_grows: "stream_step phys p2v \<sigma> \<tau> \<Longrightarrow> \<exists>ms. accepted \<tau> = accepted \<sigma> @ ms"
  by (induction rule: stream_step.induct) auto

lemma step_pc:
  "stream_step phys p2v \<sigma> \<tau> \<Longrightarrow>
    pc \<tau> = pc \<sigma> \<and> delivered \<tau> = delivered \<sigma> \<or>
    (case pc \<sigma> of Looping \<Rightarrow> (\<exists>q. pc \<tau> = Holding q) \<or> pc \<tau> = Draining | Holding q \<Rightarrow> pc \<tau> = Handing q
       | Draining \<Rightarrow> pc \<tau> = Finished | _ \<Rightarrow> False) \<and> delivered \<tau> = delivered \<sigma> \<or>
    (\<exists>q m. pc \<sigma> = Handing q \<and> pc \<tau> = Looping \<and> delivered \<tau> = delivered \<sigma> @ [m])"
  by (induction rule: stream_step.induct) auto

text \<open>A thread that has left its loop has delivered everything, and nothing more will come.\<close>

lemma left_loop:
  "stream_reachable phys p2v \<sigma> \<Longrightarrow> pc \<sigma> \<in> {Draining, Finished} \<Longrightarrow>
    stopping \<sigma> \<and> accepted \<sigma> = delivered \<sigma>"
proof (induction rule: stream_reachable.induct)
  case (init \<sigma>)
  then show ?case by (auto elim: stream_init.cases)
next
  case (step \<sigma> \<tau>)
  from step.hyps(1) obtain A where A: "stream_inv phys p2v \<sigma> A" "lib_rep (lib \<sigma>) A" by (rule reachable_rep)
  show ?case
  proof (cases "pc \<sigma> = Looping")
    case True
    with step.hyps(2) step.prems obtain s where
      s: "dequeue_recv_command (lib \<sigma>) = Some (Stopped, s)" "\<tau> = \<sigma>\<lparr>lib := s, pc := Draining\<rparr>"
      by (auto elim: stream_step.cases split: if_splits)
    with dequeue_sim[OF A(2)] have e: "a_recv A = []" "a_stop A" by (auto split: list.splits if_splits)
    with A True have "accepted \<sigma> = delivered \<sigma>" "stopping \<sigma>"
      by (simp_all add: stream_inv_def queued_def lib_rep_control(1)[OF A(2)])
    with step_flag[OF step.hyps(2) A(1)] s(2) show ?thesis by simp
  next
    case False
    with step_pc[OF step.hyps(2)] step.prems have "pc \<sigma> \<in> {Draining, Finished}" "delivered \<tau> = delivered \<sigma>"
      by (auto split: thread_pc.splits)
    with step.IH step_flag[OF step.hyps(2) A(1)] show ?thesis by simp
  qed
qed

lemma hand_over_enabled:
  assumes "lib_rep (lib \<sigma>) A" and "clean A" and "q \<in> parts A" and "pc \<sigma> = Handing q"
  shows "\<exists>\<tau>. thread_step phys p2v \<sigma> \<tau>"
proof -
  from lib_rep_alive[OF assms(1,3)] obtain n where n: "nodes (lib \<sigma>) q = Some n" by blast
  with lib_rep_data[OF assms(1) n] assms(2) have "length (sq_command n) = STREAM_COMMAND_MAX"
    unfolding clean_def payload_def by blast
  with recv_stream_some[of "sq_command n" phys p2v] obtain es c where
    "recv_stream phys p2v (sq_command n) = Some (es, c)" by (auto simp: STREAM_COMMAND_MAX_def)
  from stream_step.hand_over[OF assms(4) n this] n assms(4) show ?thesis
    unfolding thread_step_def by fastforce
qed

lemma thread_can_move:
  assumes r: "stream_reachable phys p2v \<sigma>"
    and todo: "length (delivered \<sigma>) < length (accepted \<sigma>) \<or> stopping \<sigma> \<and> pc \<sigma> \<noteq> Finished"
  shows "\<exists>\<tau>. thread_step phys p2v \<sigma> \<tau>"
proof -
  from r obtain A where A: "stream_inv phys p2v \<sigma> A" "lib_rep (lib \<sigma>) A" "clean A" and "separated A"
    and rel: "set (a_rel A) = kept \<sigma> \<union> releasing \<sigma>" and own: "a_owned A = held_by (pc \<sigma>)" by (rule reachable_rep)
  show ?thesis
  proof (cases "pc \<sigma>")
    case Looping
    have "a_recv A \<noteq> [] \<or> a_stop A"
      using todo A(1) Looping lib_rep_control(1)[OF A(2)] by (auto simp: stream_inv_def queued_def)
    with dequeue_sim[OF A(2)] obtain d s where
      "dequeue_recv_command (lib \<sigma>) = Some (d, s)" "d = Stopped \<or> (\<exists>q. d = Dequeued q)"
      by (auto split: list.splits)
    with stream_step.dequeue[OF Looping, of _ s phys p2v] stream_step.leave[OF Looping, of s phys p2v] Looping
    show ?thesis unfolding thread_step_def by fastforce
  next
    case (Holding q)
    with own have "q \<in> a_owned A" by simp
    from store_sim[OF A(2) this] obtain s where "store_release_command q (lib \<sigma>) = Some s" by blast
    from stream_step.store[OF Holding this] Holding show ?thesis unfolding thread_step_def by fastforce
  next
    case (Handing q)
    with rel have "q \<in> parts A" by (simp add: kept_def parts_def)
    from hand_over_enabled[OF A(2,3) this Handing] show ?thesis .
  next
    case Draining
    from stream_step.timed_out[OF Draining] Draining show ?thesis unfolding thread_step_def by fastforce
  next
    case Finished
    with left_loop[OF r] todo show ?thesis by simp
  qed
qed

lemma thread_step_rank:
  assumes "thread_step phys p2v \<sigma> \<tau>" and "\<And>q. pc \<sigma> = Handing q \<Longrightarrow> length (delivered \<sigma>) < n"
  shows "steps_left n \<tau> < steps_left n \<sigma>"
  using assms step_pc[of phys p2v \<sigma> \<tau>]
  by (auto simp: thread_step_def steps_left_def split: thread_pc.splits)

lemma step_rank:
  assumes "stream_step phys p2v \<sigma> \<tau>" and "\<And>q. pc \<sigma> = Handing q \<Longrightarrow> length (delivered \<sigma>) < n"
  shows "steps_left n \<tau> \<le> steps_left n \<sigma>"
proof (cases "pc \<tau> = pc \<sigma>")
  case True
  with step_pc[OF assms(1)] show ?thesis by (auto simp: steps_left_def split: thread_pc.splits)
next
  case False
  with assms thread_step_rank[of phys p2v \<sigma> \<tau> n] show ?thesis by (simp add: thread_step_def)
qed

lemma handing_pending:
  "stream_reachable phys p2v \<sigma> \<Longrightarrow> pc \<sigma> = Handing q \<Longrightarrow> length (delivered \<sigma>) < length (accepted \<sigma>)"
  by (erule reachable_rep) (simp add: stream_inv_def)

text \<open>The two instances: delivering \<open>n\<close> accepted commands, and ending a thread that was told to stop
  when \<open>n\<close> commands were accepted in all.\<close>

interpretation delivering: progress "stream_step phys p2v" "thread_step phys p2v"
  "\<lambda>\<sigma>. stream_reachable phys p2v \<sigma> \<and> n \<le> length (accepted \<sigma>)" "\<lambda>\<sigma>. length (delivered \<sigma>) < n" "steps_left n"
  for phys p2v n
proof (unfold_locales, goal_cases)
  case (1 \<sigma> \<tau>)
  with step_grows[of phys p2v \<sigma> \<tau>] show ?case by (auto intro: stream_reachable.step)
qed (auto intro: step_rank thread_step_rank thread_can_move)

interpretation ending: progress "stream_step phys p2v" "thread_step phys p2v"
  "\<lambda>\<sigma>. stream_reachable phys p2v \<sigma> \<and> stopping \<sigma> \<and> length (accepted \<sigma>) = n" "\<lambda>\<sigma>. pc \<sigma> \<noteq> Finished" "steps_left n"
  for phys p2v n
proof (unfold_locales, goal_cases)
  case (1 \<sigma> \<tau>)
  from 1(1) obtain A where "stream_inv phys p2v \<sigma> A" by (auto elim: reachable_rep)
  with 1 step_flag[of phys p2v \<sigma> \<tau>] show ?case by (auto intro: stream_reachable.step)
qed (auto intro: step_rank thread_step_rank thread_can_move dest: handing_pending)

subsection \<open>Every accepted command is delivered\<close>

lemma accepted_grows:
  assumes "fair_run (stream_step phys p2v) moves \<rho>" and "k \<le> j"
  shows "\<exists>ms. accepted (\<rho> j) = accepted (\<rho> k) @ ms"
  using assms(2)
proof (induction j rule: dec_induct)
  case (step i)
  have "\<rho> (Suc i) = \<rho> i \<or> stream_step phys p2v (\<rho> i) (\<rho> (Suc i))" using assms(1) by (simp add: fair_run_def)
  with step.IH step_grows[of phys p2v "\<rho> i"] show ?case by (metis append_assoc)
qed simp

lemma run_reachable:
  assumes "fair_run (stream_step phys p2v) moves \<rho>" and "stream_reachable phys p2v (\<rho> 0)"
  shows "stream_reachable phys p2v (\<rho> k)"
proof (induction k)
  case (Suc k)
  have "\<rho> (Suc k) = \<rho> k \<or> stream_step phys p2v (\<rho> k) (\<rho> (Suc k))" using assms(1) by (simp add: fair_run_def)
  with Suc.IH show ?case by (auto intro: stream_reachable.step)
qed (rule assms(2))

lemma prefix_of_longer:
  assumes "xs @ us = ys @ vs" and "length xs \<le> length ys"
  shows "ys = xs @ drop (length xs) ys"
proof -
  have "take (length xs) (ys @ vs) = take (length xs) ys" using assms(2) by simp
  with assms(1) have "take (length xs) ys = xs" by (metis append_eq_conv_conj)
  then show ?thesis by (metis append_take_drop_id)
qed

lemma reachable_order:
  assumes "stream_reachable phys p2v \<sigma>"
  shows "\<exists>ms. accepted \<sigma> = delivered \<sigma> @ ms" and "calls \<sigma> = concat (map (recv_calls phys p2v) (delivered \<sigma>))"
  using stream_reachable_inv[OF assms] by (auto simp: stream_inv_def)

text \<open>C7: In every run in which the stream thread is scheduled fairly, each accepted command is
  eventually delivered, in order and with the callbacks of its kind, even if the thread is
  told to stop in between; and once it is told to stop it eventually ends with nothing left undelivered,
  so that \<open>stop_stream_thread\<close> returns.\<close>

theorem commands_eventually_delivered:
  assumes "fair_run (stream_step phys p2v) (thread_step phys p2v) \<rho>" and "stream_reachable phys p2v (\<rho> 0)"
  shows "(\<exists>j\<ge>k. \<exists>ms. delivered (\<rho> j) = accepted (\<rho> k) @ ms \<and>
      calls (\<rho> j) = concat (map (recv_calls phys p2v) (accepted (\<rho> k) @ ms))) \<and>
    (stop_stream_thread_flag (lib (\<rho> k)) \<longrightarrow>
      (\<exists>j\<ge>k. pc (\<rho> j) = Finished \<and> delivered (\<rho> j) = accepted (\<rho> k) \<and> accepted (\<rho> j) = accepted (\<rho> k)))"
proof (intro conjI impI)
  note reach = run_reachable[OF assms]
  from delivering.leads_out[OF assms(1), of k "length (accepted (\<rho> k))"] reach obtain j where
    j: "k \<le> j" "length (accepted (\<rho> k)) \<le> length (delivered (\<rho> j))" by (auto simp: not_less)
  from accepted_grows[OF assms(1) j(1)] reachable_order(1)[OF reach[of j]]
  obtain ms where "delivered (\<rho> j) = accepted (\<rho> k) @ ms" by (metis prefix_of_longer[OF _ j(2)])
  with j(1) reachable_order(2)[OF reach[of j]] show "\<exists>j\<ge>k. \<exists>ms. delivered (\<rho> j) = accepted (\<rho> k) @ ms \<and>
      calls (\<rho> j) = concat (map (recv_calls phys p2v) (accepted (\<rho> k) @ ms))" by auto
next
  note reach = run_reachable[OF assms]
  let ?good = "\<lambda>\<sigma>. stream_reachable phys p2v \<sigma> \<and> stopping \<sigma> \<and> length (accepted \<sigma>) = length (accepted (\<rho> k))"
  assume "stopping (\<rho> k)"
  then have good: "?good (\<rho> k)" using reach by simp
  from ending.leads_out[OF assms(1) good] obtain j where j: "k \<le> j" "pc (\<rho> j) = Finished" by auto
  have "length (accepted (\<rho> j)) = length (accepted (\<rho> k))"
    using ending.good_along[OF assms(1) good j(1)] by simp
  with accepted_grows[OF assms(1) j(1)] have "accepted (\<rho> j) = accepted (\<rho> k)" by auto
  with left_loop[OF reach[of j]] j show "\<exists>j\<ge>k. pc (\<rho> j) = Finished \<and> delivered (\<rho> j) = accepted (\<rho> k) \<and>
      accepted (\<rho> j) = accepted (\<rho> k)" by auto
qed

text \<open>The run in which the thread moves whenever it can is fair.\<close>

lemma eager_run:
  assumes "\<And>\<sigma> \<tau>. moves \<sigma> \<tau> \<Longrightarrow> next_step \<sigma> \<tau>"
  shows "\<exists>\<rho>. \<rho> 0 = \<sigma> \<and> fair_run next_step moves \<rho>"
proof -
  let ?f = "\<lambda>\<sigma>. if \<exists>\<tau>. moves \<sigma> \<tau> then SOME \<tau>. moves \<sigma> \<tau> else \<sigma>"
  have "moves \<sigma> (?f \<sigma>) \<or> \<not> (\<exists>\<tau>. moves \<sigma> \<tau>) \<and> ?f \<sigma> = \<sigma>" for \<sigma> by (auto intro: someI)
  then have "fair_run next_step moves (\<lambda>i. (?f ^^ i) \<sigma>)"
    using assms unfolding fair_run_def funpow.simps(2) comp_apply by blast
  then show ?thesis by (intro exI[of _ "\<lambda>i. (?f ^^ i) \<sigma>"]) simp
qed

lemma demo_enqueued:
  assumes "length cmd = unat len" and "unat len \<le> 256"
  shows "\<exists>\<sigma>. stream_reachable phys p2v \<sigma> \<and> accepted \<sigma> = [command_buffer cmd len]"
proof -
  from demo_inv obtain A where A: "stream_inv phys p2v demo_sys A" "a_pool A \<noteq> []" "\<not> a_stop A" by blast
  then have rep: "lib_rep (lib demo_sys) A" "clean A" by (auto simp: stream_inv_def)
  from enqueue_sim[OF rep, of len cmd] A assms obtain s where
    "enqueue_recv_command cmd len (lib demo_sys) = Some (0, s)"
    by (auto simp: a_enqueue_def STREAM_COMMAND_MAX_def split: list.splits)
  from stream_step.enqueue[OF _ this, of phys p2v] assms(1) demo_reachable[of phys p2v] show ?thesis
    by (intro exI[of _ "demo_sys\<lparr>lib := s, accepted := [command_buffer cmd len]\<rparr>"])
      (auto simp: demo_sys_def intro: stream_reachable.step)
qed

theorem commands_eventually_delivered_witness:
  "\<exists>\<rho> j. fair_run (stream_step True id) (thread_step True id) \<rho> \<and>
    accepted (\<rho> 0) = [command_buffer video_command 44] \<and> stop_stream_thread_flag (lib (\<rho> 0)) \<and>
    pc (\<rho> j) = Finished \<and> delivered (\<rho> j) = [command_buffer video_command 44]"
proof -
  have "length video_command = unat (44 :: u32)" "unat (44 :: u32) \<le> 256"
    by (simp_all add: video_command_def)
  from demo_enqueued[OF this, of True id] obtain \<sigma> where
    s: "stream_reachable True id \<sigma>" "accepted \<sigma> = [command_buffer video_command 44]" by blast
  let ?\<sigma> = "\<sigma>\<lparr>lib := (lib \<sigma>)\<lparr>stop_stream_thread_flag := True\<rparr>\<rparr>"
  have t: "stream_reachable True id ?\<sigma>" using s(1) stream_step.stop by (rule stream_reachable.step)
  from eager_run[of "thread_step True id" "stream_step True id" ?\<sigma>] obtain \<rho> where
    r: "\<rho> 0 = ?\<sigma>" "fair_run (stream_step True id) (thread_step True id) \<rho>"
    by (auto simp: thread_step_def)
  with t have "stream_reachable True id (\<rho> 0)" by simp
  from commands_eventually_delivered[OF r(2) this, of 0] r s(2) show ?thesis by auto
qed

end
