(* ===== verification/StreamLayout.thy ===== *)
theory StreamLayout
  imports StreamApi StreamReceiver
begin

text \<open>
  The memory layout of the messages (\<open>src/include/cif_stream.h\<close>, \<open>src/include/dcf_if.h\<close>) and of
  the nodes of the stream library (\<open>struct stream_queue\<close>, \<open>src/src/sample_library.c\<close>) under the ABI of
  32-bit ARM: \<open>long\<close>, \<open>enum\<close> and pointers have four bytes, \<open>long long\<close> and \<open>double\<close> eight, and
  each is aligned to its size. The offsets that the other theories use are offsets of this
  layout; and the whole message is larger than the buffer of a node.
\<close>

subsection \<open>C types, their sizes and the offsets of their members\<close>

datatype ctype = Scalar nat | Array nat ctype | Struct "(string \<times> ctype) list" | Union "(string \<times> ctype) list"

definition round_up :: "nat \<Rightarrow> nat \<Rightarrow> nat" where
  "round_up n a = (n + a - 1) div a * a"

fun align_of :: "ctype \<Rightarrow> nat" and align_all :: "(string \<times> ctype) list \<Rightarrow> nat" where
  "align_of (Scalar n) = n"
| "align_of (Array _ t) = align_of t"
| "align_of (Struct fs) = align_all fs"
| "align_of (Union fs) = align_all fs"
| "align_all [] = 1"
| "align_all ((_, t) # fs) = max (align_of t) (align_all fs)"

fun size_of :: "ctype \<Rightarrow> nat" and struct_end :: "nat \<Rightarrow> (string \<times> ctype) list \<Rightarrow> nat"
  and union_end :: "(string \<times> ctype) list \<Rightarrow> nat" where
  "size_of (Scalar n) = n"
| "size_of (Array n t) = n * size_of t"
| "size_of (Struct fs) = round_up (struct_end 0 fs) (align_all fs)"
| "size_of (Union fs) = round_up (union_end fs) (align_all fs)"
| "struct_end n [] = n"
| "struct_end n ((_, t) # fs) = struct_end (round_up n (align_of t) + size_of t) fs"
| "union_end [] = 0"
| "union_end ((_, t) # fs) = max (size_of t) (union_end fs)"

text \<open>The offset and type of a member, and of a member reached by a path of names.\<close>

fun member_at :: "nat \<Rightarrow> string \<Rightarrow> (string \<times> ctype) list \<Rightarrow> (nat \<times> ctype) option" where
  "member_at n x [] = None"
| "member_at n x ((y, t) # fs) =
    (if x = y then Some (round_up n (align_of t), t) else member_at (round_up n (align_of t) + size_of t) x fs)"

fun member_of :: "ctype \<Rightarrow> string \<Rightarrow> (nat \<times> ctype) option" where
  "member_of (Struct fs) x = member_at 0 x fs"
| "member_of (Union fs) x = map_option (\<lambda>t. (0, t)) (map_of fs x)"
| "member_of _ _ = None"

fun offset_of :: "ctype \<Rightarrow> string list \<Rightarrow> (nat \<times> ctype) option" where
  "offset_of t [] = Some (0, t)"
| "offset_of t (x # xs) = do {
     (o1, u) \<leftarrow> member_of t x;
     (o2, v) \<leftarrow> offset_of u xs;
     Some (o1 + o2, v)
   }"

text \<open>Alignments are powers of two, so that the largest is a multiple of each.\<close>

fun well_aligned :: "ctype \<Rightarrow> bool" where
  "well_aligned (Scalar n) = (n \<in> {1, 2, 4, 8})"
| "well_aligned (Array _ t) = well_aligned t"
| "well_aligned (Struct fs) = (\<forall>p\<in>set fs. well_aligned (snd p))"
| "well_aligned (Union fs) = (\<forall>p\<in>set fs. well_aligned (snd p))"

subsection \<open>Members lie inside, aligned\<close>

lemma round_up_dvd [simp]: "a dvd round_up n a"
  by (simp add: round_up_def)

lemma round_up_ge: "0 < a \<Longrightarrow> n \<le> round_up n a"
proof -
  assume a: "0 < a"
  have "n + a - 1 < (n + a - 1) div a * a + a"
    using a div_mult_mod_eq[of "n + a - 1" a] mod_less_divisor[of a "n + a - 1"] by linarith
  with a show ?thesis unfolding round_up_def by linarith
qed

definition alignments :: "nat set" where "alignments = {1, 2, 4, 8}"

lemma alignments_pos: "a \<in> alignments \<Longrightarrow> 0 < a"
  by (auto simp: alignments_def)

lemma max_alignment:
  "a \<in> alignments \<Longrightarrow> b \<in> alignments \<Longrightarrow> max a b \<in> alignments \<and> a dvd max a b \<and> b dvd max a b"
  by (auto simp: alignments_def max_def)

lemma align_alignments:
  "well_aligned t \<Longrightarrow> align_of t \<in> alignments"
  "(\<forall>p\<in>set fs. well_aligned (snd p)) \<Longrightarrow> align_all fs \<in> alignments \<and> (\<forall>p\<in>set fs. align_of (snd p) dvd align_all fs)"
proof (induction t and fs rule: align_of_align_all.induct)
  case (6 x t fs)
  with max_alignment[of "align_of t" "align_all fs"] show ?case by (auto intro: dvd_trans)
qed (auto simp: alignments_def)

lemma struct_end_ge: "(\<forall>p\<in>set fs. well_aligned (snd p)) \<Longrightarrow> n \<le> struct_end n fs"
proof (induction fs arbitrary: n)
  case (Cons p fs)
  obtain x t where p: "p = (x, t)" by force
  with Cons.prems have "0 < align_of t" by (auto intro: alignments_pos align_alignments)
  then have "n \<le> round_up n (align_of t) + size_of t" using round_up_ge by (meson trans_le_add1)
  also have "\<dots> \<le> struct_end (round_up n (align_of t) + size_of t) fs" using Cons by simp
  finally show ?case using p by simp
qed simp

lemma member_at_inside:
  "member_at n x fs = Some (k, u) \<Longrightarrow> (\<forall>p\<in>set fs. well_aligned (snd p)) \<Longrightarrow>
    well_aligned u \<and> align_of u dvd k \<and> k + size_of u \<le> struct_end n fs \<and> align_of u dvd align_all fs"
proof (induction n x fs rule: member_at.induct)
  case (2 n x y t fs)
  show ?case
  proof (cases "x = y")
    case True
    with 2 struct_end_ge[of fs "round_up n (align_of t) + size_of t"] align_alignments(2)[of "(y, t) # fs"]
    show ?thesis by auto
  next
    case False
    with 2 have "align_of u dvd align_all fs" by simp
    moreover have "align_all fs dvd align_all ((y, t) # fs)"
      using 2(3) align_alignments(1)[of t] align_alignments(2)[of fs] max_alignment by auto
    ultimately show ?thesis using 2 False by (auto intro: dvd_trans)
  qed
qed simp

lemma union_member_inside:
  "map_of fs x = Some u \<Longrightarrow> (\<forall>p\<in>set fs. well_aligned (snd p)) \<Longrightarrow>
    well_aligned u \<and> size_of u \<le> union_end fs \<and> align_of u dvd align_all fs"
proof (induction fs)
  case (Cons p fs)
  have "align_of u dvd align_all (p # fs)"
    using align_alignments(2)[of "p # fs"] map_of_SomeD[OF Cons.prems(1)] Cons.prems(2) by fastforce
  with Cons show ?case by (cases p) (auto split: if_splits simp: le_max_iff_disj)
qed simp

lemma member_inside:
  assumes "member_of t x = Some (k, u)" and "well_aligned t"
  shows "well_aligned u \<and> align_of u dvd k \<and> align_of u dvd align_of t \<and> k + size_of u \<le> size_of t"
proof (cases t)
  case (Struct fs)
  with assms member_at_inside[of 0 x fs k u] align_alignments(2)[of fs] round_up_ge[of "align_all fs" "struct_end 0 fs"]
  show ?thesis by (auto dest: alignments_pos)
next
  case (Union fs)
  with assms union_member_inside[of fs x u] align_alignments(2)[of fs] round_up_ge[of "align_all fs" "union_end fs"]
  show ?thesis by (auto dest: alignments_pos)
qed (use assms in auto)

lemma offset_inside:
  "offset_of t xs = Some (k, u) \<Longrightarrow> well_aligned t \<Longrightarrow>
    well_aligned u \<and> align_of u dvd k \<and> align_of u dvd align_of t \<and> k + size_of u \<le> size_of t"
proof (induction t xs arbitrary: k rule: offset_of.induct)
  case (2 t x xs)
  then obtain i v j where m: "member_of t x = Some (i, v)" "offset_of v xs = Some (j, u)" "k = i + j"
    by (auto simp: Option.bind_eq_Some_conv)
  note v = member_inside[OF m(1) 2(3)]
  with 2(1)[OF m(1) refl m(2)] m(3) show ?case by (auto intro: dvd_trans)
qed auto

subsection \<open>The structures of the program\<close>

named_theorems layouts

abbreviation "uchar \<equiv> Scalar 1"
abbreviation "ushort \<equiv> Scalar 2"
abbreviation "ulong \<equiv> Scalar 4"
abbreviation "pointer \<equiv> Scalar 4"
abbreviation "ulonglong \<equiv> Scalar 8"
abbreviation "double \<equiv> Scalar 8"
abbreviation "enumeration \<equiv> Scalar 4"

definition fraction_t :: ctype where [layouts]:
  "fraction_t = Struct [(''nume'', ulong), (''denomi'', ulong)]"

definition date_t :: ctype where [layouts]:
  "date_t = Struct [(''ad_year'', ushort), (''month'', uchar), (''day'', uchar), (''hour'', uchar),
     (''min'', uchar), (''sec'', uchar)]"

definition gps_t :: ctype where [layouts]:
  "gps_t = Struct [(''latitude_ref'', uchar), (''latitude'', Array 3 fraction_t),
     (''longitude_ref'', uchar), (''longitude'', Array 3 fraction_t),
     (''img_direction_ref'', uchar), (''img_direction'', fraction_t)]"

definition exif_info_t :: ctype where [layouts]:
  "exif_info_t = Struct [(''width'', ushort), (''lines'', ushort), (''ev'', double), (''date'', date_t),
     (''exposure_time'', fraction_t), (''f_value'', fraction_t), (''exposure_prog'', enumeration),
     (''shutter_speed'', fraction_t), (''aperture'', fraction_t), (''max_aperture'', fraction_t),
     (''metering'', uchar), (''light_source'', uchar), (''flash'', ushort), (''dzoom_ratio'', fraction_t),
     (''iso_value'', ushort), (''focal_length'', fraction_t), (''sharpness'', ushort),
     (''maker_note_length'', ushort), (''qvga_enable'', ushort), (''gps'', gps_t)]"

definition sensor_timestamp_t :: ctype where [layouts]:
  "sensor_timestamp_t = Struct [(''sof'', ulonglong), (''eof'', ulonglong)]"

definition CIF_STREAM_SEND_NAL_UNIT_SIZE_MAX :: nat where [layouts]:
  "CIF_STREAM_SEND_NAL_UNIT_SIZE_MAX = 32"

definition video_t :: ctype where [layouts]:
  "video_t = Struct [(''sample_pts'', Array 2 ulong), (''sample_type'', ulong), (''frame_of_GOP'', ulong),
     (''nal_unit_num'', ulong), (''nal_unit_size'', Array CIF_STREAM_SEND_NAL_UNIT_SIZE_MAX ulong),
     (''bitrate'', ulong), (''ave_bitrate'', ulong), (''width'', ulong), (''lines'', ulong),
     (''sensor_timestamp'', sensor_timestamp_t)]"

definition audio_t :: ctype where [layouts]:
  "audio_t = Struct [(''time_stamp'', Array 2 ulong), (''channel'', ulong), (''sampling_freq'', ulong),
     (''bit_rate'', ulong), (''frame_no'', ulonglong)]"

definition raw_t :: ctype where [layouts]:
  "raw_t = Struct [(''reserved_ch0'', ulong), (''sample_pts'', Array 2 ulong), (''global_width'', ulong),
     (''width'', ulong), (''lines'', ulong), (''reserved_ch1'', ulong), (''frame_no'', ulonglong),
     (''sensor_timestamp'', sensor_timestamp_t)]"

definition yuv_t :: ctype where [layouts]:
  "yuv_t = Struct [(''reserved'', ulong), (''sample_pts'', Array 2 ulong), (''width'', ulong),
     (''lines'', ulong), (''frame_no'', Array 2 ulong), (''sensor_timestamp'', sensor_timestamp_t)]"

definition jpeg_t :: ctype where [layouts]:
  "jpeg_t = Struct [(''sample_pts'', Array 2 ulong), (''width'', ulong), (''lines'', ulong),
     (''ytbl_ofs'', ulong), (''ytbl_siz'', ulong), (''ctbl_ofs'', ulong), (''ctbl_siz'', ulong),
     (''frame_no'', Array 2 ulong), (''sensor_timestamp'', sensor_timestamp_t), (''exif'', exif_info_t)]"

definition cif_stream_send_t :: ctype where [layouts]:
  "cif_stream_send_t = Struct [(''MagicCode'', ulong), (''Format_Version'', ulong), (''Command'', ulong),
     (''Sub_Command'', ulong), (''stype'', ulong), (''sformat'', ulong), (''stream_id'', ulong),
     (''stream_end_flg'', ulong), (''area_index'', ulong), (''sample_size'', ulong), (''sample_address'', ulong),
     (''media'', Union [(''v'', video_t), (''a'', audio_t), (''r'', raw_t), (''y'', yuv_t), (''j'', jpeg_t)])]"

definition cif_stream_meta_send_t :: ctype where [layouts]:
  "cif_stream_meta_send_t = Struct [(''MagicCode'', ulong), (''Format_Version'', ulong), (''Command'', ulong),
     (''Sub_Command'', ulong), (''stype'', ulong), (''sformat'', ulong), (''stream_id'', ulong),
     (''stream_end_flg'', ulong), (''area_index'', ulong), (''sample_size'', ulong), (''sample_address'', ulong),
     (''sample_pts'', Array 2 ulong), (''frame_no'', Array 2 ulong)]"

definition cif_release_t :: ctype where [layouts]:
  "cif_release_t = Union [
     (''stream_release'', Struct [(''MagicCode'', ulong), (''Format_Version'', ulong), (''Command'', ulong),
       (''Sub_Command'', ulong), (''stype'', ulong), (''sformat'', ulong), (''stream_id'', ulong),
       (''stream_end_flg'', ulong), (''area_index'', ulong)]),
     (''meta_release'', Struct [(''MagicCode'', ulong), (''Format_Version'', ulong), (''Command'', ulong),
       (''Sub_Command'', ulong), (''stype'', ulong), (''stream_id'', ulong), (''sample_address'', ulong)])]"

definition stream_queue_t :: ctype where [layouts]:
  "stream_queue_t = Struct [(''command'', Array STREAM_COMMAND_MAX uchar), (''length'', ulong),
     (''release_counter'', ulong), (''next'', pointer), (''prev'', pointer)]"

fun field_name :: "send_field \<Rightarrow> string" where
  "field_name MagicCode = ''MagicCode''"
| "field_name Format_Version = ''Format_Version''"
| "field_name Command = ''Command''"
| "field_name Sub_Command = ''Sub_Command''"
| "field_name stype = ''stype''"
| "field_name sformat = ''sformat''"
| "field_name stream_id = ''stream_id''"
| "field_name stream_end_flg = ''stream_end_flg''"
| "field_name area_index = ''area_index''"
| "field_name sample_size = ''sample_size''"
| "field_name sample_address = ''sample_address''"

lemmas layout_simps = layouts round_up_def STREAM_COMMAND_MAX_def

lemma well_aligned_messages [simp]: "well_aligned cif_stream_send_t" "well_aligned cif_stream_meta_send_t"
    "well_aligned stream_queue_t"
  by (simp_all add: layout_simps)

lemma message_sizes [simp]:
  "size_of cif_stream_send_t = 272" "size_of cif_stream_meta_send_t = 60" "size_of stream_queue_t = 272"
  "size_of cif_release_t = 36"
  by code_simp+

text \<open>Where the members are that the library and the receiver read, and the last ones of the EXIF data.\<close>

definition send_fields :: "send_field list" where
  "send_fields = [MagicCode, Format_Version, Command, Sub_Command, stype, sformat, stream_id,
     stream_end_flg, area_index, sample_size, sample_address]"

lemma header_offsets_list:
  "list_all (\<lambda>f. map_option fst (offset_of cif_stream_send_t [field_name f]) = Some (4 * word_index f)) send_fields"
  "list_all (\<lambda>f. map_option fst (offset_of cif_stream_meta_send_t [field_name f]) = Some (4 * word_index f)) send_fields"
  by code_simp+

lemma in_send_fields: "f \<in> set send_fields"
  by (cases f) (simp_all add: send_fields_def)

lemma header_offsets:
  "map_option fst (offset_of cif_stream_send_t [field_name f]) = Some (4 * word_index f)"
  "map_option fst (offset_of cif_stream_meta_send_t [field_name f]) = Some (4 * word_index f)"
  using header_offsets_list in_send_fields[of f] by (auto simp: list_all_iff)

lemma media_offsets:
  "offset_of cif_stream_send_t [''media'', ''v'', ''sample_pts''] = Some (MEDIA_OFFSET, Array 2 ulong)"
  "offset_of cif_stream_send_t [''media'', ''j'', ''exif''] = Some (JPEG_EXIF_OFFSET, exif_info_t)"
  by code_simp+

lemma exif_behind_buffer: "STREAM_COMMAND_MAX < JPEG_EXIF_OFFSET + size_of exif_info_t"
  by code_simp

lemma exif_tail_offsets:
  "offset_of cif_stream_send_t [''media'', ''j'', ''exif'', ''gps'', ''img_direction_ref''] = Some (260, uchar)"
  "offset_of cif_stream_send_t [''media'', ''j'', ''exif'', ''gps'', ''img_direction'', ''nume''] = Some (264, ulong)"
  "offset_of cif_stream_send_t [''media'', ''j'', ''exif'', ''gps'', ''img_direction'', ''denomi''] = Some (268, ulong)"
  "offset_of stream_queue_t [''release_counter''] = Some (260, ulong)"
  "offset_of stream_queue_t [''next''] = Some (264, pointer)"
  "offset_of stream_queue_t [''prev''] = Some (268, pointer)"
  by code_simp+

lemma release_size: "length ws \<le> RELEASE_WORDS \<Longrightarrow> length (release_image ws) = size_of cif_release_t"
  by (simp add: length_release_image)

subsection \<open>Properties\<close>

text \<open>The memory layout the model works with is the one the declarations give: the eleven header members
  have the same offsets in messages and meta data and are read there, the addresses handed to consumers are those
  of the time stamps and of the EXIF data, a release message has the size of \<open>cif_release\<close>,
  and every member of a message, at any depth, is aligned and lies within its 272 bytes.\<close>

theorem message_layout:
  "map_option fst (offset_of cif_stream_send_t [field_name f]) = Some (4 * word_index f) \<and>
    map_option fst (offset_of cif_stream_meta_send_t [field_name f]) = Some (4 * word_index f) \<and>
    offset_of cif_stream_send_t [''media'', ''v'', ''sample_pts''] = Some (MEDIA_OFFSET, Array 2 ulong) \<and>
    offset_of cif_stream_send_t [''media'', ''j'', ''exif''] = Some (JPEG_EXIF_OFFSET, exif_info_t) \<and>
    length (release_image (stream_release_words r)) = size_of cif_release_t \<and>
    length (release_image (meta_release_words q)) = size_of cif_release_t \<and>
    (offset_of cif_stream_send_t path = Some (k, u) \<longrightarrow> align_of u dvd k \<and> k + size_of u \<le> 272)"
proof -
  have "align_of u dvd k \<and> k + size_of u \<le> 272" if "offset_of cif_stream_send_t path = Some (k, u)"
    using offset_inside[OF that] by simp
  moreover have "length (stream_release_words r) \<le> RELEASE_WORDS" "length (meta_release_words q) \<le> RELEASE_WORDS"
    by (simp_all add: stream_release_words_def meta_release_words_def RELEASE_WORDS_def)
  ultimately show ?thesis by (intro conjI header_offsets media_offsets release_size impI) auto
qed

theorem message_layout_witness:
  "align_of ulonglong dvd (216 :: nat) \<and> 216 + size_of ulonglong \<le> 272"
proof -
  have "offset_of cif_stream_send_t [''media'', ''v'', ''sensor_timestamp'', ''sof''] = Some (216, ulonglong)"
    by code_simp
  with message_layout[of MagicCode _ _ "[''media'', ''v'', ''sensor_timestamp'', ''sof'']" 216 ulonglong]
  show ?thesis by blast
qed

text \<open>C34: The asynchronous mode cannot pass on a whole message: its 272 bytes exceed the 256 bytes of a node,
  so that it is refused whatever the state of the library, answered with its release, and
  reaches no callback. In a message short enough to be accepted the end of the EXIF data that the
  consumer of pictures copies lies behind the buffer: the direction of the picture is read
  from the node's \<open>release_counter\<close>, \<open>next\<close> and \<open>prev\<close>.\<close>

theorem async_refuses_whole_message:
  assumes "unat len = size_of cif_stream_send_t" and "44 \<le> length m"
    and "load MagicCode m = Some STREAM_MAGIC"
  shows "(\<exists>msg. callback_camif_async send now m len (s, t0) =
      Some ([Send msg], t0 + 1 < now, s, if t0 + 1 < now then now else t0)) \<and>
    STREAM_COMMAND_MAX < JPEG_EXIF_OFFSET + size_of exif_info_t \<and>
    offset_of cif_stream_send_t [''media'', ''j'', ''exif'', ''gps'', ''img_direction_ref''] = Some (260, uchar) \<and>
    offset_of cif_stream_send_t [''media'', ''j'', ''exif'', ''gps'', ''img_direction'', ''nume''] = Some (264, ulong) \<and>
    offset_of cif_stream_send_t [''media'', ''j'', ''exif'', ''gps'', ''img_direction'', ''denomi''] = Some (268, ulong) \<and>
    offset_of stream_queue_t [''release_counter''] = Some (260, ulong) \<and>
    offset_of stream_queue_t [''next''] = Some (264, pointer) \<and>
    offset_of stream_queue_t [''prev''] = Some (268, pointer)"
proof -
  from release_stream_some[OF assms(2), of send] assms(3) obtain msg where
    "release_stream send m = Some (send msg, [Send msg])" by auto
  then have "callback_camif_async send now m len (s, t0) =
      Some ([Send msg], t0 + 1 < now, s, if t0 + 1 < now then now else t0)"
    using assms(1) by (simp add: callback_camif_async_def enqueue_recv_command_def STREAM_COMMAND_MAX_def)
  then show ?thesis by (intro conjI exI exif_tail_offsets exif_behind_buffer)
qed

theorem async_refuses_whole_message_witness:
  "\<exists>msg. callback_camif_async (\<lambda>_. 0) 100 (video_command @ replicate 228 0) 272 (lib demo_sys, 99) =
    Some ([Send msg], False, lib demo_sys, 99)"
proof -
  let ?m = "video_command @ replicate 228 0"
  have "unat (272 :: u32) = size_of cif_stream_send_t" "44 \<le> length ?m" by (simp_all add: video_command_def)
  moreover have "load MagicCode ?m = Some STREAM_MAGIC" by (simp add: load_def window_def video_command_def)
  ultimately show ?thesis
    using async_refuses_whole_message[of 272 ?m "\<lambda>_. 0" 100 "lib demo_sys" 99] by simp
qed

end
