(* ===== verification/RtspStreamer.thy ===== *)
theory RtspStreamer
  imports MediaRecorder
begin

text \<open>
  The parts the server no longer starts: \<open>src/src/rtsp_streamer.cpp\<close> (deprecated, pushing video to an
  RTSP server with libav) and \<open>src/src/space_data_reporter.cpp\<close>. libav is a parameter
  (\<open>rtsp_world\<close>): what its calls answer and the clock. What the streamer asks of it is the list of
  its calls; a call that does not return has the value \<open>None\<close>.
\<close>

subsection \<open>State\<close>

datatype RTSP_STATUS = RTSP_STATUS_PUSHING | RTSP_STATUS_READY

record rtsp_streamer =
  streamName :: string
  rtspStatus :: RTSP_STATUS

datatype rtsp_call =
    RtspAlloc string
  | RtspNewStream
  | RtspOption string string
  | RtspWriteHeader AVCodecID int int
  | RtspPacket "byte list"
  | RtspWriteFrame "byte list" int

text \<open>
  The answers of libav: of the set-up, and of the two calls for the frame with the given number.
  \<open>rw_clock\<close> is the time at that frame and \<open>rw_rescale\<close> is \<open>av_rescale_q\<close> from milliseconds to
  the time base of the stream.
\<close>

record rtsp_world =
  rw_alloc :: int
  rw_stream :: bool
  rw_header :: int
  rw_packet :: "nat \<Rightarrow> int"
  rw_write :: "nat \<Rightarrow> int"
  rw_start :: int
  rw_clock :: "nat \<Rightarrow> int"
  rw_rescale :: "int \<Rightarrow> int"

definition DEFAULT_RTSP_ADDRESS :: string where
  "DEFAULT_RTSP_ADDRESS = ''rtsp://localhost:8554/''"

definition RtspStreamer :: "string \<Rightarrow> rtsp_streamer" where
  "RtspStreamer name = \<lparr>streamName = name, rtspStatus = RTSP_STATUS_READY\<rparr>"

subsection \<open>Operations\<close>

text \<open>The function returns an \<open>int\<close>: the rescaled time is cut to 32 bits.\<close>

definition rtsp_get_timestamp :: "(int \<Rightarrow> int) \<Rightarrow> int \<Rightarrow> int \<Rightarrow> int" where
  "rtsp_get_timestamp rescale start t = sint (word_of_int (rescale (t - start)) :: u32)"

definition rtsp_write_one_frame :: "rtsp_world \<Rightarrow> nat \<Rightarrow> byte list \<Rightarrow> int \<times> rtsp_call list" where
  "rtsp_write_one_frame w k frame =
    (if rw_packet w k \<noteq> 0 then (- 1, [RtspPacket frame])
     else (rw_write w k, [RtspPacket frame,
       RtspWriteFrame frame (rtsp_get_timestamp (rw_rescale w) (rw_start w) (rw_clock w k))]))"

definition rtsp_onFrameReceivedCallback :: "rtsp_world \<Rightarrow> nat \<Rightarrow> byte list \<Rightarrow> rtsp_streamer \<Rightarrow> rtsp_call list" where
  "rtsp_onFrameReceivedCallback w k frame r =
    (if rtspStatus r = RTSP_STATUS_PUSHING then snd (rtsp_write_one_frame w k frame) else [])"

text \<open>
  The loop \<open>while(1)\<close> that writes 8000 bytes of an uninitialised local array (\<open>junk\<close>), and its calls up
  to frame \<open>k\<close>.
\<close>

partial_function (option) push_loop :: "rtsp_world \<Rightarrow> byte list \<Rightarrow> nat \<Rightarrow> rtsp_call list \<Rightarrow> rtsp_call list option" where
  "push_loop w junk k cs = push_loop w junk (Suc k) (cs @ snd (rtsp_write_one_frame w k (take 8000 junk)))"

fun push_calls :: "rtsp_world \<Rightarrow> byte list \<Rightarrow> nat \<Rightarrow> rtsp_call list" where
  "push_calls w junk 0 = []"
| "push_calls w junk (Suc k) = push_calls w junk k @ snd (rtsp_write_one_frame w k (take 8000 junk))"

text \<open>The calls before the loop, and the result where the function returns before it.\<close>

definition push_setup ::
    "rtsp_world \<Rightarrow> AVCodecID \<Rightarrow> int \<Rightarrow> int \<Rightarrow> rtsp_streamer \<Rightarrow> int option \<times> rtsp_call list" where
  "push_setup w codec width height r =
    (let c1 = [RtspAlloc (DEFAULT_RTSP_ADDRESS @ streamName r)] in
     if rw_alloc w \<noteq> 0 then (Some (rw_alloc w), c1)
     else let c2 = c1 @ [RtspNewStream] in
     if \<not> rw_stream w then (Some (- 1), c2)
     else let c3 = c2 @ [RtspOption ''buffer_size'' ''1024000'', RtspOption ''rtsp_transport'' ''tcp'',
            RtspOption ''stimeout'' ''5000000'', RtspOption ''max_delay'' ''500000'',
            RtspOption ''rtsp_flags'' ''listen'', RtspWriteHeader codec width height] in
     if rw_header w \<noteq> 0 then (Some (- 1), c3) else (None, c3))"

definition startPushStream ::
    "rtsp_world \<Rightarrow> byte list \<Rightarrow> AVCodecID \<Rightarrow> int \<Rightarrow> int \<Rightarrow> rtsp_streamer \<Rightarrow>
     (int \<times> rtsp_call list \<times> rtsp_streamer) option" where
  "startPushStream w junk codec width height r =
    (case push_setup w codec width height r of
       (Some ret, cs) \<Rightarrow> Some (ret, cs, r)
     | (None, cs) \<Rightarrow>
         (case push_loop w junk 0 cs of
            None \<Rightarrow> None
          | Some cs \<Rightarrow> Some (rw_header w, cs, r\<lparr>rtspStatus := RTSP_STATUS_PUSHING\<rparr>)))"

text \<open>What a program can do with a streamer: try to start it, and hand frames to it.\<close>

datatype rtsp_op = StartPush rtsp_world "byte list" AVCodecID int int | PushFrame rtsp_world nat "byte list"

fun rtsp_run :: "rtsp_op list \<Rightarrow> rtsp_streamer \<Rightarrow> (int list \<times> rtsp_call list) option" where
  "rtsp_run [] r = Some ([], [])"
| "rtsp_run (StartPush w junk codec width height # ops) r =
    (case startPushStream w junk codec width height r of
       None \<Rightarrow> None
     | Some (ret, cs, r') \<Rightarrow>
         map_option (\<lambda>(rets, ds). (ret # rets, cs @ ds)) (rtsp_run ops r'))"
| "rtsp_run (PushFrame w k frame # ops) r =
    map_option (\<lambda>(rets, ds). (rets, rtsp_onFrameReceivedCallback w k frame r @ ds)) (rtsp_run ops r)"

subsection \<open>The loop never ends\<close>

lemma push_loop_diverges: "push_loop w junk k cs = None"
proof -
  have False if "push_loop w junk k cs = Some out" for out
    by (rule push_loop.raw_induct [OF _ that, of "\<lambda>_ _ _ _ _. False"]) blast
  then show ?thesis by (cases "push_loop w junk k cs") auto
qed

text \<open>After any number of rounds the loop has done these calls and goes on.\<close>

lemma push_loop_unfold: "push_loop w junk 0 cs = push_loop w junk k (cs @ push_calls w junk k)"
proof (induction k)
  case (Suc k)
  then show ?case by (subst (asm) (2) push_loop.simps) simp
qed simp

definition is_write :: "rtsp_call \<Rightarrow> bool" where
  "is_write c = (case c of RtspPacket _ \<Rightarrow> True | RtspWriteFrame _ _ \<Rightarrow> True | _ \<Rightarrow> False)"

lemma setup_writes_nothing: "push_setup w codec width height r = (ret, cs) \<Longrightarrow> \<not> (\<exists>c \<in> set cs. is_write c)"
  by (auto simp: push_setup_def Let_def is_write_def split: if_splits)

lemma setup_fails: "push_setup w codec width height r = (Some ret, cs) \<Longrightarrow> ret \<noteq> 0"
  by (auto simp: push_setup_def Let_def split: if_splits)

lemma start_returns:
  assumes "startPushStream w junk codec width height r = Some (ret, cs, r')"
  shows "r' = r" "ret \<noteq> 0" "filter is_write cs = []"
  using assms setup_writes_nothing setup_fails
  by (fastforce simp: startPushStream_def push_loop_diverges filter_empty_conv split: option.splits prod.splits)+

lemma ready_streamer_writes_nothing:
  assumes "rtspStatus r = RTSP_STATUS_READY"
  shows "rtsp_run ops r = Some (rets, cs) \<Longrightarrow> filter is_write cs = [] \<and> 0 \<notin> set rets"
proof (induction ops arbitrary: rets cs)
  case (Cons op ops)
  show ?case
  proof (cases op)
    case (StartPush w junk codec width height)
    with Cons.prems obtain ret cs1 r' rets2 cs2 where
      start: "startPushStream w junk codec width height r = Some (ret, cs1, r')"
      and rest: "rtsp_run ops r' = Some (rets2, cs2)" "rets = ret # rets2" "cs = cs1 @ cs2"
      by (auto split: option.splits)
    from start_returns [OF start] rest Cons.IH show ?thesis by auto
  next
    case (PushFrame w k frame)
    with Cons.prems assms Cons.IH show ?thesis by (auto simp: rtsp_onFrameReceivedCallback_def)
  qed
qed simp

text \<open>C36: The deprecated streamer never pushes a received frame. Whatever a program does with it, in any
  order: a start that returns has failed and leaves it as it was, and a frame handed to it is
  dropped, so that nothing is ever written for a caller that is still running. A start whose
  set-up succeeds does not return.\<close>

theorem rtsp_never_pushes:
  "(rtsp_run ops (RtspStreamer name) = Some (rets, cs) \<longrightarrow> filter is_write cs = [] \<and> 0 \<notin> set rets) \<and>
   (startPushStream w junk codec width height (RtspStreamer name) = None \<longleftrightarrow>
      rw_alloc w = 0 \<and> rw_stream w \<and> rw_header w = 0)"
proof
  show "rtsp_run ops (RtspStreamer name) = Some (rets, cs) \<longrightarrow> filter is_write cs = [] \<and> 0 \<notin> set rets"
    using ready_streamer_writes_nothing [of "RtspStreamer name"] by (simp add: RtspStreamer_def)
  show "startPushStream w junk codec width height (RtspStreamer name) = None \<longleftrightarrow>
      rw_alloc w = 0 \<and> rw_stream w \<and> rw_header w = 0"
    by (simp add: startPushStream_def push_loop_diverges push_setup_def Let_def)
qed

definition demo_rtsp_world :: "int \<Rightarrow> rtsp_world" where
  "demo_rtsp_world ret = \<lparr>rw_alloc = ret, rw_stream = True, rw_header = 0, rw_packet = (\<lambda>_. 0), rw_write = (\<lambda>_. 0),
     rw_start = 0, rw_clock = (\<lambda>k. 40 * int k), rw_rescale = (\<lambda>ms. 90 * ms)\<rparr>"

text \<open>A start that fails and a frame after it; then a start that does not return.\<close>

lemma rtsp_never_pushes_witness:
  "\<exists>rets cs. rtsp_run [StartPush (demo_rtsp_world (- 22)) [] AV_CODEC_ID_H264 1920 1080,
        PushFrame (demo_rtsp_world 0) 0 [0, 0, 1]] (RtspStreamer ''test'') = Some (rets, cs) \<and>
      rets = [- 22] \<and> filter is_write cs = [] \<and>
      startPushStream (demo_rtsp_world 0) [] AV_CODEC_ID_H264 1920 1080 (RtspStreamer ''test'') = None"
  using rtsp_never_pushes [of "[StartPush (demo_rtsp_world (- 22)) [] AV_CODEC_ID_H264 1920 1080,
        PushFrame (demo_rtsp_world 0) 0 [0, 0, 1]]" "''test''" "[- 22]"
        "[RtspAlloc (DEFAULT_RTSP_ADDRESS @ ''test'')]" "demo_rtsp_world 0" "[]" AV_CODEC_ID_H264 1920 1080]
  by (simp add: startPushStream_def push_setup_def demo_rtsp_world_def RtspStreamer_def
      rtsp_onFrameReceivedCallback_def Let_def)

text \<open>
  The time stamp has 32 bits: at 90 kHz it is negative from 6 hours, 37 minutes and 41 seconds after the start.
\<close>

lemma rtsp_timestamp_exact:
  assumes "- (2 ^ 31) \<le> rescale (t - start)" "rescale (t - start) < 2 ^ 31"
  shows "rtsp_get_timestamp rescale start t = rescale (t - start)"
  using assms by (simp add: rtsp_get_timestamp_def signed_take_bit_int_eq_self sint_sbintrunc')

lemma rtsp_timestamp_wraps:
  "rtsp_get_timestamp (\<lambda>ms. 90 * ms) 0 23860929 = 2147483610"
  "rtsp_get_timestamp (\<lambda>ms. 90 * ms) 0 23860930 = - 2147483596"
  by (simp_all add: rtsp_get_timestamp_def)

subsection \<open>Space data\<close>

text \<open>
  \<open>SpaceDataReporter\<close>: six numbers, the same for every call, and their image in the memory at \<open>buf\<close>. Writing
  behind the end of the memory is \<open>Fault\<close>.
\<close>

record space_data =
  sp_longitude :: u64
  sp_latitude :: u64
  sp_altitude :: u64
  sp_pan :: u64
  sp_tilt :: u64
  sp_roll :: u64

definition SPACE_DATA_SIZE :: nat where
  "SPACE_DATA_SIZE = 64"

definition getCurrentSpaceData :: space_data where
  "getCurrentSpaceData = \<lparr>sp_longitude = 2, sp_latitude = 3, sp_altitude = 1, sp_pan = 4, sp_tilt = 5, sp_roll = 6\<rparr>"

definition le_bytes64 :: "u64 \<Rightarrow> byte list" where
  "le_bytes64 w = le_bytes32 (ucast w) @ le_bytes32 (ucast (drop_bit 32 w))"

definition le_word64 :: "byte list \<Rightarrow> u64" where
  "le_word64 bs = ucast (le_word32 (take 4 bs)) OR push_bit 32 (ucast (le_word32 (drop 4 bs)))"

definition write_u64 :: "nat \<Rightarrow> u64 \<Rightarrow> byte list \<Rightarrow> byte list run" where
  "write_u64 off w buf = (if off + 8 \<le> length buf then Done (take off buf @ le_bytes64 w @ drop (off + 8) buf) else Fault)"

fun write_words :: "nat \<Rightarrow> u64 list \<Rightarrow> byte list \<Rightarrow> byte list run" where
  "write_words i [] buf = Done buf"
| "write_words i (w # ws) buf = (case write_u64 (8 * i) w buf of Fault \<Rightarrow> Fault | Done buf \<Rightarrow> write_words (Suc i) ws buf)"

definition writeCurrentSpaceDataToBuf :: "byte list \<Rightarrow> byte list run" where
  "writeCurrentSpaceDataToBuf buf =
    (let d = getCurrentSpaceData
     in write_words 0 [sp_latitude d, sp_longitude d, sp_altitude d, sp_pan d, sp_tilt d, sp_roll d] buf)"

lemma length_le_bytes64 [simp]: "length (le_bytes64 w) = 8"
  by (simp add: le_bytes64_def)

lemma le_word64_bytes64 [simp]: "le_word64 (le_bytes64 w) = w"
proof (rule bit_word_eqI)
  fix n assume "n < LENGTH(64)"
  then show "bit (le_word64 (le_bytes64 w)) n = bit w n"
    by (cases "n < 32")
      (auto simp: le_word64_def le_bytes64_def bit_or_iff bit_push_bit_iff bit_unsigned_iff bit_drop_bit_eq not_less)
qed

interpretation le64: encoding le_bytes64 le_word64
  by unfold_locales (rule le_word64_bytes64)

lemma write_words_done:
  "8 * (i + length ws) \<le> length buf \<Longrightarrow>
    write_words i ws buf = Done (take (8 * i) buf @ concat (map le_bytes64 ws) @ drop (8 * (i + length ws)) buf)"
proof (induction ws arbitrary: i buf)
  case (Cons w ws)
  let ?buf = "take (8 * i) buf @ le_bytes64 w @ drop (8 * i + 8) buf"
  from Cons.prems have "write_u64 (8 * i) w buf = Done ?buf" and len: "length ?buf = length buf"
    by (auto simp: write_u64_def)
  moreover have "write_words (Suc i) ws ?buf =
      Done (take (8 * Suc i) ?buf @ concat (map le_bytes64 ws) @ drop (8 * (Suc i + length ws)) ?buf)"
    using Cons.prems len by (intro Cons.IH) simp
  ultimately show ?case using Cons.prems by (simp add: min_def add.commute add.left_commute)
qed simp

text \<open>A reader of the 48 bytes gets the six numbers; the rest of the buffer stays, and a shorter buffer is overrun.\<close>

lemma space_data_written:
  "writeCurrentSpaceDataToBuf buf =
    (if 48 \<le> length buf then Done (concat (map le_bytes64 [3, 2, 1, 4, 5, 6]) @ drop 48 buf) else Fault)"
proof (cases "48 \<le> length buf")
  case True
  then show ?thesis
    using write_words_done [of 0 "[3, 2, 1, 4, 5, 6]" buf]
    by (simp add: writeCurrentSpaceDataToBuf_def getCurrentSpaceData_def del: write_words.simps)
next
  case False
  then show ?thesis
    by (auto simp: writeCurrentSpaceDataToBuf_def getCurrentSpaceData_def write_u64_def Let_def split: run.splits if_splits)
qed

end
