(* ===== verification/LiveRace.thy ===== *)
theory LiveRace
  imports FramedSource
begin

text \<open>
  What \<open>FramedSource\<close> takes as one step each, taken apart: the writer of a frame (camera thread) and the
  destructor of the source (live555 thread), which does not take the mutex. And the objects that
  \<open>src/src/ipcu555_subsession.cpp\<close> and \<open>src/src/live555_server.cpp\<close> ask live555 for.
\<close>

subsection \<open>The writer, instruction by instruction\<close>

text \<open>The next thing \<open>writeFrameToBuf\<close> does, or its result.\<close>

datatype write_pc = W_size | W_references | W_lock | W_sei | W_frame | W_store | W_signal | W_unlock | W_return int

text \<open>
  \<open>rs_alive\<close>: the object is not deleted; \<open>rs_buffer\<close> is \<open>None\<close> once the destructor has given the memory back;
  \<open>rs_events\<close> counts triggered events.
\<close>

record race_state =
  rs_static :: source_class
  rs_alive :: bool
  rs_buffer :: "byte list option"
  rs_size :: nat
  rs_locked :: bool
  rs_pc :: write_pc
  rs_events :: nat

definition copy_to :: "nat \<Rightarrow> byte list \<Rightarrow> race_state \<Rightarrow> race_state run" where
  "copy_to off bs s = (if \<not> rs_alive s then Fault else case Option.bind (rs_buffer s) (write_at off bs) of
     None \<Rightarrow> Fault | Some buf \<Rightarrow> Done (s\<lparr>rs_buffer := Some buf\<rparr>))"

definition to_pc :: "write_pc \<Rightarrow> race_state run \<Rightarrow> race_state run" where
  "to_pc pc r = (case r of Fault \<Rightarrow> Fault | Done s \<Rightarrow> Done (s\<lparr>rs_pc := pc\<rparr>))"

definition writer_step :: "byte list \<Rightarrow> byte list \<Rightarrow> race_state \<Rightarrow> race_state run" where
  "writer_step frame sei s = (case rs_pc s of
     W_size \<Rightarrow> Done (s\<lparr>rs_pc := (if length frame > BUFFER_SIZE then W_return (- 1) else W_references)\<rparr>)
   | W_references \<Rightarrow> Done (s\<lparr>rs_pc := (if referenceCount (rs_static s) = 0 then W_return (- 1) else W_lock)\<rparr>)
   | W_lock \<Rightarrow> Done (if rs_locked s then s\<lparr>rs_pc := W_return (- 1)\<rparr> else s\<lparr>rs_locked := True, rs_pc := W_sei\<rparr>)
   | W_sei \<Rightarrow> to_pc W_frame (copy_to 0 sei s)
   | W_frame \<Rightarrow> to_pc W_store (copy_to (length sei) frame s)
   | W_store \<Rightarrow> (if \<not> rs_alive s then Fault else Done (s\<lparr>rs_size := length frame + length sei, rs_pc := W_signal\<rparr>))
   | W_signal \<Rightarrow> (if \<not> rs_alive s then Fault else Done (s\<lparr>rs_events := rs_events s + 1, rs_pc := W_unlock\<rparr>))
   | W_unlock \<Rightarrow> Done (s\<lparr>rs_locked := False, rs_pc := W_return 0\<rparr>)
   | W_return r \<Rightarrow> Done s)"

text \<open>\<open>signalNewFrameData\<close> reads the member \<open>taskScheduler\<close>, which the constructor sets; \<open>close_source\<close> is \<open>delete\<close>.\<close>

definition close_source :: "race_state \<Rightarrow> race_state" where
  "close_source s =
    (let (freed, cl) = delete_source (rs_static s)
     in s\<lparr>rs_static := cl, rs_alive := False, rs_buffer := (if freed then None else rs_buffer s)\<rparr>)"

datatype race_op = Writer | Closer

fun race_run :: "byte list \<Rightarrow> byte list \<Rightarrow> race_op list \<Rightarrow> race_state \<Rightarrow> race_state run" where
  "race_run frame sei [] s = Done s"
| "race_run frame sei (Writer # ops) s =
    (case writer_step frame sei s of Fault \<Rightarrow> Fault | Done s' \<Rightarrow> race_run frame sei ops s')"
| "race_run frame sei (Closer # ops) s = race_run frame sei ops (close_source s)"

text \<open>A source as the camera thread finds it when it calls \<open>writeFrameToBuf\<close>.\<close>

definition write_begins :: "source_class \<Rightarrow> framed_source \<Rightarrow> bool \<Rightarrow> race_state" where
  "write_begins cl src free = \<lparr>rs_static = cl, rs_alive = True, rs_buffer = Some (frame_buffer src), rs_size = frame_size src,
     rs_locked = \<not> free, rs_pc = W_size, rs_events = 0\<rparr>"

text \<open>The longest path has eight steps; further steps change nothing.\<close>

lemma race_run_append:
  "race_run frame sei (ops @ ops') s =
    (case race_run frame sei ops s of Fault \<Rightarrow> Fault | Done s' \<Rightarrow> race_run frame sei ops' s')"
proof (induction ops arbitrary: s)
  case (Cons op ops)
  then show ?case by (cases op) (auto split: run.splits)
qed simp

lemmas writer_simps = writer_step_def to_pc_def copy_to_def write_begins_def

definition writer_steps :: "nat \<Rightarrow> race_op list" where
  "writer_steps n = replicate n Writer"

lemma writer_steps_simps [simp]:
  "writer_steps 0 = []" "writer_steps (Suc n) = Writer # writer_steps n"
  "writer_steps (numeral k) = Writer # writer_steps (pred_numeral k)"
  by (simp_all add: writer_steps_def numeral_eq_Suc)

subsection \<open>Without a close the steps are the operation\<close>

lemma writer_alone:
  "race_run frame sei (writer_steps 8) (write_begins cl src free) =
    (case writeFrameToBuf free frame sei cl src of
       Fault \<Rightarrow> Fault
     | Done (r, triggered, src') \<Rightarrow> Done \<lparr>rs_static = cl, rs_alive = True, rs_buffer = Some (frame_buffer src'), rs_size = frame_size src',
         rs_locked = \<not> free, rs_pc = W_return r, rs_events = (if triggered then 1 else 0)\<rparr>)"
proof -
  consider "length frame > BUFFER_SIZE" | "length frame \<le> BUFFER_SIZE" "referenceCount cl = 0"
    | "length frame \<le> BUFFER_SIZE" "referenceCount cl \<noteq> 0" "\<not> free"
    | "length frame \<le> BUFFER_SIZE" "referenceCount cl \<noteq> 0" free by linarith
  then show ?thesis
    by cases (auto simp: writer_simps writeFrameToBuf_def split: option.splits)
qed

subsection \<open>The destructor between two steps\<close>

text \<open>C18: The mutex does not protect the source from its destructor. If the last client leaves while the camera
  thread is writing a frame that fits, everything depends on the moment: before the reference
  count was read, the frame is dropped; from then on until the event is triggered the writer goes
  on with the freed buffer or the freed object; later the source ends unharmed. Without a close the steps
  are exactly the operation \<open>writeFrameToBuf\<close>.\<close>

theorem source_close_race:
  assumes "referenceCount cl = 1" "length (frame_buffer src) = BUFFER_SIZE"
    "length sei + length frame \<le> BUFFER_SIZE" "k \<le> 8"
  shows "(case race_run frame sei (writer_steps k @ [Closer] @ writer_steps (8 - k)) (write_begins cl src True) of
      Fault \<Rightarrow> k \<in> {2..6}
    | Done s \<Rightarrow> (k \<in> {0, 1} \<and> rs_pc s = W_return (- 1) \<and> rs_events s = 0 \<or>
         k \<in> {7, 8} \<and> rs_pc s = W_return 0 \<and> rs_events s = 1) \<and> \<not> rs_alive s \<and> \<not> rs_locked s) \<and>
    race_run frame sei (writer_steps 8) (write_begins cl src True) =
      (case writeFrameToBuf True frame sei cl src of
         Fault \<Rightarrow> Fault
       | Done (r, triggered, src') \<Rightarrow> Done \<lparr>rs_static = cl, rs_alive = True, rs_buffer = Some (frame_buffer src'),
           rs_size = frame_size src', rs_locked = False, rs_pc = W_return r, rs_events = (if triggered then 1 else 0)\<rparr>)"
proof -
  have fits: "length frame \<le> BUFFER_SIZE" "length sei \<le> BUFFER_SIZE" using assms(3) by simp_all
  have sei: "write_at 0 sei (frame_buffer src) = Some (sei @ drop (length sei) (frame_buffer src))"
    using fits assms(2) by (simp add: write_at_zero)
  have both: "write_at (length sei) frame (sei @ drop (length sei) (frame_buffer src)) =
      Some (sei @ frame @ drop (length sei + length frame) (frame_buffer src))"
    using assms(2,3) by (simp add: write_at_def add.commute)
  have "k \<in> {0, 1, 2, 3, 4, 5, 6, 7, 8}" using assms(4) by auto
  then have "case race_run frame sei (writer_steps k @ [Closer] @ writer_steps (8 - k)) (write_begins cl src True) of
      Fault \<Rightarrow> k \<in> {2..6}
    | Done s \<Rightarrow> (k \<in> {0, 1} \<and> rs_pc s = W_return (- 1) \<and> rs_events s = 0 \<or>
         k \<in> {7, 8} \<and> rs_pc s = W_return 0 \<and> rs_events s = 1) \<and> \<not> rs_alive s \<and> \<not> rs_locked s"
    using assms(1) fits sei both
    by (elim insertE; simp add: writer_simps close_source_def delete_source_def)
  then show ?thesis by (simp only: writer_alone simp_thms)
qed

lemma source_close_race_witness:
  "race_run [0x65] [0, 0, 0, 1] (writer_steps 4 @ [Closer] @ writer_steps 4)
     (write_begins \<lparr>referenceCount = 1, eventTriggerId = 1\<rparr>
       \<lparr>frame_buffer = replicate BUFFER_SIZE 0, frame_size = 0\<rparr> True) = Fault"
  using source_close_race [of "\<lparr>referenceCount = 1, eventTriggerId = 1\<rparr>"
      "\<lparr>frame_buffer = replicate BUFFER_SIZE 0, frame_size = 0\<rparr>" "[0, 0, 0, 1]" "[0x65]" 4]
  by (auto simp: BUFFER_SIZE_def split: run.splits)

subsection \<open>The objects of live555\<close>

text \<open>The calls of the constructor of \<open>Live555Server\<close> and of \<open>start\<close>, in order.\<close>

datatype live_call =
    NewScheduler | NewEnvironment | NewRTSPServer | SetMaxPacket nat | NewMediaSession string
  | NewSubsession bool | AddSubsession | AddMediaSession | StartEventLoop

text \<open>The subsession is created with \<open>reuseFirstSource\<close>: all clients share one source.\<close>

definition IPCU555Subsession_createNew :: "live_call list" where
  "IPCU555Subsession_createNew = [NewSubsession True]"

definition Live555Server_calls :: "string \<Rightarrow> live_call list" where
  "Live555Server_calls stream_name =
    [NewScheduler, NewEnvironment, NewRTSPServer, SetMaxPacket (8 * 1024 * 1024), NewMediaSession stream_name] @
    IPCU555Subsession_createNew @ [AddSubsession]"

text \<open>
  \<open>server\<close>: whether \<open>RTSPServer::createNew\<close> gave a server; it gives \<open>NULL\<close> if it cannot use its port, and
  \<open>start\<close> calls a member of it without a check. The member \<open>isStarted\<close> is set by \<open>live_start\<close>.
\<close>

definition live_start_calls :: "bool \<Rightarrow> live_call list option" where
  "live_start_calls server = (if server then Some [AddMediaSession, StartEventLoop] else None)"

text \<open>\<open>stop\<close> leaves its thread with \<open>pthread_exit\<close>, so that it does not come back.\<close>

definition live_stop :: "live_server \<Rightarrow> live_server option" where
  "live_stop l = None"

text \<open>What live555 gets for a client: the estimated bit rate in kbit/s, and the objects of the stream.\<close>

datatype stream_object = H264VideoStreamDiscreteFramer framed_source | H264VideoRTPSink byte

definition subsession_stream_source ::
    "byte list \<Rightarrow> nat \<Rightarrow> live_server \<Rightarrow> nat \<times> stream_object \<times> live_server" where
  "subsession_stream_source mem trigger l =
    (10000, H264VideoStreamDiscreteFramer (snd (IPCU555FramedSource mem trigger (source_static l))),
     createNewStreamSource mem trigger l)"

definition createNewRTPSink :: "byte \<Rightarrow> stream_object" where
  "createNewRTPSink rtpPayloadTypeIfDynamic = H264VideoRTPSink rtpPayloadTypeIfDynamic"

text \<open>The trigger that the scheduler is asked to fire; a request for data does nothing by itself.\<close>

definition signalNewFrameData :: "bool \<Rightarrow> source_class \<Rightarrow> nat list" where
  "signalNewFrameData taskScheduler cl = (if taskScheduler then [eventTriggerId cl] else [])"

definition doGetNextFrame :: "framed_source \<Rightarrow> framed_source" where
  "doGetNextFrame s = s"

text \<open>The framer reads from the very object the camera thread writes to.\<close>

lemma framer_reads_source:
  "subsession_stream_source mem trigger l = (rate, obj, l') \<Longrightarrow>
    obj = H264VideoStreamDiscreteFramer s \<longleftrightarrow> ipcuFramedSource l' = Source s"
  by (auto simp: subsession_stream_source_def createNewStreamSource_def case_prod_unfold Let_def)

end
