(* ===== verification/JpegTools.thy ===== *)
theory JpegTools
  imports JpegCapture
begin

text \<open>
  The rest of \<open>src/src/jpeg-data.c\<close> (dumping, the log of an object, loading a new object from a file) and
  the helpers of \<open>src/src/jpeg_capture.cpp\<close> that print or name files by the time. Printed text
  is a list of lines (without the line feed); \<open>printf\<close> of a null string has no result (\<open>None\<close>).
\<close>

subsection \<open>Dumping a JPEG file\<close>

text \<open>
  A marker byte as the enumeration of \<open>jpeg-marker.h\<close>; the code of a zeroed section is no member of it, so that
  the table has no name for it.
\<close>

definition marker_of :: "byte \<Rightarrow> JPEGMarker option" where
  "marker_of b = find (\<lambda>m. marker_code m = b) all_markers"

datatype 'e dump_line =
    DumpTotal nat
  | DumpSection nat byte string
  | DumpDescription string
  | DumpExif "'e option"
  | DumpSize "nat option"
  | DumpUnknown

text \<open>
  \<open>DumpSize None\<close>: the size of a half assigned content, which is not kept. The data of an \<open>APP1\<close> section that
  is not exif data is read through the wrong member.
\<close>

definition dump_content :: "'e JPEGSection \<Rightarrow> 'e dump_line list option" where
  "dump_content s =
    (if s_marker s = SOI_b \<or> s_marker s = EOI_b then Some []
     else if s_marker s = APP1_b then
       (case s_content s of App1C e \<Rightarrow> Some [DumpExif e] | Zeroed \<Rightarrow> Some [DumpExif None] | _ \<Rightarrow> None)
     else (case s_content s of
         GenericC b \<Rightarrow> Some [DumpSize (Some (length b)), DumpUnknown]
       | Zeroed \<Rightarrow> Some [DumpSize (Some 0), DumpUnknown]
       | Broken \<Rightarrow> Some [DumpSize None, DumpUnknown]
       | App1C _ \<Rightarrow> None))"

definition dump_section :: "nat \<Rightarrow> 'e JPEGSection \<Rightarrow> 'e dump_line list option" where
  "dump_section i s = do {
     m \<leftarrow> marker_of (s_marker s);
     name \<leftarrow> jpeg_marker_get_name m;
     description \<leftarrow> jpeg_marker_get_description m;
     content \<leftarrow> dump_content s;
     Some (DumpSection i (s_marker s) name # DumpDescription description # content)
   }"

fun dump_sections :: "nat \<Rightarrow> 'e JPEGSection list \<Rightarrow> 'e dump_line list option" where
  "dump_sections i [] = Some []"
| "dump_sections i (s # ss) = do {
     a \<leftarrow> dump_section i s; b \<leftarrow> dump_sections (Suc i) ss; Some (a @ b)
   }"

definition jpeg_data_dump :: "'e JPEGData \<Rightarrow> 'e dump_line list option" where
  "jpeg_data_dump jd = do { ls \<leftarrow> dump_sections 0 (jd_sections jd); Some (DumpTotal (jd_size jd) # ls) }"

lemma marker_of_code [simp]: "marker_of (marker_code m) = Some m"
proof -
  have "\<exists>n. marker_of (marker_code m) = Some n"
    using all_markers_complete [of m] by (auto simp: marker_of_def find_None_iff not_None_eq [symmetric])
  then show ?thesis by (auto simp: marker_of_def find_Some_iff marker_code_inj)
qed

text \<open>
  A file can be dumped exactly if each of its sections has a name in the table and a content of its
  own kind; so the missing name of \<open>RST0\<close> makes a file with this marker undumpable.
\<close>

lemma dump_sections_defined:
  "(\<exists>ls. dump_sections i ss = Some ls) \<longleftrightarrow>
    (\<forall>s \<in> set ss. dump_content s \<noteq> None \<and> (\<exists>m. s_marker s = marker_code m \<and> m \<noteq> RST0))"
proof (induction ss arbitrary: i)
  case (Cons s ss)
  have named: "jpeg_marker_get_name m = None \<longleftrightarrow> m = RST0" "jpeg_marker_get_description m = None \<longleftrightarrow> m = RST0" for m
    using name_of.lookup_None [of m] description_of.lookup_None [of m] table_markers all_markers_complete [of m] by auto
  have "(\<exists>ls. dump_section i s = Some ls) \<longleftrightarrow>
      dump_content s \<noteq> None \<and> (\<exists>m. s_marker s = marker_code m \<and> m \<noteq> RST0)"
  proof (cases "marker_of (s_marker s)")
    case None
    then have "s_marker s \<noteq> marker_code m" for m using marker_of_code [of m] by auto
    with None show ?thesis by (simp add: dump_section_def)
  next
    case (Some m)
    then have "s_marker s = marker_code m" by (auto simp: marker_of_def find_Some_iff)
    then have "(\<exists>n. s_marker s = marker_code n \<and> n \<noteq> RST0) \<longleftrightarrow> m \<noteq> RST0" by (metis marker_code_inj)
    with Some named [of m] show ?thesis
      by (cases "jpeg_marker_get_name m"; cases "jpeg_marker_get_description m"; cases "dump_content s")
        (simp_all add: dump_section_def)
  qed
  with Cons.IH show ?case by (auto simp: bind_eq_Some_conv)
qed simp

subsection \<open>The log of an object\<close>

text \<open>An object with the log of its private part, and the reference counts of logs.\<close>

record 'e logged_data = "'e JPEGData" +
  priv_log :: "nat option"

type_synonym log_refs = "nat \<Rightarrow> int"

definition jpeg_data_log :: "nat \<Rightarrow> log_refs \<Rightarrow> 'e logged_data \<Rightarrow> log_refs \<times> 'e logged_data" where
  "jpeg_data_log new refs jd =
    (let refs = (case priv_log jd of None \<Rightarrow> refs | Some l \<Rightarrow> refs(l := refs l - 1))
     in (refs(new := refs new + 1), jd\<lparr>priv_log := Some new\<rparr>))"

text \<open>The part of \<open>jpeg_data_free\<close> that concerns the log.\<close>

definition free_log :: "log_refs \<Rightarrow> 'e logged_data \<Rightarrow> log_refs \<times> 'e logged_data" where
  "free_log refs jd = (case priv_log jd of
      None \<Rightarrow> (refs, jd) | Some l \<Rightarrow> (refs(l := refs l - 1), jd\<lparr>priv_log := None\<rparr>))"

fun set_logs :: "nat list \<Rightarrow> log_refs \<times> 'e logged_data \<Rightarrow> log_refs \<times> 'e logged_data" where
  "set_logs [] (refs, jd) = (refs, jd)"
| "set_logs (l # ls) (refs, jd) = set_logs ls (jpeg_data_log l refs jd)"

text \<open>An object holds one reference to its log: setting logs and freeing the object leaves every count as it was.\<close>

lemma log_refs_balanced: "set_logs ls (refs, jd) = (refs', jd') \<Longrightarrow> fst (free_log refs' jd') = fst (free_log refs jd)"
proof (induction ls arbitrary: refs jd)
  case (Cons l ls)
  obtain r d where one: "jpeg_data_log l refs jd = (r, d)" by fastforce
  then have "fst (free_log r d) = fst (free_log refs jd)"
    by (auto simp: free_log_def jpeg_data_log_def Let_def split: option.splits)
  then show ?case using Cons one by simp
qed simp

subsection \<open>A new object from a file\<close>

definition jpeg_data_new_from_file ::
    "'e exif_lib \<Rightarrow> (nat \<Rightarrow> bool) \<Rightarrow> byte list option \<Rightarrow> 'e JPEGData option run option" where
  "jpeg_data_new_from_file ex al file = (case jpeg_data_new al of
      None \<Rightarrow> Some (Done None)
    | Some jd \<Rightarrow> (case jpeg_data_load_file ex al file jd of
        None \<Rightarrow> None | Some Fault \<Rightarrow> Some Fault | Some (Done jd') \<Rightarrow> Some (Done (Some jd'))))"

text \<open>A file that cannot be read gives an empty object.\<close>

lemma new_from_unreadable_file:
  "al 0 \<Longrightarrow> al 1 \<Longrightarrow> jpeg_data_new_from_file ex al None =
    Some (Done (Some \<lparr>jd_sections = [], jd_data = None, jd_size = 0, jd_refs = 1, jd_allocs = 2\<rparr>))"
  by (simp add: jpeg_data_new_from_file_def jpeg_data_new_def jpeg_data_load_file_def)

subsection \<open>Helpers of the picture capture\<close>

text \<open>
  \<open>print_operation_time\<close>: the difference handed to \<open>printf\<close> and the static variable \<open>last\<close>. The time in
  milliseconds is computed in a 32-bit \<open>long\<close>, whose overflow is undefined (\<open>None\<close>).
\<close>

definition print_operation_time :: "int \<Rightarrow> int \<Rightarrow> u64 \<Rightarrow> (u64 \<times> u64) option" where
  "print_operation_time tv_sec tv_usec last_time =
    (let now = tv_sec * 1000 + tv_usec div 1000
     in if 2 ^ 31 \<le> now then None else Some (word_of_int now - last_time, word_of_int now))"

text \<open>From 25 January 1970 on.\<close>

lemma operation_time_overflows: "2147484 \<le> tv_sec \<Longrightarrow> 0 \<le> tv_usec \<Longrightarrow> print_operation_time tv_sec tv_usec l = None"
  by (simp add: print_operation_time_def Let_def)

text \<open>\<open>get_file_name_now\<close>: the date and the milliseconds without leading zeros.\<close>

definition get_file_name_now :: "string \<Rightarrow> nat \<Rightarrow> string \<Rightarrow> string \<Rightarrow> string" where
  "get_file_name_now time_str usec prefix suffix = prefix @ time_str @ decimal (usec div 1000) @ suffix"

text \<open>Two pictures of the same second have different names exactly if their milliseconds differ.\<close>

lemma file_names_now:
  "get_file_name_now t u p s = get_file_name_now t v p s \<longleftrightarrow> u div 1000 = v div 1000"
  by (simp add: get_file_name_now_def dec_num.enc_eq_iff)

text \<open>\<open>my_copy\<close>: its body is a comment.\<close>

definition my_copy :: "byte list \<Rightarrow> byte list \<Rightarrow> int \<Rightarrow> byte list" where
  "my_copy dst src sz = dst"

text \<open>The numbers of \<open>dump_exif_info\<close>, in the order in which they are printed; a \<open>uint32_t\<close> is printed as an \<open>int\<close>.\<close>

definition dump_exif_info :: "T_BF_DCF_IF_EXIF_INFO \<Rightarrow> int list list" where
  "dump_exif_info info =
    [[uint (info_width info), uint (info_lines info)],
     [uint (ad_year (info_date info)), uint (month (info_date info)), uint (day (info_date info)),
      uint (hour (info_date info)), uint (min_of_hour (info_date info)), uint (sec (info_date info))],
     [uint (iso_value info), sint (nume (shutter_speed info)), sint (denomi (shutter_speed info)), uint (metering info)],
     [sint (exposure_prog info), sint (nume (exposure_time info)), sint (denomi (exposure_time info)),
      uint (flash info), uint (light_source info)]]"

end
