(* ===== verification/ExifMemory.thy ===== *)
theory ExifMemory
  imports JpegCapture
begin

text \<open>
  The objects of libexif that \<open>JpegCapture::saveJpegWithExif\<close> (\<open>src/src/jpeg_capture.cpp\<close>) creates, and the
  references it holds. libexif counts references: \<open>exif_X_new\<close> and \<open>exif_X_ref\<close> give the caller one,
  \<open>exif_X_unref\<close> takes one back, and containers hold references of their own. An object is not freed while
  somebody holds a reference. What libexif frees is the parameter \<open>freed\<close> of the calls made so far.
\<close>

subsection \<open>The calls of a picture\<close>

datatype exif_ifd = EXIF_IFD_0 | EXIF_IFD_EXIF | EXIF_IFD_GPS

text \<open>Objects by the number of the picture they were created for; entries also by their order in a directory.\<close>

datatype exif_object = ExifData nat | ExifContent nat exif_ifd | ExifEntry nat exif_ifd nat

datatype exif_call =
    Exif_new exif_object
  | Exif_ref exif_object
  | Exif_unref exif_object
  | Exif_content_add_entry exif_object exif_object
  | Exif_set_ifd exif_object exif_object

definition new_exif_entry_calls :: "nat \<Rightarrow> exif_ifd \<Rightarrow> nat \<Rightarrow> exif_call list" where
  "new_exif_entry_calls k d i =
    [Exif_new (ExifEntry k d i), Exif_content_add_entry (ExifContent k d) (ExifEntry k d i), Exif_ref (ExifEntry k d i)]"

text \<open>A directory with its entries, and its assignment to the EXIF object.\<close>

definition ifd_calls :: "nat \<Rightarrow> exif_ifd \<Rightarrow> exif_entry list \<Rightarrow> exif_call list" where
  "ifd_calls k d es = Exif_new (ExifContent k d) # concat (map (new_exif_entry_calls k d) [0..<length es]) @
     [Exif_set_ifd (ExifData k) (ExifContent k d)]"

text \<open>Picture \<open>k\<close>; without an EXIF object the function returns at once.\<close>

definition picture_exif_calls ::
    "jpeg_world \<Rightarrow> device_status \<Rightarrow> gps_estone \<Rightarrow> T_BF_DCF_IF_EXIF_INFO \<Rightarrow> nat \<Rightarrow> exif_call list run" where
  "picture_exif_calls w st g info k =
    (if \<not> w_exif_new w then Done []
     else (case gps_for_picture (w_junk w) g of
         Fault \<Rightarrow> Fault
       | Done gps_data \<Rightarrow> Done (Exif_new (ExifData k) #
           ifd_calls k EXIF_IFD_0 (exif_ifd_0 (w_codec w)) @
           ifd_calls k EXIF_IFD_EXIF (exif_ifd_exif (w_codec w) (w_float w) st (w_date w) (w_ms w) info) @
           ifd_calls k EXIF_IFD_GPS (exif_ifd_gps (w_codec w) (w_float w) gps_data) @
           [Exif_unref (ExifData k)])))"

text \<open>One picture after the other.\<close>

fun pictures_exif_calls ::
    "nat \<Rightarrow> (jpeg_world \<times> device_status \<times> gps_estone \<times> T_BF_DCF_IF_EXIF_INFO) list \<Rightarrow> exif_call list run" where
  "pictures_exif_calls k [] = Done []"
| "pictures_exif_calls k ((w, st, g, info) # ps) =
    (case picture_exif_calls w st g info k of
       Fault \<Rightarrow> Fault
     | Done cs \<Rightarrow> (case pictures_exif_calls (Suc k) ps of Fault \<Rightarrow> Fault | Done ds \<Rightarrow> Done (cs @ ds)))"

subsection \<open>References\<close>

fun reference_of :: "exif_object \<Rightarrow> exif_call \<Rightarrow> int" where
  "reference_of x (Exif_new y) = (if x = y then 1 else 0)"
| "reference_of x (Exif_ref y) = (if x = y then 1 else 0)"
| "reference_of x (Exif_unref y) = (if x = y then - 1 else 0)"
| "reference_of x _ = 0"

text \<open>The references that the program itself holds after its calls.\<close>

definition held :: "exif_call list \<Rightarrow> exif_object \<Rightarrow> int" where
  "held cs x = sum_list (map (reference_of x) cs)"

lemma held_simps [simp]:
  "held [] x = 0" "held (c # cs) x = reference_of x c + held cs x" "held (cs @ ds) x = held cs x + held ds x"
  by (simp_all add: held_def)

definition counts_references :: "(exif_call list \<Rightarrow> exif_object set) \<Rightarrow> bool" where
  "counts_references freed \<longleftrightarrow> (\<forall>cs x. x \<in> freed cs \<longrightarrow> held cs x \<le> 0)"

fun entry_count :: "exif_ifd \<Rightarrow> nat" where
  "entry_count EXIF_IFD_0 = 7"
| "entry_count EXIF_IFD_EXIF = 16"
| "entry_count EXIF_IFD_GPS = 7"

lemma entry_counts:
  "length (exif_ifd_0 X) = entry_count EXIF_IFD_0"
  "length (exif_ifd_exif X fu st date ms info) = entry_count EXIF_IFD_EXIF"
  "length (exif_ifd_gps X fu d) = entry_count EXIF_IFD_GPS"
  by (simp_all add: exif_ifd_0_def exif_ifd_exif_def exif_ifd_gps_def Let_def)

lemma held_entries:
  "held (concat (map (new_exif_entry_calls k d) [0..<n])) (ExifEntry j e i) =
    (if j = k \<and> e = d \<and> i < n then 2 else 0)"
  by (induction n) (auto simp: new_exif_entry_calls_def)

lemma held_ifd: "held (ifd_calls k d es) (ExifEntry j e i) = (if j = k \<and> e = d \<and> i < length es then 2 else 0)"
  by (simp add: ifd_calls_def held_entries)

lemma held_picture:
  assumes "picture_exif_calls w st g info k = Done cs" "w_exif_new w"
  shows "held cs (ExifEntry j e i) = (if j = k \<and> i < entry_count e then 2 else 0)"
  using assms
  by (cases e) (auto simp: picture_exif_calls_def held_ifd entry_counts split: run.splits)

lemma held_pictures:
  "pictures_exif_calls k ps = Done cs \<Longrightarrow> list_all (\<lambda>(w, _). w_exif_new w) ps \<Longrightarrow>
    held cs (ExifEntry j e i) = (if k \<le> j \<and> j < k + length ps \<and> i < entry_count e then 2 else 0)"
proof (induction k ps arbitrary: cs rule: pictures_exif_calls.induct)
  case (2 k w st g info ps)
  from "2.prems"(1) obtain as bs where c: "picture_exif_calls w st g info k = Done as"
    "pictures_exif_calls (Suc k) ps = Done bs" "cs = as @ bs" by (auto split: run.splits)
  from "2.IH" [OF c(1,2)] held_picture [OF c(1)] "2.prems"(2) show ?case by (auto simp: c(3))
qed simp

lemma pictures_no_fault: "\<exists>cs. pictures_exif_calls k ps = Done cs"
proof (induction k ps rule: pictures_exif_calls.induct)
  case (2 k w st g info ps)
  obtain d where "gps_for_picture (w_junk w) g = Done d" using gps_for_picture_no_fault by blast
  then obtain cs where cs: "picture_exif_calls w st g info k = Done cs"
    by (cases "w_exif_new w") (simp_all add: picture_exif_calls_def)
  with "2.IH" [OF this] show ?case by auto
qed simp

lemma created_ifd:
  "Exif_new (ExifEntry j e i) \<in> set (ifd_calls k d es) \<longleftrightarrow> j = k \<and> e = d \<and> i < length es"
  by (auto simp: ifd_calls_def new_exif_entry_calls_def)

lemma created_picture:
  assumes "picture_exif_calls w st g info k = Done cs" "w_exif_new w"
  shows "Exif_new (ExifEntry j e i) \<in> set cs \<longleftrightarrow> j = k \<and> i < entry_count e"
  using assms
  by (cases e) (auto simp: picture_exif_calls_def created_ifd entry_counts split: run.splits)

lemma created_pictures:
  "pictures_exif_calls k ps = Done cs \<Longrightarrow> list_all (\<lambda>(w, _). w_exif_new w) ps \<Longrightarrow>
    Exif_new (ExifEntry j e i) \<in> set cs \<longleftrightarrow> k \<le> j \<and> j < k + length ps \<and> i < entry_count e"
proof (induction k ps arbitrary: cs rule: pictures_exif_calls.induct)
  case (2 k w st g info ps)
  from "2.prems"(1) obtain as bs where c: "picture_exif_calls w st g info k = Done as"
    "pictures_exif_calls (Suc k) ps = Done bs" "cs = as @ bs" by (auto split: run.splits)
  from "2.IH" [OF c(1,2)] created_picture [OF c(1)] "2.prems"(2) show ?case by (auto simp: c(3))
qed simp

lemma entries_finite_card:
  "card {x. \<exists>j e i. x = ExifEntry j e i \<and> j < n \<and> i < entry_count e} = 30 * n"
proof -
  let ?A = "\<lambda>e. (\<lambda>(j, i). ExifEntry j e i) ` ({..<n} \<times> {..<entry_count e})"
  have inj: "inj_on (\<lambda>(j, i). ExifEntry j e i) B" for e B by (auto simp: inj_on_def)
  have "{x. \<exists>j e i. x = ExifEntry j e i \<and> j < n \<and> i < entry_count e} =
      ?A EXIF_IFD_0 \<union> (?A EXIF_IFD_EXIF \<union> ?A EXIF_IFD_GPS)"
    (is "?L = ?R")
  proof (intro subset_antisym subsetI)
    fix x assume "x \<in> ?L"
    then obtain j e i where "x = ExifEntry j e i" "j < n" "i < entry_count e" by blast
    then show "x \<in> ?R" by (cases e) auto
  qed auto
  also have "card \<dots> = card (?A EXIF_IFD_0) + (card (?A EXIF_IFD_EXIF) + card (?A EXIF_IFD_GPS))"
    by (subst card_Un_disjoint, simp, simp, fastforce, subst card_Un_disjoint) auto
  also have "\<dots> = 30 * n" by (simp add: card_image [OF inj] card_cartesian_product)
  finally show ?thesis .
qed

subsection \<open>Property\<close>

text \<open>C31: Every picture leaks its EXIF entries. If libexif keeps an object as long as somebody holds a reference to
  it, then of the entries created for \<open>n\<close> pictures none is freed: \<open>new_exif_entry\<close> takes two references to each
  and nothing gives them back, so that \<open>exif_data_unref\<close> at the end of a picture leaves 30 entries behind,
  whatever the status, the samples and the frames were.\<close>

theorem exif_entries_leak:
  assumes "counts_references freed" and "list_all (\<lambda>(w, _). w_exif_new w) ps"
  shows "\<exists>cs. pictures_exif_calls 0 ps = Done cs \<and>
    card {x. \<exists>j e i. x = ExifEntry j e i \<and> Exif_new x \<in> set cs \<and> x \<notin> freed cs} = 30 * length ps"
proof -
  obtain cs where cs: "pictures_exif_calls 0 ps = Done cs" using pictures_no_fault by blast
  have kept: "ExifEntry j e i \<notin> freed cs" if "j < length ps" "i < entry_count e" for j e i
    using held_pictures [OF cs assms(2), of j e i] that assms(1) unfolding counts_references_def by fastforce
  have "{x. \<exists>j e i. x = ExifEntry j e i \<and> Exif_new x \<in> set cs \<and> x \<notin> freed cs} =
      {x. \<exists>j e i. x = ExifEntry j e i \<and> j < length ps \<and> i < entry_count e}"
    using created_pictures [OF cs assms(2)] kept by auto
  with cs entries_finite_card show ?thesis by simp
qed

text \<open>A library that frees an object with the last reference of the program.\<close>

definition demo_freed :: "exif_call list \<Rightarrow> exif_object set" where
  "demo_freed cs = {x. Exif_unref x \<in> set cs \<and> held cs x \<le> 0}"

theorem exif_entries_leak_witness:
  "\<exists>cs. pictures_exif_calls 0 [(demo_world, DeviceStatus, GPSEstone, demo_info)] = Done cs \<and> ExifData 0 \<in> demo_freed cs \<and>
    card {x. \<exists>j e i. x = ExifEntry j e i \<and> Exif_new x \<in> set cs \<and> x \<notin> demo_freed cs} = 30"
proof -
  have d: "counts_references demo_freed" by (simp add: counts_references_def demo_freed_def)
  have w: "list_all (\<lambda>(w, _). w_exif_new w) [(demo_world, DeviceStatus, GPSEstone, demo_info)]"
    by (simp add: demo_world_def)
  from exif_entries_leak [OF d w] obtain cs where
    cs: "pictures_exif_calls 0 [(demo_world, DeviceStatus, GPSEstone, demo_info)] = Done cs"
    "card {x. \<exists>j e i. x = ExifEntry j e i \<and> Exif_new x \<in> set cs \<and> x \<notin> demo_freed cs} = 30" by auto
  have none: "held (concat (map (new_exif_entry_calls k d) [0..<n])) (ExifData j) = 0" for k d n j
    by (induction n) (simp_all add: new_exif_entry_calls_def)
  have "ExifData 0 \<in> demo_freed cs"
    using cs(1) by (auto simp: picture_exif_calls_def demo_world_def demo_freed_def ifd_calls_def none split: run.splits)
  with cs show ?thesis by blast
qed

end
