(* ===== verification/Spec2Isabelle.thy ===== *)
theory Spec2Isabelle
  imports ServerSurvival ConsumerVector StreamLiveness StreamLayout RtspStreamer LiveRace JpegTools ExifMemory
begin

text \<open>
  A verification development for the multimedia server of a camera with a Socionext M10V processor
  (directory \<open>src/\<close> of the repository; file names below are relative to it).

  \<^bold>\<open>The program.\<close> The camera processor encodes video, stills and raw frames and passes each to the
  Linux side as a message on an IPCU channel. \<open>src/sample_library.c\<close> receives these messages (either
  handing them to a callback at once, or copying them into a pool of 128 buffers that a thread
  works off), gives the buffers back with release messages, and sends commands to the camera;
  \<open>src/ipcu_stream.c\<close> wraps those commands. \<open>src/stream_receiver.cpp\<close> hands frames to the consumers
  that are registered for their stream: \<open>src/jpeg_capture.cpp\<close> writes pictures with EXIF and XMP
  data, \<open>src/raw_img_capture.cpp\<close> and \<open>src/yuv_capture.cpp\<close> write frames as they are,
  \<open>src/media_recorder.cpp\<close> records video, and \<open>src/live555_server.cpp\<close> with
  \<open>src/ipcu555_framed_source.cpp\<close> serves RTSP clients. Video frames are labelled with GPS samples
  (\<open>src/gps_estone.cpp\<close>, encoded by \<open>src/sei_encoder.cpp\<close>). \<open>src/main.cpp\<close> creates these objects
  and serves messages and requests that arrive on the ZeroMQ sockets of
  \<open>src/communicator.cpp\<close>. \<open>src/jpeg-data.c\<close> and \<open>src/jpeg-marker.c\<close> read and write JPEG files.
  The target is 32-bit ARM: \<open>long\<close> and pointers have 32 bits, little-endian.

  \<^bold>\<open>Theories.\<close> In the order of the code, each naming its lines:

  \<^item> \<open>Prelude\<close>: machine types, faulting computations, byte images of words, the contract
    of an encoder and its decoder (locale \<open>encoding\<close>).
  \<^item> \<open>StreamQueue\<close>, \<open>OwnedList\<close>, \<open>StreamLists\<close>: the doubly linked lists of \<open>sample_library.c\<close> over a
    heap of nodes; the representation predicate \<open>dlist\<close>; the contracts of a list that owns its
    nodes (locales \<open>owned_list\<close>, \<open>fifo_list\<close>, \<open>lifo_list\<close>) and their interpretation by the pool, the
    receive queue and the release list.
  \<^item> \<open>StreamPool\<close>, \<open>StreamThread\<close>, \<open>StreamService\<close>: buffers and their counters; the stream thread and its
    clients as interleaved critical sections (\<open>stream_step\<close>, one step per locked section);
    the reachable states, their invariant, conservation of nodes, order of delivery, and what
    goes wrong in races and at the end of the thread.
  \<^item> \<open>StreamLiveness\<close>: progress under weak fairness (locale \<open>progress\<close>, interpreted for the delivery of
    commands and for the end of the thread).
  \<^item> \<open>StreamLayout\<close>: the C layout of messages and nodes, computed from their declarations.
  \<^item> \<open>StreamMessage\<close>, \<open>StreamApi\<close>: messages in memory, callbacks, release messages, opening and closing
    the channels, the entry points for clients.
  \<^item> \<open>CameraIf\<close>, \<open>IpcuStream\<close>: one command to the camera and its answer; the commands of the
    application and the choice of a resolution.
  \<^item> \<open>JpegMarker\<close>, \<open>JpegData\<close>: markers and their names (locale \<open>marker_column\<close>); parser, printer,
    EXIF access and destruction of JPEG files.
  \<^item> \<open>Utils\<close>, \<open>DeviceStatus\<close>: fields of JSON messages, conversions of numbers, the status values.
  \<^item> \<open>GpsEstone\<close>, \<open>SeiEncoder\<close>: the ring of GPS samples and its lookup; the SEI unit, with the
    decoder of the H.264 standard as its reference.
  \<^item> \<open>MediaRecorder\<close>: the recorder against an abstract automaton of the calls that libav permits
    (\<open>phases\<close>), which every run of the recorder refines.
  \<^item> \<open>FramedSource\<close>: the buffer between the camera and the RTSP thread, and the server around it.
  \<^item> \<open>LiveRace\<close>: the same writer instruction by instruction, against the destructor of the source, and the
    objects that the server creates with live555.
  \<^item> \<open>JpegCapture\<close>, \<open>FrameFiles\<close>: pictures with their EXIF entries and file layout; raw files.
    \<open>JpegTools\<close>: dumping and logging, file names by the time. \<open>ExifMemory\<close>: the libexif objects of a
    picture and their references.
  \<^item> \<open>StreamReceiver\<close>, \<open>Communicator\<close>, \<open>MainLoop\<close>: registration and dispatch, sockets, and the server
    as a state with its messages, requests and frames (\<open>server_reachable\<close>).
  \<^item> \<open>ConsumerVector\<close>: the registrations as the vector of pointers they are in memory, which refines the
    list of \<open>StreamReceiver\<close>, and what overlapping operations do.
  \<^item> \<open>ServerSession\<close>, \<open>ServerMain\<close>: the stream library, the receiver, the consumers and the loop of \<open>main\<close> as
    one system: a session takes a list of inputs to the log of what the server does; \<open>server_main\<close> is
    \<open>main\<close> from its start to its exit code. \<open>StatusBounds\<close>: what the status values can be in the states a
    server reaches, and that the fixed-size buffers filled from them suffice. \<open>PhotoSession\<close>: pictures in a session.
    \<open>LiveSession\<close>: from a camera message to what an RTSP client reads, in a session.
    \<open>ServerSurvival\<close>: inputs under which nothing faults (\<open>harmless\<close>, \<open>live_harmless\<close>), and the invariant of
    the states they lead to (\<open>objects_sound\<close>, \<open>registered\<close>).
  \<^item> \<open>RtspStreamer\<close>: the deprecated streamer and the reporter of space data.

  \<^bold>\<open>How the code is modelled.\<close> State is a record that operations take and return. A C function that may
  read outside an object, follow a dangling pointer or run for ever has a partial result
  (\<open>option\<close>, or \<open>run\<close> with its \<open>Fault\<close>), and the theorems show where the partiality is never met
  or exactly when it is. A C++ operation that ends the process (an exception nobody
  catches, a null pointer) has the result \<open>None\<close>. A member that no constructor sets is \<open>None\<close> or
  \<open>Uninit\<close> until written. Critical sections are atomic steps; interleavings are sequences of steps.
  A \<open>float\<close> is its 32 bits, since the program only copies and prints them. An \<open>int\<close> whose range matters is a
  32-bit word read with its sign (the release counter, which wraps at the least \<open>int\<close>), or computed with \<open>c_int\<close>,
  which has no value where C's \<open>int\<close> overflows (the search of a resolution). An input of a session is served to its
  end before the next: the three threads of the server are interleaved message by message. The driver hands camera messages to the receiver
  that it accepted last (\<open>receiver_after\<close>).

  \<^bold>\<open>Parameters.\<close> Code outside the repository is an argument of the definitions that use it: the IPCU
  driver and address translation, \<open>malloc\<close>, libexif (\<open>exif_lib\<close>, \<open>exif_codec\<close>), json-c and the
  circular buffer of boost (\<open>gps_lib\<close>, with boost's documented behaviour as \<open>circular\<close>), libav (the
  results \<open>av_start\<close> and \<open>av_frame\<close>), live555 (the order in which it creates, closes and asks
  sources), ZeroMQ (what is waiting on a socket), the file system, the clocks, and
  floating-point results (\<open>float_unit\<close>). Hypotheses about them are named in the theorems that
  need them, and every theorem with a hypothesis has a witness at concrete arguments.

  \<^bold>\<open>What the theorems show.\<close> Stream library: nodes are conserved, accepted commands are delivered once
  and in order, and under fair scheduling they all are; operations are defined in every reachable state, and each entry point does what its
  branches say; a command shared by \<open>n + 1\<close> clients is given back by the last release and by no other; the loops that drain lists and create the pool end. Camera commands: answered
  commands return the words of the answer, channels are balanced. JPEG: loading never reads
  outside its data, printing and loading are inverse, pictures that were written completely are
  read back with their two APP1 segments. GPS and SEI: the ring keeps the samples of the latest 64
  messages that carry one, samples printed into messages come back bit for bit, the lookup finds the right one, the unit decodes to it. Recorder, RTSP and server: frames
  reach their consumers once, the recorder keeps libav's protocol, deliveries stay in the buffer,
  requests are answered once and truthfully. Whole system: a recording from its start to its stop is
  one file with exactly the frames of its stream, in order and each labelled with the sample that the GPS messages before it determine; every picture message is one
  file and two announcements; what an RTSP client reads is the latest frame of its stream with its sample; every camera message
  is given back once; the program ends when a signal has come and in no other way, and with harmless inputs it does; its calls
  of the driver and its exit code are known for every start, the failed ones included. Theorems of kind error state defects of the code
  as it is: the findings of the manifest refer to them.

  \<^bold>\<open>Bounds.\<close> No fuel is used: loops are structural recursions, recursions with a measure
  (\<open>remove_from\<close>), or partial functions whose value is \<open>None\<close> when they do not end (\<open>drain\<close>,
  \<open>load_loop\<close>, \<open>push_loop\<close>), with theorems on when that is.

  \<^bold>\<open>Not modelled.\<close> The system log and progress messages, those that \<open>print_operation_time\<close> prints while a picture is
  written included (\<open>JpegTools\<close> models the function by itself, with the overflow it has); the debug thread of \<open>sample_library.c\<close> and the old
  encoder in \<open>sei_encoder.cpp\<close> (neither is compiled); \<open>createGPSStream\<close> of \<open>media_recorder.cpp\<close>, which
  nothing calls; the declarations of the vendor headers that the code does
  not use; the manual test programs. A failure of \<open>RTSPServer::createNew\<close> is stated with
  \<open>live_start_calls\<close> only: the server of \<open>FramedSource\<close> and \<open>MainLoop\<close> has its port. Memory effects of data
  races other than those of the interleaved critical sections, of the vector of consumers
  and of the destructor of a source are outside the model.

  The asynchronous mode of the stream library is modelled by itself (\<open>StreamService\<close>, \<open>StreamLiveness\<close>); a session of the
  server has the synchronous one only, since \<open>StreamReceiver::start\<close> asks for no other.
\<close>

end
